(* ===== verification/Prelude.thy ===== *)
theory Prelude
  imports Main "HOL-Library.Word"
begin

unbundle bit_operations_syntax

text \<open>
  Shared vocabulary of the development: the machine integers of the C++ sources, the errors
  and the result type every fallible operation returns, the simulation parameters of
  \<open>SystemConfig.hh\<close>, checked array accesses, the little-endian view of words as bytes and
  the lemma collections the component theories use.

  \<^item> \<open>uint8_t\<close>, \<open>uint16_t\<close>, \<open>uint32_t\<close> are words of their width; \<open>int\<close> is \<open>int\<close>, or
    \<open>nat\<close> for counters that only grow from 0 (no component lets one leave the 32-bit range),
    and \<open>size_t\<close> is \<open>nat\<close>; the difference of two \<open>int\<close>s converted to \<open>size_t\<close> is \<open>size_t_sub\<close>,
    which writes the wrap-around of a negative difference out.
  \<^item> An assertion, an \<open>exit\<close>, an access outside an array or a shift C++ leaves undefined is
    a value of \<open>sim_error\<close>.
  \<^item> The simulation kernel ACALSim (a git submodule) is not part of the repository. Whether
    its \<open>ERROR\<close> streams stop the run is the parameter \<open>error_aborts\<close>.
\<close>

named_theorems result_simps \<open>case analysis of fallible computations\<close>
named_theorems bytes_simps \<open>words as byte lists\<close>

section \<open>Machine integers\<close>

type_synonym u8 = "8 word"
type_synonym u16 = "16 word"
type_synonym u32 = "32 word"

definition size_t_sub :: "nat \<Rightarrow> nat \<Rightarrow> nat" where
  "size_t_sub a b = (if b \<le> a then a - b else 2 ^ 64 - (b - a))"

lemma size_t_sub_le [simp]: "b \<le> a \<Longrightarrow> size_t_sub a b = a - b"
  by (simp add: size_t_sub_def)

lemma sint_word_of_int_id:
  "- (2 ^ (LENGTH('a) - 1)) \<le> x \<Longrightarrow> x < 2 ^ (LENGTH('a) - 1) \<Longrightarrow> sint (word_of_int x :: 'a::len word) = x"
  by (subst sint_sbintrunc') (rule signed_take_bit_int_eq_self)

lemma unat_of_nat_u32: "n < 2 ^ 32 \<Longrightarrow> unat (of_nat n :: u32) = n"
  by (simp add: unat_of_nat)

lemma unat_u32_bound: "unat (w :: u32) < 2 ^ 32"
  using unsigned_less [of w, where 'a = nat] by simp

section \<open>Errors and results\<close>

datatype sim_error =
    AssertionFailed string
  | LoggedError string
  | ProgramExit nat
  | OutOfBounds string
  | UndefinedShift
  | DivisionByZero
  | Uninitialised string

type_synonym 'a result = "sim_error + 'a"

definition bindE :: "'a result \<Rightarrow> ('a \<Rightarrow> 'b result) \<Rightarrow> 'b result" where
  "bindE r f = (case r of Inl e \<Rightarrow> Inl e | Inr x \<Rightarrow> f x)"

lemma bindE_Inl [simp]: "bindE (Inl e) f = Inl e"
  by (simp add: bindE_def)

lemma bindE_Inr [simp]: "bindE (Inr x) f = f x"
  by (simp add: bindE_def)

lemma bindE_Inr_right [simp]: "bindE r Inr = r"
  by (cases r) simp_all

lemma bindE_eq_Inr [result_simps]: "bindE r f = Inr y \<longleftrightarrow> (\<exists>x. r = Inr x \<and> f x = Inr y)"
  by (cases r) simp_all

lemma bindE_eq_Inl [result_simps]:
  "bindE r f = Inl e \<longleftrightarrow> r = Inl e \<or> (\<exists>x. r = Inr x \<and> f x = Inl e)"
  by (cases r) auto

lemma bindE_assoc: "bindE (bindE r f) g = bindE r (\<lambda>x. bindE (f x) g)"
  by (cases r) simp_all

lemma bindE_cong [fundef_cong]:
  "r = r' \<Longrightarrow> (\<And>x. r' = Inr x \<Longrightarrow> f x = f' x) \<Longrightarrow> bindE r f = bindE r' f'"
  by (cases r') simp_all

text \<open>A loop over a list in the result type.\<close>

primrec foldE :: "('s \<Rightarrow> 'x \<Rightarrow> 's result) \<Rightarrow> 's \<Rightarrow> 'x list \<Rightarrow> 's result" where
  "foldE f s [] = Inr s"
| "foldE f s (x # xs) = bindE (f s x) (\<lambda>s'. foldE f s' xs)"

lemma foldE_append: "foldE f s (xs @ ys) = bindE (foldE f s xs) (\<lambda>s'. foldE f s' ys)"
  by (induction xs arbitrary: s) (simp_all add: bindE_assoc)

lemma foldE_invariant:
  assumes "foldE f s xs = Inr s'" "P s" "\<And>s x s'. f s x = Inr s' \<Longrightarrow> P s \<Longrightarrow> P s'"
  shows "P s'"
  using assms(1,2) by (induction xs arbitrary: s) (auto simp: result_simps dest: assms(3))

definition assertE :: "bool \<Rightarrow> string \<Rightarrow> 'a result \<Rightarrow> 'a result" where
  "assertE b msg k = (if b then k else Inl (AssertionFailed msg))"

lemma assertE_True [simp]: "assertE True msg k = k"
  by (simp add: assertE_def)

lemma assertE_eq_Inr [result_simps]: "assertE b msg k = Inr y \<longleftrightarrow> b \<and> k = Inr y"
  by (simp add: assertE_def)

section \<open>Simulation parameters\<close>

record sim_config =
  memory_size :: nat
  data_offset :: nat
  text_offset :: nat
  max_label_count :: nat
  max_src_len :: nat
  memory_read_latency :: nat
  memory_write_latency :: nat
  error_aborts :: bool

definition default_config :: sim_config where
  "default_config = \<lparr>memory_size = 65536, data_offset = 8192, text_offset = 0,
     max_label_count = 128, max_src_len = 1048576, memory_read_latency = 1,
     memory_write_latency = 1, error_aborts = True\<rparr>"

text \<open>The streams \<open>ERROR\<close>, \<open>CLASS_ERROR\<close> and \<open>LABELED_ERROR\<close>: the run stops or goes on.\<close>

definition log_error :: "sim_config \<Rightarrow> string \<Rightarrow> 'a result \<Rightarrow> 'a result" where
  "log_error cfg msg k = (if error_aborts cfg then Inl (LoggedError msg) else k)"

lemma log_error_eq_Inr [result_simps]:
  "log_error cfg msg k = Inr y \<longleftrightarrow> \<not> error_aborts cfg \<and> k = Inr y"
  by (simp add: log_error_def)

section \<open>Checked array accesses\<close>

definition array_get :: "string \<Rightarrow> 'a list \<Rightarrow> int \<Rightarrow> 'a result" where
  "array_get a xs i =
     (if 0 \<le> i \<and> i < int (length xs) then Inr (xs ! nat i) else Inl (OutOfBounds a))"

definition array_set :: "string \<Rightarrow> 'a list \<Rightarrow> int \<Rightarrow> 'a \<Rightarrow> 'a list result" where
  "array_set a xs i v =
     (if 0 \<le> i \<and> i < int (length xs) then Inr (xs[nat i := v]) else Inl (OutOfBounds a))"

lemma array_get_in [simp]: "0 \<le> i \<Longrightarrow> i < int (length xs) \<Longrightarrow> array_get a xs i = Inr (xs ! nat i)"
  by (simp add: array_get_def)

lemma array_set_in [simp]:
  "0 \<le> i \<Longrightarrow> i < int (length xs) \<Longrightarrow> array_set a xs i v = Inr (xs[nat i := v])"
  by (simp add: array_set_def)

lemma array_get_eq_Inr [result_simps]:
  "array_get a xs i = Inr v \<longleftrightarrow> 0 \<le> i \<and> i < int (length xs) \<and> v = xs ! nat i"
  by (auto simp: array_get_def)

lemma array_set_eq_Inr [result_simps]:
  "array_set a xs i v = Inr ys \<longleftrightarrow> 0 \<le> i \<and> i < int (length xs) \<and> ys = xs[nat i := v]"
  by (auto simp: array_set_def)

section \<open>Bit fields\<close>

lemma and_mask_simps [bytes_simps]:
  "(w :: u32) AND 0x3F = take_bit 6 w" "w AND 0xFF = take_bit 8 w" "w AND 0xFFF = take_bit 12 w"
  "w AND 0xFFFF = take_bit 16 w" "w AND 1 = take_bit 1 w"
  by (simp_all add: take_bit_eq_mask mask_eq_exp_minus_1)

section \<open>Words as little-endian bytes\<close>

text \<open>
  The sources move values between registers and memory with \<open>memcpy\<close> and pointer casts; on
  the little-endian hosts the simulator runs on, byte \<open>i\<close> of a value is its bits \<open>8i\<close> to
  \<open>8i+7\<close>.
\<close>

definition bytes_of :: "nat \<Rightarrow> u32 \<Rightarrow> u8 list" where
  "bytes_of n w = map (\<lambda>i. ucast (drop_bit (8 * i) w)) [0..<n]"

primrec word_of_bytes :: "u8 list \<Rightarrow> u32" where
  "word_of_bytes [] = 0"
| "word_of_bytes (b # bs) = ucast b OR push_bit 8 (word_of_bytes bs)"

lemma length_bytes_of [simp]: "length (bytes_of n w) = n"
  by (simp add: bytes_of_def)

lemma nth_bytes_of [bytes_simps]: "i < n \<Longrightarrow> bytes_of n w ! i = ucast (drop_bit (8 * i) w)"
  by (simp add: bytes_of_def)

lemma bit_word_of_bytes [bytes_simps]:
  "bit (word_of_bytes bs) k \<longleftrightarrow> k < 32 \<and> k div 8 < length bs \<and> bit (bs ! (k div 8)) (k mod 8)"
proof (induction bs arbitrary: k)
  case Nil
  then show ?case by simp
next
  case (Cons b bs)
  show ?case
  proof (cases "k < 8")
    case True
    then show ?thesis by (auto simp: bit_simps)
  next
    case False
    then have "k div 8 = Suc ((k - 8) div 8)" "k mod 8 = (k - 8) mod 8"
      by (auto simp: div_if [of k 8] mod_if [of k 8])
    moreover have "\<not> bit b k"
      using False by (auto dest: bit_imp_le_length)
    ultimately show ?thesis
      using False Cons.IH [of "k - 8"] by (auto simp: bit_simps)
  qed
qed

lemma word_of_bytes_of [bytes_simps]: "word_of_bytes (bytes_of n w) = take_bit (8 * n) w"
proof (rule bit_eqI)
  fix k
  assume "possible_bit TYPE(32 word) k"
  then have k: "k < 32" by simp
  have "k div 8 < n \<longleftrightarrow> k < 8 * n"
    by (simp add: div_less_iff_less_mult mult.commute)
  moreover have "8 * (k div 8) + k mod 8 = k"
    by simp
  ultimately show "bit (word_of_bytes (bytes_of n w)) k \<longleftrightarrow> bit (take_bit (8 * n) w) k"
    using k by (auto simp: bytes_simps bit_simps)
qed

lemma word_of_bytes_of_32 [simp]: "word_of_bytes (bytes_of 4 w) = w"
  by (simp add: word_of_bytes_of take_bit_word_eq_self)

lemma bytes_of_word_of_bytes:
  assumes "length bs \<le> 4"
  shows "bytes_of (length bs) (word_of_bytes bs) = bs"
proof (rule nth_equalityI)
  fix i
  assume "i < length (bytes_of (length bs) (word_of_bytes bs))"
  then have i: "i < length bs" by simp
  have "bytes_of (length bs) (word_of_bytes bs) ! i = ucast (drop_bit (8 * i) (word_of_bytes bs))"
    using i by (rule nth_bytes_of)
  also have "\<dots> = bs ! i"
  proof (rule bit_eqI)
    fix n
    assume "possible_bit TYPE(8 word) n"
    then have "n < 8" by simp
    then have "(8 * i + n) div 8 = i" "(8 * i + n) mod 8 = n" "8 * i + n < 32"
      using i assms by auto
    then show "bit (ucast (drop_bit (8 * i) (word_of_bytes bs)) :: u8) n = bit (bs ! i) n"
      using i \<open>n < 8\<close> by (simp add: bit_simps bytes_simps)
  qed
  finally show "bytes_of (length bs) (word_of_bytes bs) ! i = bs ! i" .
qed simp

section \<open>Overwriting a segment of a list\<close>

lemma upt_split: "i \<le> j \<Longrightarrow> j \<le> k \<Longrightarrow> [i..<k] = [i..<j] @ [j..<k]"
  using upt_add_eq_append [of i j "k - j"] by simp

lemma sum_list_concat: "(\<Sum>x\<leftarrow>concat xss. g x) = (\<Sum>xs\<leftarrow>xss. \<Sum>x\<leftarrow>xs. g x :: 'b::monoid_add)"
  by (induction xss) simp_all

lemma nth_map_upt_0: "k < n \<Longrightarrow> map f [0..<n] ! k = f k"
  by simp

lemma map_upt_shift: "map f [b..<b + n] = map (\<lambda>i. f (b + i)) [0..<n]"
  by (rule nth_equalityI) simp_all

text \<open>\<open>memcpy\<close> into an array: \<open>length vs\<close> elements from index \<open>n\<close> on are replaced.\<close>

definition blit :: "'a list \<Rightarrow> nat \<Rightarrow> 'a list \<Rightarrow> 'a list" where
  "blit xs n vs = take n xs @ vs @ drop (n + length vs) xs"

definition segment :: "'a list \<Rightarrow> nat \<Rightarrow> nat \<Rightarrow> 'a list" where
  "segment xs n k = take k (drop n xs)"

lemma length_blit [simp]: "n + length vs \<le> length xs \<Longrightarrow> length (blit xs n vs) = length xs"
  by (simp add: blit_def)

lemma length_segment [simp]: "n + k \<le> length xs \<Longrightarrow> length (segment xs n k) = k"
  by (simp add: segment_def)

lemma nth_segment: "i < k \<Longrightarrow> n + k \<le> length xs \<Longrightarrow> segment xs n k ! i = xs ! (n + i)"
  by (simp add: segment_def)

lemma nth_blit:
  assumes "n + length vs \<le> length xs" "i < length xs"
  shows "blit xs n vs ! i = (if n \<le> i \<and> i < n + length vs then vs ! (i - n) else xs ! i)"
  using assms by (auto simp: blit_def nth_append min_def)

lemma segment_blit_same [simp]:
  "n + length vs \<le> length xs \<Longrightarrow> segment (blit xs n vs) n (length vs) = vs"
  by (simp add: blit_def segment_def)

lemma segment_blit_disjoint:
  assumes "n + length vs \<le> length xs" "m + k \<le> length xs" "m + k \<le> n \<or> n + length vs \<le> m"
  shows "segment (blit xs n vs) m k = segment xs m k"
proof (rule nth_equalityI)
  show "length (segment (blit xs n vs) m k) = length (segment xs m k)"
    using assms by simp
  fix i
  assume "i < length (segment (blit xs n vs) m k)"
  then have "i < k" using assms by simp
  then show "segment (blit xs n vs) m k ! i = segment xs m k ! i"
    using assms by (auto simp: nth_segment nth_blit)
qed

lemma blit_Nil [simp]: "blit xs n [] = xs"
  by (simp add: blit_def)

lemma blit_Cons: "n < length xs \<Longrightarrow> blit (xs[n := v]) (Suc n) vs = blit xs n (v # vs)"
  by (simp add: blit_def take_Suc_conv_app_nth)

lemma blit_append: "n + length us + length vs \<le> length xs \<Longrightarrow> blit (blit xs n us) (n + length us) vs = blit xs n (us @ vs)"
  by (cases us) (auto simp: blit_def min_def ac_simps)

end
