(* ===== verification/DataStruct.thy ===== *)
theory DataStruct
  imports Prelude
begin

text \<open>
  The instruction format of the SoC simulator (\<open>soc/include/DataStruct.hh\<close>): the enumeration
  of operations, operands and decoded instructions. The constructors \<open>AND'\<close>, \<open>OR'\<close> and
  \<open>XOR'\<close> carry a prime because the unprimed words are the bit operations of the library.
  The 5-stage pipeline model (\<open>src/riscv/include/DataStruct.hh\<close>) has the same enumeration
  without the SIMD operations, \<open>MUL\<close> and \<open>NOP\<close>.
\<close>

datatype instr_type =
    UNIMPL | ADD | ADDI | AND' | ANDI | AUIPC | BEQ | BGE | BGEU | BLT | BLTU | BNE | JAL | JALR
  | LB | LBU | LH | LHU | LUI | LW | OR' | ORI | SB | SH | SLL | SLLI | SLT | SLTI | SLTIU | SLTU
  | SRA | SRAI | SRL | SRLI | SUB | SW | XOR' | XORI
  | S_ADDI8I8S_VV | S_ADDI16I16S_VV | S_SUBI8I8S_VV | S_SUBI16I16S_VV
  | S_PMULI8I16S_VV_L | S_PMULI8I16S_VV_H | S_AMULI8I8S_VV_NQ | S_AMULI8I8S_VV_L
  | MUL | NOP | HCF

datatype operand_type = OPTYPE_NONE | OPTYPE_REG | OPTYPE_IMM | OPTYPE_LABEL

definition MAX_LABEL_LEN :: nat where
  "MAX_LABEL_LEN = 32"

record operand =
  o_type :: operand_type
  o_label :: string
  o_reg :: int
  o_imm :: u32

text \<open>\<open>psrc\<close> is a pointer into the source buffer: an offset, or \<open>None\<close> for \<open>NULL\<close>.\<close>

record instr =
  i_op :: instr_type
  i_a1 :: operand
  i_a2 :: operand
  i_a3 :: operand
  i_psrc :: "nat option"
  i_orig_line :: int
  i_breakpoint :: bool

record label_loc =
  l_label :: string
  l_loc :: int

text \<open>The value-initialised \<open>operand{}\<close> and \<open>instr{}\<close>.\<close>

definition blank_operand :: operand where
  "blank_operand = \<lparr>o_type = OPTYPE_NONE, o_label = [], o_reg = 0, o_imm = 0\<rparr>"

definition blank_instr :: instr where
  "blank_instr = \<lparr>i_op = UNIMPL, i_a1 = blank_operand, i_a2 = blank_operand, i_a3 = blank_operand,
     i_psrc = None, i_orig_line = -1, i_breakpoint = False\<rparr>"

text \<open>The width in bytes of a load or a store, as the memory models switch on it.\<close>

fun load_bytes :: "instr_type \<Rightarrow> nat" where
  "load_bytes LB = 1"
| "load_bytes LBU = 1"
| "load_bytes LH = 2"
| "load_bytes LHU = 2"
| "load_bytes LW = 4"
| "load_bytes _ = 0"

fun store_bytes :: "instr_type \<Rightarrow> nat" where
  "store_bytes SB = 1"
| "store_bytes SH = 2"
| "store_bytes SW = 4"
| "store_bytes _ = 0"

text \<open>The value a load yields from the bytes it read: sign- or zero-extended to 32 bits.\<close>

fun load_ext :: "instr_type \<Rightarrow> u8 list \<Rightarrow> u32" where
  "load_ext LB bs = scast (ucast (word_of_bytes bs) :: u8)"
| "load_ext LBU bs = word_of_bytes bs"
| "load_ext LH bs = scast (ucast (word_of_bytes bs) :: u16)"
| "load_ext LHU bs = word_of_bytes bs"
| "load_ext LW bs = word_of_bytes bs"
| "load_ext _ bs = 0"

text \<open>What a load reads back from the bytes a store of \<open>v\<close> left.\<close>

lemma ucast8_take_bit: "(ucast (take_bit 8 v) :: u8) = ucast (v :: u32)"
  by (rule bit_word_eqI) (simp add: bit_simps)

lemma ucast16_take_bit: "(ucast (take_bit 16 v) :: u16) = ucast (v :: u32)"
  by (rule bit_word_eqI) (simp add: bit_simps)

lemma load_ext_bytes_of [bytes_simps]:
  "load_ext LB (bytes_of 1 v) = scast (ucast v :: u8)"
  "load_ext LBU (bytes_of 1 v) = take_bit 8 v"
  "load_ext LH (bytes_of 2 v) = scast (ucast v :: u16)"
  "load_ext LHU (bytes_of 2 v) = take_bit 16 v"
  "load_ext LW (bytes_of 4 v) = v"
proof -
  have "word_of_bytes (bytes_of 1 v) = take_bit 8 v" "word_of_bytes (bytes_of 2 v) = take_bit 16 v"
    by (simp_all add: word_of_bytes_of)
  then show "load_ext LB (bytes_of 1 v) = scast (ucast v :: u8)"
    "load_ext LBU (bytes_of 1 v) = take_bit 8 v"
    "load_ext LH (bytes_of 2 v) = scast (ucast v :: u16)"
    "load_ext LHU (bytes_of 2 v) = take_bit 16 v"
    by (simp_all only: load_ext.simps ucast8_take_bit ucast16_take_bit)
  show "load_ext LW (bytes_of 4 v) = v" by simp
qed

section \<open>Loading back a stored value\<close>

text \<open>What a load returns of a value stored with the same width.\<close>

fun reload :: "instr_type \<Rightarrow> u32 \<Rightarrow> u32" where
  "reload LB v = scast (ucast v :: u8)"
| "reload LBU v = take_bit 8 v"
| "reload LH v = scast (ucast v :: u16)"
| "reload LHU v = take_bit 16 v"
| "reload _ v = v"

lemma load_ext_store:
  assumes "st \<in> {SB, SH, SW}" "load_bytes ld = store_bytes st"
  shows "load_ext ld (bytes_of (store_bytes st) v) = reload ld v"
  using assms by (cases ld) (auto simp: bytes_simps numeral_2_eq_2 [symmetric] simp del: load_ext.simps
      simp flip: One_nat_def)

end
