(* ===== verification/BaseMemory.thy ===== *)
theory BaseMemory
  imports DataStruct
begin

text \<open>
  \<open>BaseMemory\<close> (\<open>BaseMemory.hh\<close>, \<open>BaseMemory.cc\<close>): a byte array of fixed size with checked
  reads and writes, and the interface \<open>byte_store\<close> its clients rely on. The interface is
  instantiated here on \<open>BaseMemory\<close> and, in the theory of the systolic array, on the array's
  on-chip SRAM; what a load returns after a store is proved once, in the interface.
\<close>

section \<open>The memory and its operations\<close>

record base_memory =
  mem :: "u8 list"
  msize :: nat

definition mem_new :: "nat \<Rightarrow> base_memory" where
  "mem_new n = \<lparr>mem = replicate n 0, msize = n\<rparr>"

definition getSize :: "base_memory \<Rightarrow> nat" where
  "getSize m = msize m"

text \<open>The bytes \<open>readData\<close> gives access to; a deep copy holds the same bytes.\<close>

definition readData :: "base_memory \<Rightarrow> u32 \<Rightarrow> nat \<Rightarrow> u8 list result" where
  "readData m addr n =
     assertE (unat addr + n \<le> getSize m) ''The memory region to be accessed is out of range.''
       (Inr (segment (mem m) (unat addr) n))"

text \<open>\<open>memcpy\<close> reads \<open>n\<close> bytes of the data, which the caller has to provide.\<close>

definition writeData :: "base_memory \<Rightarrow> u8 list option \<Rightarrow> u32 \<Rightarrow> nat \<Rightarrow> base_memory result" where
  "writeData m data addr n =
     (case data of
        None \<Rightarrow> Inl (AssertionFailed ''The received argument `_data` is a nullptr.'')
      | Some bs \<Rightarrow>
          assertE (unat addr + n \<le> getSize m) ''The memory region to be accessed is out of range.''
            (if n \<le> length bs then Inr (m\<lparr>mem := blit (mem m) (unat addr) (take n bs)\<rparr>)
             else Inl (OutOfBounds ''data'')))"

definition mem_ok :: "base_memory \<Rightarrow> bool" where
  "mem_ok m \<longleftrightarrow> length (mem m) = msize m"

lemma mem_ok_new [simp]: "mem_ok (mem_new n)"
  by (simp add: mem_ok_def mem_new_def)

lemma writeData_msize: "writeData m d a n = Inr m' \<Longrightarrow> msize m' = msize m"
  by (auto simp: writeData_def result_simps split: option.splits if_splits)

lemma writeData_mem_ok: "mem_ok m \<Longrightarrow> writeData m d a n = Inr m' \<Longrightarrow> mem_ok m'"
  by (auto simp: writeData_def mem_ok_def getSize_def result_simps split: option.splits if_splits)

lemma readData_length: "mem_ok m \<Longrightarrow> readData m a n = Inr bs \<Longrightarrow> length bs = n"
  by (auto simp: readData_def mem_ok_def getSize_def result_simps)

section \<open>The interface of a byte-addressed store\<close>

text \<open>Two words that do not overlap.\<close>

definition apart :: "u32 \<Rightarrow> u32 \<Rightarrow> bool" where
  "apart a b \<longleftrightarrow> unat a + 4 \<le> unat b \<or> unat b + 4 \<le> unat a"

text \<open>
  A client reads and writes runs of bytes at an address. \<open>ok s a n\<close> says the run is inside
  the store; \<open>inv\<close> is the representation invariant.
\<close>

locale byte_store =
  fixes rd :: "'s \<Rightarrow> u32 \<Rightarrow> nat \<Rightarrow> u8 list result"
    and wr :: "'s \<Rightarrow> u32 \<Rightarrow> u8 list \<Rightarrow> 's result"
    and ok :: "'s \<Rightarrow> u32 \<Rightarrow> nat \<Rightarrow> bool"
    and inv :: "'s \<Rightarrow> bool"
  assumes rd_total: "inv s \<Longrightarrow> ok s a n \<Longrightarrow> \<exists>bs. rd s a n = Inr bs \<and> length bs = n"
    and wr_total: "inv s \<Longrightarrow> ok s a (length bs) \<Longrightarrow> \<exists>s'. wr s a bs = Inr s'"
    and wr_inv: "inv s \<Longrightarrow> wr s a bs = Inr s' \<Longrightarrow> inv s'"
    and wr_ok: "inv s \<Longrightarrow> wr s a bs = Inr s' \<Longrightarrow> ok s' b n \<longleftrightarrow> ok s b n"
    and rd_wr_same: "inv s \<Longrightarrow> wr s a bs = Inr s' \<Longrightarrow> rd s' a (length bs) = Inr bs"
    and rd_wr_disjoint:
      "inv s \<Longrightarrow> wr s a bs = Inr s' \<Longrightarrow> ok s b n \<Longrightarrow>
       unat b + n \<le> unat a \<or> unat a + length bs \<le> unat b \<Longrightarrow> rd s' b n = rd s b n"
begin

definition load_at :: "'s \<Rightarrow> instr_type \<Rightarrow> u32 \<Rightarrow> u32 result" where
  "load_at s ld a = bindE (rd s a (load_bytes ld)) (\<lambda>bs. Inr (load_ext ld bs))"

definition store_at :: "'s \<Rightarrow> instr_type \<Rightarrow> u32 \<Rightarrow> u32 \<Rightarrow> 's result" where
  "store_at s st a v = wr s a (bytes_of (store_bytes st) v)"

lemma store_total: "inv s \<Longrightarrow> ok s a (store_bytes st) \<Longrightarrow> \<exists>s'. store_at s st a v = Inr s'"
  using wr_total [of s a "bytes_of (store_bytes st) v"] by (simp add: store_at_def)

lemma load_total: "inv s \<Longrightarrow> ok s a (load_bytes ld) \<Longrightarrow> \<exists>v. load_at s ld a = Inr v"
  using rd_total [of s a "load_bytes ld"] by (auto simp: load_at_def)

lemma load_store_same:
  assumes "inv s" "store_at s st a v = Inr s'" "load_bytes ld = store_bytes st"
  shows "load_at s' ld a = Inr (load_ext ld (bytes_of (store_bytes st) v))"
  using rd_wr_same [of s a "bytes_of (store_bytes st) v" s'] assms
  by (simp add: load_at_def store_at_def)

lemma load_store_reload:
  assumes "inv s" "store_at s st a v = Inr s'" "st \<in> {SB, SH, SW}" "load_bytes ld = store_bytes st"
  shows "load_at s' ld a = Inr (reload ld v)"
  using load_store_same [OF assms(1,2,4)] load_ext_store [OF assms(3,4), of v] by simp

lemma load_store_disjoint:
  assumes "inv s" "store_at s st a v = Inr s'" "ok s b (load_bytes ld)"
    and "unat b + load_bytes ld \<le> unat a \<or> unat a + store_bytes st \<le> unat b"
  shows "load_at s' ld b = load_at s ld b"
  using rd_wr_disjoint [of s a "bytes_of (store_bytes st) v" s' b "load_bytes ld"] assms
  by (simp add: load_at_def store_at_def)

text \<open>A store keeps the invariant and the extent of the store.\<close>

lemma store_inv: "inv s \<Longrightarrow> store_at s st a v = Inr s' \<Longrightarrow> inv s'"
  using wr_inv by (auto simp: store_at_def)

lemma store_ok: "inv s \<Longrightarrow> store_at s st a v = Inr s' \<Longrightarrow> ok s' b n \<longleftrightarrow> ok s b n"
  using wr_ok by (auto simp: store_at_def)

text \<open>Stores of words to places that do not overlap.\<close>

primrec store_words :: "'s \<Rightarrow> (u32 \<times> u32) list \<Rightarrow> 's result" where
  "store_words s [] = Inr s"
| "store_words s (av # avs) = bindE (store_at s SW (fst av) (snd av)) (\<lambda>s'. store_words s' avs)"

lemma store_words_spec:
  assumes "inv s" "\<forall>(a, v) \<in> set avs. ok s a 4" "sorted_wrt apart (map fst avs)"
  shows "\<exists>s'. store_words s avs = Inr s' \<and> inv s' \<and> (\<forall>b n. ok s' b n \<longleftrightarrow> ok s b n)
    \<and> (\<forall>(a, v) \<in> set avs. load_at s' LW a = Inr v)
    \<and> (\<forall>b. ok s b 4 \<longrightarrow> (\<forall>a \<in> fst ` set avs. apart b a) \<longrightarrow> load_at s' LW b = load_at s LW b)"
  using assms
proof (induction avs arbitrary: s)
  case (Cons av avs)
  obtain a v where av: "av = (a, v)" by fastforce
  obtain s1 where s1: "store_at s SW a v = Inr s1" using store_total [of s a SW v] Cons.prems(1,2) av by auto
  note keep = store_inv [OF Cons.prems(1) s1] store_ok [OF Cons.prems(1) s1]
  have "\<forall>(a, v) \<in> set avs. ok s1 a 4" "sorted_wrt apart (map fst avs)" using Cons.prems(2,3) keep(2) by auto
  from Cons.IH [OF keep(1) this] obtain s' where s': "store_words s1 avs = Inr s'" "inv s'" "\<forall>b n. ok s' b n \<longleftrightarrow> ok s1 b n"
    "\<forall>(a, v) \<in> set avs. load_at s' LW a = Inr v"
    "\<forall>b. ok s1 b 4 \<longrightarrow> (\<forall>a \<in> fst ` set avs. apart b a) \<longrightarrow> load_at s' LW b = load_at s1 LW b" by blast
  have "load_at s' LW a = load_at s1 LW a" using s'(5) Cons.prems(2,3) keep(2) av by auto
  then have "load_at s' LW a = Inr v" using load_store_reload [OF Cons.prems(1) s1, of LW] by simp
  moreover have "load_at s1 LW b = load_at s LW b" if "ok s b 4" "apart b a" for b
    using load_store_disjoint [OF Cons.prems(1) s1, of b LW] that by (simp add: apart_def)
  ultimately show ?case
    using s' s1 keep(2) av by (intro exI [of _ s']) auto
qed simp

end

definition mem_in_range :: "base_memory \<Rightarrow> u32 \<Rightarrow> nat \<Rightarrow> bool" where
  "mem_in_range m a n \<longleftrightarrow> unat a + n \<le> msize m"

definition write_bytes :: "base_memory \<Rightarrow> u32 \<Rightarrow> u8 list \<Rightarrow> base_memory result" where
  "write_bytes m a bs = writeData m (Some bs) a (length bs)"

interpretation bm: byte_store readData write_bytes mem_in_range mem_ok
proof unfold_locales
  fix m a n bs and m' :: base_memory
  assume inv: "mem_ok m"
  show "mem_in_range m a n \<Longrightarrow> \<exists>bs. readData m a n = Inr bs \<and> length bs = n"
    using inv by (simp add: readData_def mem_in_range_def mem_ok_def getSize_def)
  show "mem_in_range m a (length bs) \<Longrightarrow> \<exists>m'. write_bytes m a bs = Inr m'"
    by (simp add: write_bytes_def writeData_def mem_in_range_def getSize_def)
  assume w: "write_bytes m a bs = Inr m'"
  then show "mem_ok m'"
    using inv writeData_mem_ok by (auto simp: write_bytes_def)
  have range: "unat a + length bs \<le> length (mem m)" and m': "mem m' = blit (mem m) (unat a) bs"
    and sz: "msize m' = msize m"
    using w inv by (auto simp: write_bytes_def writeData_def mem_ok_def getSize_def result_simps)
  show "readData m' a (length bs) = Inr bs"
    using range inv sz by (simp add: readData_def m' getSize_def mem_ok_def)
  fix b k
  show "mem_in_range m' b k = mem_in_range m b k"
    using sz by (simp add: mem_in_range_def)
  assume "mem_in_range m b k" "unat b + k \<le> unat a \<or> unat a + length bs \<le> unat b"
  then show "readData m' b k = readData m b k"
    using range inv sz
    by (simp add: readData_def m' getSize_def mem_ok_def mem_in_range_def segment_blit_disjoint)
qed

end
