(* ===== verification/XBarPacket.thy ===== *)
theory XBarPacket
  imports DataStruct "HOL-Library.Multiset"
begin

text \<open>
  The packets the components exchange over the crossbar (\<open>packet/XBarPacket.hh\<close>), the
  constructors and the address map of \<open>MMIOUtil.hh\<close>, and the pipe registers through which a
  component hands packets to the crossbar.

  A packet is one of four kinds, told apart in the code by \<open>dynamic_cast\<close>. The transaction
  counter, a static variable in the code, is threaded through the constructors. A response
  packet built with \<open>required_new_tid = false\<close> keeps whatever identifier the recycled object
  had, which is \<open>None\<close> here until \<open>setTID\<close> is called.
\<close>

section \<open>Payloads and packets\<close>

record read_req_payload =
  rq_caller :: string
  rq_tid :: int
  rq_instr :: instr
  rq_op :: instr_type
  rq_addr :: u32
  rq_a1 :: operand

record write_req_payload =
  wq_caller :: string
  wq_tid :: int
  wq_instr :: instr
  wq_op :: instr_type
  wq_addr :: u32
  wq_data :: u32

record read_resp_payload =
  rr_tid :: int
  rr_instr :: instr
  rr_op :: instr_type
  rr_data :: u32
  rr_a1 :: operand

record write_resp_payload =
  wr_tid :: int
  wr_instr :: instr

record 'p xbar_packet =
  src_idx :: nat
  dst_idx :: nat
  burstLength :: int
  burstSize :: int
  TransactionID :: "int option"
  payloadList :: "'p list"

datatype sim_packet =
    ReadReq "read_req_payload xbar_packet"
  | WriteReq "write_req_payload xbar_packet"
  | ReadResp "read_resp_payload xbar_packet"
  | WriteResp "write_resp_payload xbar_packet"

text \<open>\<open>std::pow(2, burstMode)\<close> converted to \<open>int\<close>: a negative mode gives 0.\<close>

definition burst_size_of :: "int \<Rightarrow> int" where
  "burst_size_of m = (if 0 \<le> m then 2 ^ nat m else 0)"

definition generateTransactionID :: "int \<Rightarrow> int \<times> int" where
  "generateTransactionID c = (c, c + 1)"

definition renew_packet ::
  "int \<Rightarrow> 'p list \<Rightarrow> nat \<Rightarrow> nat \<Rightarrow> int option \<Rightarrow> 'p xbar_packet" where
  "renew_packet burstMode payloads src dst tid =
     \<lparr>src_idx = src, dst_idx = dst, burstLength = burstMode,
      burstSize = burst_size_of burstMode, TransactionID = tid, payloadList = payloads\<rparr>"

definition setTID :: "int \<Rightarrow> 'p xbar_packet \<Rightarrow> 'p xbar_packet" where
  "setTID t p = p\<lparr>TransactionID := Some t\<rparr>"

section \<open>The address map\<close>

definition getIndex :: "string \<Rightarrow> nat" where
  "getIndex name =
     (if name = ''cpu'' \<or> name = ''dm'' then 0
      else if name = ''dma'' then 1
      else if name = ''sa'' then 2
      else 0)"

definition DMA_MMIO_BASE :: u32 where "DMA_MMIO_BASE = 0xF000"
definition DMA_MMIO_END :: u32 where "DMA_MMIO_END = 0xF03F"
definition SA_MMIO_BASE :: u32 where "SA_MMIO_BASE = 0x12000"
definition SA_MMIO_END :: u32 where "SA_MMIO_END = 0x120F0"
definition SA_MEMORY_BASE :: u32 where "SA_MEMORY_BASE = 0x20000"
definition SA_MEMORY_END :: u32 where "SA_MEMORY_END = 0x28000"

lemmas address_map_defs =
  DMA_MMIO_BASE_def DMA_MMIO_END_def SA_MMIO_BASE_def SA_MMIO_END_def
  SA_MEMORY_BASE_def SA_MEMORY_END_def

definition slaveIndex :: "u32 \<Rightarrow> nat" where
  "slaveIndex addr =
     (if DMA_MMIO_BASE \<le> addr \<and> addr \<le> DMA_MMIO_END then 1
      else if SA_MMIO_BASE \<le> addr \<and> addr \<le> SA_MMIO_END
            \<or> SA_MEMORY_BASE \<le> addr \<and> addr \<le> SA_MEMORY_END then 2
      else 0)"

section \<open>Building request packets\<close>

definition Construct_MemReadpkt_non_burst ::
  "int \<Rightarrow> instr \<Rightarrow> instr_type \<Rightarrow> u32 \<Rightarrow> operand \<Rightarrow> string \<Rightarrow> sim_packet \<times> int" where
  "Construct_MemReadpkt_non_burst ctr i oper addr a1 caller =
     (let (tid, ctr') = generateTransactionID ctr;
          payload = \<lparr>rq_caller = caller, rq_tid = tid, rq_instr = i, rq_op = oper,
                     rq_addr = addr, rq_a1 = a1\<rparr>
      in (ReadReq (renew_packet 0 [payload] (getIndex caller) (slaveIndex addr) (Some tid)), ctr'))"

definition Construct_MemWritepkt_non_burst ::
  "int \<Rightarrow> instr \<Rightarrow> instr_type \<Rightarrow> u32 \<Rightarrow> u32 \<Rightarrow> string \<Rightarrow> sim_packet \<times> int" where
  "Construct_MemWritepkt_non_burst ctr i oper addr data caller =
     (let (tid, ctr') = generateTransactionID ctr;
          payload = \<lparr>wq_caller = caller, wq_tid = tid, wq_instr = i, wq_op = oper,
                     wq_addr = addr, wq_data = data\<rparr>
      in (WriteReq (renew_packet 0 [payload] (getIndex caller) (slaveIndex addr) (Some tid)), ctr'))"

text \<open>The bus takes bursts of one, two or four beats; other sizes get the mode -1.\<close>

definition burst_mode :: "nat \<Rightarrow> int" where
  "burst_mode n = (if n = 4 then 2 else if n = 2 then 1 else if n = 1 then 0 else -1)"

text \<open>\<open>payloads[0]\<close> decides the destination; an empty vector is an access out of bounds.\<close>

definition Construct_MemReadpkt_burst ::
  "int \<Rightarrow> string \<Rightarrow> read_req_payload list \<Rightarrow> (read_req_payload xbar_packet \<times> int) result" where
  "Construct_MemReadpkt_burst ctr src payloads =
     (case payloads of
        [] \<Rightarrow> Inl (OutOfBounds ''payloads'')
      | p # _ \<Rightarrow>
          (let (tid, ctr') = generateTransactionID ctr
           in Inr (renew_packet (burst_mode (length payloads))
                     (map (\<lambda>q. q\<lparr>rq_caller := src, rq_tid := tid\<rparr>) payloads)
                     (getIndex src) (slaveIndex (rq_addr p)) (Some tid), ctr')))"

definition Construct_MemWritepkt_burst ::
  "int \<Rightarrow> string \<Rightarrow> write_req_payload list \<Rightarrow> (write_req_payload xbar_packet \<times> int) result" where
  "Construct_MemWritepkt_burst ctr src payloads =
     (case payloads of
        [] \<Rightarrow> Inl (OutOfBounds ''payloads'')
      | p # _ \<Rightarrow>
          (let (tid, ctr') = generateTransactionID ctr
           in Inr (renew_packet (burst_mode (length payloads))
                     (map (\<lambda>q. q\<lparr>wq_caller := src, wq_tid := tid\<rparr>) payloads)
                     (getIndex src) (slaveIndex (wq_addr p)) (Some tid), ctr')))"

section \<open>Building response packets\<close>

text \<open>\<open>ceil(log2(n))\<close> for \<open>n > 0\<close>.\<close>

fun clog2 :: "nat \<Rightarrow> nat" where
  "clog2 n = (if n \<le> 1 then 0 else Suc (clog2 ((n + 1) div 2)))"

declare clog2.simps [simp del]

definition resp_burst_mode :: "nat \<Rightarrow> int" where
  "resp_burst_mode n = (if n = 1 then 0 else int (clog2 n))"

definition Construct_MemReadRespPkt ::
  "read_resp_payload list \<Rightarrow> string \<Rightarrow> string \<Rightarrow> read_resp_payload xbar_packet" where
  "Construct_MemReadRespPkt beats src dst =
     renew_packet (resp_burst_mode (length beats)) beats (getIndex src) (getIndex dst) None"

definition Construct_MemWriteRespPkt ::
  "write_resp_payload list \<Rightarrow> string \<Rightarrow> string \<Rightarrow> write_resp_payload xbar_packet" where
  "Construct_MemWriteRespPkt beats src dst =
     renew_packet (resp_burst_mode (length beats)) beats (getIndex src) (getIndex dst) None"

lemmas packet_defs = Construct_MemReadpkt_non_burst_def Construct_MemWritepkt_non_burst_def
  Construct_MemReadpkt_burst_def Construct_MemWritepkt_burst_def
  Construct_MemReadRespPkt_def Construct_MemWriteRespPkt_def renew_packet_def setTID_def
  generateTransactionID_def

section \<open>Pipe registers\<close>

text \<open>
  A pipe register is a class of ACALSim: \<open>isStalled\<close> and \<open>push\<close> are parameters, over an
  opaque register state. \<open>push\<close> returns the new state and whether the packet was taken.
\<close>

record 'r reg_ops =
  isStalled :: "'r \<Rightarrow> bool"
  push :: "'r \<Rightarrow> sim_packet \<Rightarrow> 'r \<times> bool"

text \<open>The idiom of \<open>CPU\<close> and \<open>DMA\<close>: push if the register is free, keep the packet otherwise.\<close>

definition send_or_queue ::
  "'r reg_ops \<Rightarrow> 'r \<Rightarrow> sim_packet list \<Rightarrow> sim_packet \<Rightarrow> 'r \<times> sim_packet list \<times> bool" where
  "send_or_queue ops r q p =
     (if isStalled ops r then (r, q @ [p], False)
      else (case push ops r p of (r', taken) \<Rightarrow> (r', if taken then q else q @ [p], taken)))"

text \<open>The idiom of \<open>trySendPacket\<close> and \<open>trySendResponse\<close>: push the front of a queue.\<close>

definition try_send :: "'r reg_ops \<Rightarrow> 'r \<Rightarrow> sim_packet list \<Rightarrow> 'r \<times> sim_packet list" where
  "try_send ops r q =
     (case q of
        [] \<Rightarrow> (r, q)
      | p # ps \<Rightarrow>
          (if isStalled ops r then (r, q)
           else (case push ops r p of (r', taken) \<Rightarrow> (r', if taken then ps else q))))"

text \<open>
  What the components rely on: the register accounts for the packets it took. \<open>sent r\<close> is the
  sequence of packets a register state has accepted.
\<close>

definition reg_contract :: "'r reg_ops \<Rightarrow> ('r \<Rightarrow> sim_packet list) \<Rightarrow> bool" where
  "reg_contract ops sent \<longleftrightarrow>
     (\<forall>r p. sent (fst (push ops r p)) = sent r @ (if snd (push ops r p) then [p] else []))"

lemma reg_contractD:
  "reg_contract ops sent \<Longrightarrow> push ops r p = (r', taken) \<Longrightarrow>
   sent r' = sent r @ (if taken then [p] else [])"
  unfolding reg_contract_def by (metis fst_conv snd_conv)

lemma send_or_queue_conserves:
  "reg_contract ops sent \<Longrightarrow> send_or_queue ops r q p = (r', q', b) \<Longrightarrow>
   mset (sent r' @ q') = mset (sent r @ q @ [p])"
  by (auto simp: send_or_queue_def dest: reg_contractD split: if_splits prod.splits)

lemma try_send_conserves:
  assumes "reg_contract ops sent" "try_send ops r q = (r', q')"
  shows "sent r' @ q' = sent r @ q"
proof (cases q)
  case Nil
  then show ?thesis using assms by (simp add: try_send_def)
next
  case (Cons p ps)
  then show ?thesis
    using assms reg_contractD [OF assms(1)]
    by (auto simp: try_send_def split: prod.splits if_splits)
qed

text \<open>A crossbar that is never stalled and takes every packet.\<close>

definition reg_ready :: "'r reg_ops \<Rightarrow> bool" where
  "reg_ready ops \<longleftrightarrow> (\<forall>r p. \<not> isStalled ops r \<and> snd (push ops r p))"

lemma ready_push:
  assumes "reg_ready ops" "reg_contract ops sent"
  obtains r' where "push ops r p = (r', True)" "sent r' = sent r @ [p]" "\<not> isStalled ops r"
proof -
  obtain r' b where push: "push ops r p = (r', b)" by fastforce
  have "\<not> isStalled ops r" "snd (push ops r p)" using assms(1) unfolding reg_ready_def by blast+
  with push reg_contractD [OF assms(2) push] show ?thesis by (intro that [of r']) simp_all
qed

text \<open>A one-place register, used where a concrete register is needed.\<close>

definition slot_ops :: "sim_packet list reg_ops" where
  "slot_ops = \<lparr>isStalled = (\<lambda>r. False), push = (\<lambda>r p. if r = [] then ([p], True) else (r, False))\<rparr>"

lemma slot_ops_contract: "reg_contract slot_ops (\<lambda>r. r)"
  by (simp add: reg_contract_def slot_ops_def)

text \<open>A register that takes every packet.\<close>

definition free_ops :: "sim_packet list reg_ops" where
  "free_ops = \<lparr>isStalled = (\<lambda>r. False), push = (\<lambda>r p. (r @ [p], True))\<rparr>"

lemma free_ops_simps [simp]: "isStalled free_ops r = False" "push free_ops r p = (r @ [p], True)"
  by (simp_all add: free_ops_def)

lemma free_ops_contract: "reg_contract free_ops (\<lambda>r. r)"
  by (simp add: reg_contract_def)

section \<open>Routing and burst facts\<close>

lemma getIndex_simps [simp]:
  "getIndex ''cpu'' = 0" "getIndex ''dm'' = 0" "getIndex ''dma'' = 1" "getIndex ''sa'' = 2"
  by (simp_all add: getIndex_def)

lemma burst_size_of_burst_mode: "n \<in> {1, 2, 4} \<Longrightarrow> burst_size_of (burst_mode n) = int n"
  by (auto simp: burst_size_of_def burst_mode_def)

lemma clog2_simps [simp]: "clog2 0 = 0" "clog2 (Suc 0) = 0" "clog2 2 = 1" "clog2 4 = 2"
  by (simp_all add: clog2.simps)

lemma resp_burst_size: "n \<in> {1, 2, 4} \<Longrightarrow> burst_size_of (resp_burst_mode n) = int n"
  by (auto simp: burst_size_of_def resp_burst_mode_def)

lemma clog2_bound: "0 < n \<Longrightarrow> n \<le> 2 ^ clog2 n"
proof (induction n rule: clog2.induct)
  case (1 n)
  show ?case
  proof (cases "n \<le> 1")
    case True
    then show ?thesis by (simp add: clog2.simps)
  next
    case False
    then have "(n + 1) div 2 \<le> 2 ^ clog2 ((n + 1) div 2)"
      using 1 by simp
    then show ?thesis using False by (subst clog2.simps) simp
  qed
qed

end
