(* ===== verification/BurstTracker.thy ===== *)
theory BurstTracker
  imports XBarPacket
begin

text \<open>
  Burst tracking. A request of several beats is served one beat at a time; the responses are
  collected per transaction identifier and leave as one packet when all have arrived. The
  data memory and the SRAM of the systolic array each do this for reads and for writes; the
  interface \<open>burst_collector\<close> states what one beat does and derives what a whole burst does.
\<close>

section \<open>Trackers\<close>

record burst_tracker =
  expected :: int
  rbeats :: "read_resp_payload list"
  wbeats :: "write_resp_payload list"

type_synonym pending_map = "int \<rightharpoonup> burst_tracker"

definition empty_tracker :: burst_tracker where
  "empty_tracker = \<lparr>expected = 0, rbeats = [], wbeats = []\<rparr>"

text \<open>\<open>pending_[tid]\<close> creates a zero-initialised tracker for a new key.\<close>

definition tracker_at :: "pending_map \<Rightarrow> int \<Rightarrow> burst_tracker" where
  "tracker_at p t = (case p t of None \<Rightarrow> empty_tracker | Some tk \<Rightarrow> tk)"

definition expect_beats :: "pending_map \<Rightarrow> int \<Rightarrow> int \<Rightarrow> pending_map" where
  "expect_beats p t n = p(t \<mapsto> (tracker_at p t)\<lparr>expected := n\<rparr>)"

lemma tracker_at_simps [simp]:
  "tracker_at (p(t \<mapsto> tk)) u = (if u = t then tk else tracker_at p u)"
  "tracker_at (p(t := None)) u = (if u = t then empty_tracker else tracker_at p u)"
  by (simp_all add: tracker_at_def)

lemma tracker_at_expect [simp]:
  "tracker_at (expect_beats p t n) u =
     (if u = t then (tracker_at p t)\<lparr>expected := n\<rparr> else tracker_at p u)"
  by (simp add: expect_beats_def)

definition getTID :: "'p xbar_packet \<Rightarrow> int result" where
  "getTID p = (case TransactionID p of None \<Rightarrow> Inl (Uninitialised ''TransactionID'') | Some t \<Rightarrow> Inr t)"

section \<open>The interface of a burst collector\<close>

text \<open>
  \<open>handle s q\<close> serves one beat. \<open>resp s q\<close> is the response it computes, \<open>beats s t\<close> and
  \<open>expect s t\<close> are the collected responses and the announced length of transaction \<open>t\<close>,
  \<open>out s\<close> the queue of finished packets, \<open>mk q rs\<close> the packet built from the responses \<open>rs\<close>
  when \<open>q\<close> is the last beat.
\<close>

locale burst_collector =
  fixes handle :: "'s \<Rightarrow> 'q \<Rightarrow> 's result"
    and tid :: "'q \<Rightarrow> int"
    and resp :: "'s \<Rightarrow> 'q \<Rightarrow> 'b"
    and beats :: "'s \<Rightarrow> int \<Rightarrow> 'b list"
    and expect :: "'s \<Rightarrow> int \<Rightarrow> int"
    and out :: "'s \<Rightarrow> sim_packet list"
    and mk :: "'q \<Rightarrow> 'b list \<Rightarrow> sim_packet"
  assumes more_beats:
      "handle s q = Inr s' \<Longrightarrow> 0 < expect s (tid q) \<Longrightarrow>
       int (length (beats s (tid q))) + 1 \<noteq> expect s (tid q) \<Longrightarrow>
       out s' = out s \<and> beats s' (tid q) = beats s (tid q) @ [resp s q]
       \<and> expect s' (tid q) = expect s (tid q)"
    and last_beat:
      "handle s q = Inr s' \<Longrightarrow> 0 < expect s (tid q) \<Longrightarrow>
       int (length (beats s (tid q))) + 1 = expect s (tid q) \<Longrightarrow>
       out s' = out s @ [mk q (beats s (tid q) @ [resp s q])] \<and> beats s' (tid q) = []"
begin

text \<open>Serving a list of beats, with the responses computed on the way.\<close>

fun serve :: "'s \<Rightarrow> 'q list \<Rightarrow> ('s \<times> 'b list) result" where
  "serve s [] = Inr (s, [])"
| "serve s (q # qs) =
     bindE (handle s q) (\<lambda>s'. bindE (serve s' qs) (\<lambda>(s'', rs). Inr (s'', resp s q # rs)))"

lemma serve_length: "serve s qs = Inr (s', rs) \<Longrightarrow> length rs = length qs"
  by (induction qs arbitrary: s rs) (auto simp: result_simps split: prod.splits)

lemma serve_burst_acc:
  assumes "serve s qs = Inr (s', rs)" "\<forall>q\<in>set qs. tid q = t" "qs \<noteq> []"
    and "expect s t = int (length (beats s t) + length qs)"
  shows "out s' = out s @ [mk (last qs) (beats s t @ rs)] \<and> beats s' t = []"
  using assms
proof (induction qs arbitrary: s rs)
  case Nil
  then show ?case by simp
next
  case (Cons q qs)
  then obtain s1 rs1 where h: "handle s q = Inr s1" and r: "serve s1 qs = Inr (s', rs1)"
    and rs: "rs = resp s q # rs1"
    by (auto simp: result_simps split: prod.splits)
  have q: "tid q = t" and ex: "expect s t = int (length (beats s t)) + 1 + int (length qs)"
    using Cons.prems by auto
  show ?case
  proof (cases "qs = []")
    case True
    then show ?thesis
      using last_beat [OF h] q ex r rs by simp
  next
    case False
    then have m: "out s1 = out s" "beats s1 t = beats s t @ [resp s q]" "expect s1 t = expect s t"
      using more_beats [OF h] q ex by auto
    have "out s' = out s1 @ [mk (last qs) (beats s1 t @ rs1)] \<and> beats s' t = []"
      using Cons.IH [OF r] Cons.prems(2) False m ex by simp
    then show ?thesis using m rs False by simp
  qed
qed

text \<open>A burst announced with its length gives one packet, with the responses in beat order.\<close>

lemma serve_burst:
  assumes "serve s qs = Inr (s', rs)" "\<forall>q\<in>set qs. tid q = t" "qs \<noteq> []"
    and "expect s t = int (length qs)" "beats s t = []"
  shows "out s' = out s @ [mk (last qs) rs]" "length rs = length qs" "beats s' t = []"
  using serve_burst_acc [OF assms(1-3)] serve_length [OF assms(1)] assms(4,5) by auto

end

end
