(* ===== verification/DataMemory.thy ===== *)
theory DataMemory
  imports BaseMemory BurstTracker
begin

text \<open>
  The data memory of the SoC (\<open>soc/include/DataMemory.hh\<close>, \<open>soc/libs/DataMemory.cc\<close>): it pops
  a request from its slave port, schedules one event per beat, serves each beat on the
  underlying \<open>BaseMemory\<close>, collects the responses of a burst and sends the assembled packet
  when the response register takes it. Events are kept as a list of pairs of a tick and the
  action; ACALSim executes them in the order of their ticks.
\<close>

section \<open>State\<close>

datatype dm_event =
    MemReadEvent read_req_payload
  | MemWriteEvent write_req_payload
  | TrySendEvent

record 'r data_memory =
  dm_base :: base_memory
  dm_pending :: pending_map
  dm_respQ :: "sim_packet list"
  dm_reg :: 'r
  dm_events :: "(nat \<times> dm_event) list"

definition dm_new :: "nat \<Rightarrow> 'r \<Rightarrow> 'r data_memory" where
  "dm_new n r = \<lparr>dm_base = mem_new n, dm_pending = Map.empty, dm_respQ = [], dm_reg = r, dm_events = []\<rparr>"

section \<open>Serving one beat\<close>

definition dm_read_value :: "base_memory \<Rightarrow> instr_type \<Rightarrow> u32 \<Rightarrow> u32 result" where
  "dm_read_value m oper addr = bindE (readData m addr (load_bytes oper)) (\<lambda>bs. Inr (load_ext oper bs))"

definition dm_collect_read ::
  "'r data_memory \<Rightarrow> read_req_payload \<Rightarrow> read_resp_payload \<Rightarrow> 'r data_memory" where
  "dm_collect_read s q resp =
     (let t = rr_tid resp;
          tk0 = tracker_at (dm_pending s) t;
          tk = tk0\<lparr>expected := max (expected tk0) 1, rbeats := rbeats tk0 @ [resp]\<rparr>
      in if int (length (rbeats tk)) = expected tk
         then s\<lparr>dm_pending := (dm_pending s)(t := None),
                dm_respQ := dm_respQ s @
                  [ReadResp (setTID (rq_tid q) (Construct_MemReadRespPkt (rbeats tk) ''dm'' (rq_caller q)))]\<rparr>
         else s\<lparr>dm_pending := (dm_pending s)(t \<mapsto> tk)\<rparr>)"

definition memReadReqHandler :: "'r data_memory \<Rightarrow> read_req_payload \<Rightarrow> 'r data_memory result" where
  "memReadReqHandler s q =
     bindE (dm_read_value (dm_base s) (rq_op q) (rq_addr q)) (\<lambda>ret.
       Inr (dm_collect_read s q
         \<lparr>rr_tid = rq_tid q, rr_instr = rq_instr q, rr_op = rq_op q, rr_data = ret, rr_a1 = rq_a1 q\<rparr>))"

text \<open>Only \<open>SB\<close>, \<open>SH\<close> and \<open>SW\<close> write; any other operation leaves the memory as it is.\<close>

definition dm_write_value :: "base_memory \<Rightarrow> instr_type \<Rightarrow> u32 \<Rightarrow> u32 \<Rightarrow> base_memory result" where
  "dm_write_value m oper addr data =
     (if oper \<in> {SB, SH, SW}
      then writeData m (Some (bytes_of (store_bytes oper) data)) addr (store_bytes oper)
      else Inr m)"

definition dm_collect_write ::
  "'r data_memory \<Rightarrow> write_req_payload \<Rightarrow> write_resp_payload \<Rightarrow> 'r data_memory" where
  "dm_collect_write s q resp =
     (let t = wq_tid q;
          tk0 = tracker_at (dm_pending s) t;
          tk = tk0\<lparr>expected := max (expected tk0) 1, wbeats := wbeats tk0 @ [resp]\<rparr>
      in if int (length (wbeats tk)) = expected tk
         then s\<lparr>dm_pending := (dm_pending s)(t := None),
                dm_respQ := dm_respQ s @
                  [WriteResp (setTID (wq_tid q) (Construct_MemWriteRespPkt (wbeats tk) ''dm'' (wq_caller q)))]\<rparr>
         else s\<lparr>dm_pending := (dm_pending s)(t \<mapsto> tk)\<rparr>)"

definition memWriteReqHandler :: "'r data_memory \<Rightarrow> write_req_payload \<Rightarrow> 'r data_memory result" where
  "memWriteReqHandler s q =
     bindE (dm_write_value (dm_base s) (wq_op q) (wq_addr q) (wq_data q)) (\<lambda>m.
       Inr (dm_collect_write (s\<lparr>dm_base := m\<rparr>) q \<lparr>wr_tid = wq_tid q, wr_instr = wq_instr q\<rparr>))"

section \<open>Sending responses and the step function\<close>

definition trySendResponse :: "'r reg_ops \<Rightarrow> 'r data_memory \<Rightarrow> 'r data_memory" where
  "trySendResponse ops s =
     (case try_send ops (dm_reg s) (dm_respQ s) of (r, q) \<Rightarrow> s\<lparr>dm_reg := r, dm_respQ := q\<rparr>)"

definition dm_schedule :: "(nat \<times> dm_event) list \<Rightarrow> 'r data_memory \<Rightarrow> 'r data_memory" where
  "dm_schedule evs s = s\<lparr>dm_events := dm_events s @ evs\<rparr>"

definition beat_events :: "nat \<Rightarrow> nat \<Rightarrow> ('p \<Rightarrow> dm_event) \<Rightarrow> 'p list \<Rightarrow> (nat \<times> dm_event) list" where
  "beat_events now lat f ps = map (\<lambda>i. (now + i + lat, f (ps ! i))) [0..<length ps]"

definition dm_accept_read ::
  "sim_config \<Rightarrow> nat \<Rightarrow> read_req_payload xbar_packet \<Rightarrow> 'r data_memory \<Rightarrow> 'r data_memory result" where
  "dm_accept_read cfg now pkt s =
     (let ps = payloadList pkt; lat = memory_read_latency cfg;
          go = assertE (int (length ps) = burstSize pkt) ''ReadReqPkt size''
            (bindE (getTID pkt) (\<lambda>t.
               Inr (dm_schedule (beat_events now lat MemReadEvent ps @ [(now + length ps + 1 + lat, TrySendEvent)])
                 (s\<lparr>dm_pending := expect_beats (dm_pending s) t (int (length ps))\<rparr>))))
      in if int (length ps) = burstSize pkt then go else log_error cfg ''Get size'' go)"

definition dm_accept_write ::
  "sim_config \<Rightarrow> nat \<Rightarrow> write_req_payload xbar_packet \<Rightarrow> 'r data_memory \<Rightarrow> 'r data_memory result" where
  "dm_accept_write cfg now pkt s =
     (let ps = payloadList pkt; lat = memory_read_latency cfg
      in assertE (int (length ps) = burstSize pkt) ''WriteReq size''
           (bindE (getTID pkt) (\<lambda>t.
              Inr (dm_schedule (beat_events now lat MemWriteEvent ps @ [(now + length ps + 1 + lat, TrySendEvent)])
                (s\<lparr>dm_pending := expect_beats (dm_pending s) t (int (length ps))\<rparr>)))))"

text \<open>
  \<open>step\<close>: \<open>popped\<close> is the packet the slave port delivers, if any. A packet that is no request
  only schedules a send at \<open>now + (-1) + 1 + latency\<close>.
\<close>

definition dm_step ::
  "'r reg_ops \<Rightarrow> sim_config \<Rightarrow> nat \<Rightarrow> sim_packet option \<Rightarrow> 'r data_memory \<Rightarrow> 'r data_memory result" where
  "dm_step ops cfg now popped s0 =
     (let s = (if dm_respQ s0 = [] then s0 else trySendResponse ops s0)
      in case popped of
           None \<Rightarrow> Inr s
         | Some (ReadReq pkt) \<Rightarrow> dm_accept_read cfg now pkt s
         | Some (WriteReq pkt) \<Rightarrow> dm_accept_write cfg now pkt s
         | Some _ \<Rightarrow> Inr (dm_schedule [(now + memory_read_latency cfg, TrySendEvent)] s))"

definition dm_masterPortRetry :: "'r reg_ops \<Rightarrow> 'r data_memory \<Rightarrow> 'r data_memory" where
  "dm_masterPortRetry ops s = trySendResponse ops s"

fun dm_exec_event :: "'r reg_ops \<Rightarrow> dm_event \<Rightarrow> 'r data_memory \<Rightarrow> 'r data_memory result" where
  "dm_exec_event ops (MemReadEvent q) s = memReadReqHandler s q"
| "dm_exec_event ops (MemWriteEvent q) s = memWriteReqHandler s q"
| "dm_exec_event ops TrySendEvent s = Inr (trySendResponse ops s)"

fun dm_exec_events :: "'r reg_ops \<Rightarrow> dm_event list \<Rightarrow> 'r data_memory \<Rightarrow> 'r data_memory result" where
  "dm_exec_events ops [] s = Inr s"
| "dm_exec_events ops (e # es) s = bindE (dm_exec_event ops e s) (dm_exec_events ops es)"

section \<open>The memory behind the handlers\<close>

lemma dm_read_value_eq: "dm_read_value = bm.load_at"
  by (simp add: fun_eq_iff dm_read_value_def bm.load_at_def)

lemma dm_write_value_eq: "st \<in> {SB, SH, SW} \<Longrightarrow> dm_write_value m st a v = bm.store_at m st a v"
  by (simp add: dm_write_value_def bm.store_at_def write_bytes_def)

lemma dm_reload:
  assumes "mem_ok m" "dm_write_value m st a v = Inr m'" "st \<in> {SB, SH, SW}"
    and "load_bytes ld = store_bytes st"
  shows "dm_read_value m' ld a = Inr (reload ld v)"
  using bm.load_store_reload [of m st a v m' ld] assms by (simp add: dm_read_value_eq dm_write_value_eq)

lemma dm_read_frame:
  assumes "mem_ok m" "dm_write_value m st a v = Inr m'" "mem_in_range m b (load_bytes ld)"
    and "unat b + load_bytes ld \<le> unat a \<or> unat a + store_bytes st \<le> unat b"
  shows "dm_read_value m' ld b = dm_read_value m ld b"
proof (cases "st \<in> {SB, SH, SW}")
  case True
  then show ?thesis
    using bm.load_store_disjoint [of m st a v m' b ld] assms
    by (simp add: dm_read_value_eq dm_write_value_eq)
next
  case False
  then show ?thesis using assms(2) by (simp add: dm_write_value_def)
qed

lemma dm_write_value_total:
  "mem_ok m \<Longrightarrow> mem_in_range m a (store_bytes st) \<Longrightarrow> \<exists>m'. dm_write_value m st a v = Inr m'"
proof (cases "st \<in> {SB, SH, SW}")
  case True
  then show "mem_ok m \<Longrightarrow> mem_in_range m a (store_bytes st) \<Longrightarrow> ?thesis"
    using bm.store_total [of m a st v] by (simp only: dm_write_value_eq)
next
  case False
  then show ?thesis by (simp add: dm_write_value_def)
qed

lemma dm_write_value_ok: "mem_ok m \<Longrightarrow> dm_write_value m st a v = Inr m' \<Longrightarrow> mem_ok m'"
  by (cases "st \<in> {SB, SH, SW}") (auto simp: dm_write_value_def dest: writeData_mem_ok)

lemma dm_write_value_msize: "dm_write_value m st a v = Inr m' \<Longrightarrow> msize m' = msize m"
  by (cases "st \<in> {SB, SH, SW}") (auto simp: dm_write_value_def dest: writeData_msize)

section \<open>Bursts\<close>

lemma beat_events_actions [simp]: "map snd (beat_events now lat f ps) = map f ps"
  by (rule nth_equalityI) (simp_all add: beat_events_def)

definition dm_read_resp :: "'r data_memory \<Rightarrow> read_req_payload \<Rightarrow> read_resp_payload" where
  "dm_read_resp s q =
     \<lparr>rr_tid = rq_tid q, rr_instr = rq_instr q, rr_op = rq_op q,
      rr_data = (case dm_read_value (dm_base s) (rq_op q) (rq_addr q) of Inl _ \<Rightarrow> 0 | Inr v \<Rightarrow> v),
      rr_a1 = rq_a1 q\<rparr>"

definition dm_read_packet :: "read_req_payload \<Rightarrow> read_resp_payload list \<Rightarrow> sim_packet" where
  "dm_read_packet q rs = ReadResp (setTID (rq_tid q) (Construct_MemReadRespPkt rs ''dm'' (rq_caller q)))"

definition dm_write_packet :: "write_req_payload \<Rightarrow> write_resp_payload list \<Rightarrow> sim_packet" where
  "dm_write_packet q rs = WriteResp (setTID (wq_tid q) (Construct_MemWriteRespPkt rs ''dm'' (wq_caller q)))"

abbreviation dm_rbeats :: "'r data_memory \<Rightarrow> int \<Rightarrow> read_resp_payload list" where
  "dm_rbeats s t \<equiv> rbeats (tracker_at (dm_pending s) t)"

abbreviation dm_wbeats :: "'r data_memory \<Rightarrow> int \<Rightarrow> write_resp_payload list" where
  "dm_wbeats s t \<equiv> wbeats (tracker_at (dm_pending s) t)"

abbreviation dm_expect :: "'r data_memory \<Rightarrow> int \<Rightarrow> int" where
  "dm_expect s t \<equiv> expected (tracker_at (dm_pending s) t)"

lemma memReadReqHandler_Inr:
  "memReadReqHandler s q = Inr s' \<Longrightarrow>
   dm_read_value (dm_base s) (rq_op q) (rq_addr q) = Inr (rr_data (dm_read_resp s q))
   \<and> s' = dm_collect_read s q (dm_read_resp s q)"
  by (auto simp: memReadReqHandler_def dm_read_resp_def result_simps)

interpretation dmr: burst_collector memReadReqHandler rq_tid dm_read_resp dm_rbeats dm_expect
  dm_respQ dm_read_packet
  by unfold_locales
    (auto dest!: memReadReqHandler_Inr simp: dm_collect_read_def Let_def dm_read_packet_def
      dm_read_resp_def empty_tracker_def)

interpretation dmw: burst_collector memWriteReqHandler wq_tid
  "\<lambda>s q. \<lparr>wr_tid = wq_tid q, wr_instr = wq_instr q\<rparr>" dm_wbeats dm_expect dm_respQ dm_write_packet
  by unfold_locales
    (auto simp: memWriteReqHandler_def dm_collect_write_def Let_def dm_write_packet_def
      empty_tracker_def result_simps)

lemma memReadReqHandler_frame:
  "memReadReqHandler s q = Inr s' \<Longrightarrow>
   dm_base s' = dm_base s \<and> dm_reg s' = dm_reg s \<and> dm_events s' = dm_events s"
  by (auto dest!: memReadReqHandler_Inr simp: dm_collect_read_def Let_def)

lemma dm_exec_reads: "dm_exec_events ops (map MemReadEvent qs) s = bindE (dmr.serve s qs) (\<lambda>(s', rs). Inr s')"
  by (induction qs arbitrary: s) (auto simp: bindE_assoc split_def intro!: bindE_cong)

lemma dm_exec_writes: "dm_exec_events ops (map MemWriteEvent qs) s = bindE (dmw.serve s qs) (\<lambda>(s', rs). Inr s')"
  by (induction qs arbitrary: s) (auto simp: bindE_assoc split_def intro!: bindE_cong)

lemma dm_serve_reads:
  assumes "mem_ok (dm_base s)" "\<forall>q\<in>set qs. mem_in_range (dm_base s) (rq_addr q) (load_bytes (rq_op q))"
  shows "\<exists>s' rs. dmr.serve s qs = Inr (s', rs) \<and> dm_base s' = dm_base s
    \<and> list_all2 (\<lambda>q r. dm_read_value (dm_base s) (rq_op q) (rq_addr q) = Inr (rr_data r)) qs rs"
  using assms
proof (induction qs arbitrary: s)
  case Nil
  then show ?case by simp
next
  case (Cons q qs)
  have "\<exists>v. dm_read_value (dm_base s) (rq_op q) (rq_addr q) = Inr v"
    using bm.load_total Cons.prems by (simp add: dm_read_value_eq)
  then obtain s1 where h: "memReadReqHandler s q = Inr s1"
    by (auto simp: memReadReqHandler_def)
  have b: "dm_base s1 = dm_base s" and v: "dm_read_value (dm_base s) (rq_op q) (rq_addr q) = Inr (rr_data (dm_read_resp s q))"
    using memReadReqHandler_frame [OF h] memReadReqHandler_Inr [OF h] by simp_all
  from Cons.IH [of s1] Cons.prems b
  obtain s' rs where "dmr.serve s1 qs = Inr (s', rs)" "dm_base s' = dm_base s"
    "list_all2 (\<lambda>q r. dm_read_value (dm_base s) (rq_op q) (rq_addr q) = Inr (rr_data r)) qs rs"
    by auto
  then show ?case using h v by auto
qed

text \<open>The memory after a list of stores.\<close>

fun dm_apply_writes :: "base_memory \<Rightarrow> write_req_payload list \<Rightarrow> base_memory result" where
  "dm_apply_writes m [] = Inr m"
| "dm_apply_writes m (q # qs) =
     bindE (dm_write_value m (wq_op q) (wq_addr q) (wq_data q)) (\<lambda>m'. dm_apply_writes m' qs)"

lemma memWriteReqHandler_base:
  "memWriteReqHandler s q = bindE (dm_write_value (dm_base s) (wq_op q) (wq_addr q) (wq_data q))
     (\<lambda>m. Inr (dm_collect_write (s\<lparr>dm_base := m\<rparr>) q \<lparr>wr_tid = wq_tid q, wr_instr = wq_instr q\<rparr>))"
  by (simp add: memWriteReqHandler_def)

lemma dm_collect_write_base [simp]: "dm_base (dm_collect_write s q r) = dm_base s"
  by (simp add: dm_collect_write_def Let_def)

lemma dm_serve_writes:
  assumes "mem_ok (dm_base s)" "\<forall>q\<in>set qs. mem_in_range (dm_base s) (wq_addr q) (store_bytes (wq_op q))"
  shows "\<exists>s' rs. dmw.serve s qs = Inr (s', rs) \<and> dm_apply_writes (dm_base s) qs = Inr (dm_base s')"
  using assms
proof (induction qs arbitrary: s)
  case Nil
  then show ?case by simp
next
  case (Cons q qs)
  obtain m where m: "dm_write_value (dm_base s) (wq_op q) (wq_addr q) (wq_data q) = Inr m"
    using dm_write_value_total Cons.prems by fastforce
  then obtain s1 where h: "memWriteReqHandler s q = Inr s1" and b: "dm_base s1 = m"
    by (auto simp: memWriteReqHandler_base)
  have "mem_ok m" "msize m = msize (dm_base s)"
    using m Cons.prems dm_write_value_ok dm_write_value_msize by auto
  with Cons.IH [of s1] Cons.prems b
  obtain s' rs where "dmw.serve s1 qs = Inr (s', rs)" "dm_apply_writes m qs = Inr (dm_base s')"
    by (auto simp: mem_in_range_def)
  then show ?case using h m by auto
qed

section \<open>Sample requests\<close>

definition ex_store :: "instr_type \<Rightarrow> u32 \<Rightarrow> u32 \<Rightarrow> write_req_payload" where
  "ex_store oper a v = \<lparr>wq_caller = ''dma'', wq_tid = 3, wq_instr = blank_instr, wq_op = oper, wq_addr = a, wq_data = v\<rparr>"

definition ex_read :: "instr_type \<Rightarrow> u32 \<Rightarrow> read_req_payload" where
  "ex_read oper a = \<lparr>rq_caller = ''dma'', rq_tid = 3, rq_instr = blank_instr, rq_op = oper, rq_addr = a, rq_a1 = blank_operand\<rparr>"

definition ex_dm :: "sim_packet list data_memory" where
  "ex_dm = dm_new 8 []"

definition ex_read_pkt :: "u32 list \<Rightarrow> read_req_payload xbar_packet" where
  "ex_read_pkt as = renew_packet (burst_mode (length as)) (map (ex_read LW) as) 1 0 (Some 3)"

definition ex_write_pkt :: "(u32 \<times> u32) list \<Rightarrow> write_req_payload xbar_packet" where
  "ex_write_pkt ws = renew_packet (burst_mode (length ws)) (map (\<lambda>(a, v). ex_store SW a v) ws) 1 0 (Some 3)"

lemma ex_read_pkt_simps:
  "payloadList (ex_read_pkt as) = map (ex_read LW) as" "TransactionID (ex_read_pkt as) = Some 3"
  "length as = 2 \<Longrightarrow> burstSize (ex_read_pkt as) = 2"
  by (simp_all add: ex_read_pkt_def renew_packet_def burst_size_of_burst_mode)

lemma ex_write_pkt_simps:
  "payloadList (ex_write_pkt ws) = map (\<lambda>(a, v). ex_store SW a v) ws" "TransactionID (ex_write_pkt ws) = Some 3"
  "length ws = 2 \<Longrightarrow> burstSize (ex_write_pkt ws) = 2"
  by (simp_all add: ex_write_pkt_def renew_packet_def burst_size_of_burst_mode)

section \<open>Properties\<close>

text \<open>
  C19: a store followed by a load of the same width at the same address returns the stored
  value, sign-extended for \<open>LB\<close> and \<open>LH\<close> and truncated for \<open>LBU\<close> and \<open>LHU\<close>, and every load
  of a region the store does not touch returns what it returned before.
\<close>

theorem dm_store_load:
  assumes "mem_ok (dm_base s)" "wq_op w \<in> {SB, SH, SW}" "memWriteReqHandler s w = Inr s'"
  shows "(load_bytes ld = store_bytes (wq_op w) \<longrightarrow>
            dm_read_value (dm_base s') ld (wq_addr w) = Inr (reload ld (wq_data w)))
    \<and> (mem_in_range (dm_base s) b (load_bytes ld) \<longrightarrow>
         unat b + load_bytes ld \<le> unat (wq_addr w)
           \<or> unat (wq_addr w) + store_bytes (wq_op w) \<le> unat b \<longrightarrow>
         dm_read_value (dm_base s') ld b = dm_read_value (dm_base s) ld b)"
proof -
  have "dm_write_value (dm_base s) (wq_op w) (wq_addr w) (wq_data w) = Inr (dm_base s')"
    using assms(3) by (auto simp: memWriteReqHandler_base result_simps)
  then show ?thesis
    using dm_reload [OF assms(1)] dm_read_frame [OF assms(1)] assms(2) by blast
qed


theorem dm_store_load_witness:
  "\<exists>s'. memWriteReqHandler ex_dm (ex_store SB 2 0x1FF) = Inr s'
     \<and> dm_read_value (dm_base s') LB 2 = Inr 0xFFFFFFFF
     \<and> dm_read_value (dm_base s') LW 4 = dm_read_value (mem_new 8) LW 4"
proof -
  let ?s = "ex_dm" and ?w = "ex_store SB 2 0x1FF"
  obtain s' where s': "memWriteReqHandler ?s ?w = Inr s'"
    using dm_write_value_total [of "mem_new 8" 2 SB "0x1FF"]
    by (auto simp: memWriteReqHandler_base ex_dm_def dm_new_def ex_store_def mem_in_range_def mem_new_def mem_ok_def)
  have "dm_read_value (dm_base s') LB 2 = Inr (reload LB 0x1FF)"
    using dm_store_load [OF _ _ s', of LB] by (simp add: ex_dm_def dm_new_def ex_store_def)
  moreover have "dm_read_value (dm_base s') LW 4 = dm_read_value (mem_new 8) LW 4"
    using dm_store_load [OF _ _ s', of LW 4]
    by (simp add: ex_dm_def dm_new_def ex_store_def mem_in_range_def mem_new_def mem_ok_def)
  ultimately show ?thesis using s' by simp
qed

text \<open>
  C13: a read burst. Accepting a read request of \<open>n\<close> beats schedules one event per beat at
  consecutive ticks and one send after them; running the beats puts exactly one response
  packet into the queue. It goes to the caller, carries the transaction identifier of the
  request and holds, in beat order, the values of the memory, which is unchanged.
\<close>

theorem dm_read_burst:
  assumes "mem_ok (dm_base s)" "payloadList pkt = ps" "ps \<noteq> []" "burstSize pkt = int (length ps)"
    and "TransactionID pkt = Some t" "\<forall>q\<in>set ps. rq_tid q = t \<and> rq_caller q = c"
    and "\<forall>q\<in>set ps. mem_in_range (dm_base s) (rq_addr q) (load_bytes (rq_op q))"
    and "dm_pending s t = None"
  shows "\<exists>s1 s2 rs. dm_accept_read cfg now pkt s = Inr s1
    \<and> dm_events s1 = dm_events s @ beat_events now (memory_read_latency cfg) MemReadEvent ps
        @ [(now + length ps + 1 + memory_read_latency cfg, TrySendEvent)]
    \<and> dm_exec_events ops (map snd (beat_events now (memory_read_latency cfg) MemReadEvent ps)) s1 = Inr s2
    \<and> dm_respQ s2 = dm_respQ s @ [ReadResp (setTID t (Construct_MemReadRespPkt rs ''dm'' c))]
    \<and> list_all2 (\<lambda>q r. dm_read_value (dm_base s) (rq_op q) (rq_addr q) = Inr (rr_data r)) ps rs
    \<and> dm_base s2 = dm_base s"
proof -
  let ?lat = "memory_read_latency cfg"
  let ?s1 = "dm_schedule (beat_events now ?lat MemReadEvent ps @ [(now + length ps + 1 + ?lat, TrySendEvent)])
    (s\<lparr>dm_pending := expect_beats (dm_pending s) t (int (length ps))\<rparr>)"
  have acc: "dm_accept_read cfg now pkt s = Inr ?s1"
    using assms(2,4,5) by (simp add: dm_accept_read_def getTID_def Let_def)
  obtain s2 rs where serve: "dmr.serve ?s1 ps = Inr (s2, rs)" and base: "dm_base s2 = dm_base s"
    and vals: "list_all2 (\<lambda>q r. dm_read_value (dm_base s) (rq_op q) (rq_addr q) = Inr (rr_data r)) ps rs"
    using dm_serve_reads [of ?s1 ps] assms(1,7) by (auto simp: dm_schedule_def)
  have "dm_respQ s2 = dm_respQ ?s1 @ [dm_read_packet (last ps) rs]"
    using dmr.serve_burst(1) [OF serve, of t] assms(3,6,8)
    by (simp add: dm_schedule_def tracker_at_def expect_beats_def empty_tracker_def)
  moreover have "last ps \<in> set ps" using assms(3) by simp
  ultimately have "dm_respQ s2 = dm_respQ s @ [ReadResp (setTID t (Construct_MemReadRespPkt rs ''dm'' c))]"
    using assms(6) by (simp add: dm_read_packet_def dm_schedule_def)
  then show ?thesis
    using acc serve base vals by (auto simp: dm_exec_reads dm_schedule_def)
qed


theorem dm_read_burst_witness:
  "\<exists>s1 s2 rs. dm_accept_read default_config 7 (ex_read_pkt [0, 4]) ex_dm = Inr s1
    \<and> dm_events s1 = dm_events ex_dm
        @ beat_events 7 (memory_read_latency default_config) MemReadEvent [ex_read LW 0, ex_read LW 4]
        @ [(7 + length [ex_read LW 0, ex_read LW 4] + 1 + memory_read_latency default_config, TrySendEvent)]
    \<and> dm_exec_events slot_ops (map snd (beat_events 7 (memory_read_latency default_config) MemReadEvent
        [ex_read LW 0, ex_read LW 4])) s1 = Inr s2
    \<and> dm_respQ s2 = dm_respQ ex_dm @ [ReadResp (setTID 3 (Construct_MemReadRespPkt rs ''dm'' ''dma''))]
    \<and> list_all2 (\<lambda>q r. dm_read_value (dm_base ex_dm) (rq_op q) (rq_addr q) = Inr (rr_data r))
        [ex_read LW 0, ex_read LW 4] rs
    \<and> dm_base s2 = dm_base ex_dm"
  by (rule dm_read_burst)
    (simp_all add: ex_read_pkt_simps ex_dm_def dm_new_def mem_in_range_def mem_new_def mem_ok_def ex_read_def)

text \<open>
  C14: a write burst. Running the beats of an accepted write request applies its stores in
  order and queues exactly one acknowledgement to the caller, with one beat per store.
\<close>

theorem dm_write_burst:
  assumes "mem_ok (dm_base s)" "payloadList pkt = ps" "ps \<noteq> []" "burstSize pkt = int (length ps)"
    and "TransactionID pkt = Some t" "\<forall>q\<in>set ps. wq_tid q = t \<and> wq_caller q = c"
    and "\<forall>q\<in>set ps. mem_in_range (dm_base s) (wq_addr q) (store_bytes (wq_op q))"
    and "dm_pending s t = None"
  shows "\<exists>s1 s2 rs. dm_accept_write cfg now pkt s = Inr s1
    \<and> dm_exec_events ops (map snd (beat_events now (memory_read_latency cfg) MemWriteEvent ps)) s1 = Inr s2
    \<and> dm_respQ s2 = dm_respQ s @ [WriteResp (setTID t (Construct_MemWriteRespPkt rs ''dm'' c))]
    \<and> length rs = length ps
    \<and> dm_apply_writes (dm_base s) ps = Inr (dm_base s2)"
proof -
  let ?lat = "memory_read_latency cfg"
  let ?s1 = "dm_schedule (beat_events now ?lat MemWriteEvent ps @ [(now + length ps + 1 + ?lat, TrySendEvent)])
    (s\<lparr>dm_pending := expect_beats (dm_pending s) t (int (length ps))\<rparr>)"
  have acc: "dm_accept_write cfg now pkt s = Inr ?s1"
    using assms(2,4,5) by (simp add: dm_accept_write_def getTID_def Let_def)
  obtain s2 rs where serve: "dmw.serve ?s1 ps = Inr (s2, rs)"
    and app: "dm_apply_writes (dm_base s) ps = Inr (dm_base s2)"
    using dm_serve_writes [of ?s1 ps] assms(1,7) by (auto simp: dm_schedule_def)
  have "dm_respQ s2 = dm_respQ ?s1 @ [dm_write_packet (last ps) rs]" "length rs = length ps"
    using dmw.serve_burst(1,2) [OF serve, of t] assms(3,6,8)
    by (simp_all add: dm_schedule_def tracker_at_def expect_beats_def empty_tracker_def)
  moreover have "last ps \<in> set ps" using assms(3) by simp
  ultimately have "dm_respQ s2 = dm_respQ s @ [WriteResp (setTID t (Construct_MemWriteRespPkt rs ''dm'' c))]"
    "length rs = length ps"
    using assms(6) by (simp_all add: dm_write_packet_def dm_schedule_def)
  then show ?thesis
    using acc serve app by (auto simp: dm_exec_writes dm_schedule_def)
qed


theorem dm_write_burst_witness:
  "\<exists>s1 s2 rs. dm_accept_write default_config 7 (ex_write_pkt [(0, 5), (4, 6)]) ex_dm = Inr s1
    \<and> dm_exec_events slot_ops (map snd (beat_events 7 (memory_read_latency default_config) MemWriteEvent
        [ex_store SW 0 5, ex_store SW 4 6])) s1 = Inr s2
    \<and> dm_respQ s2 = dm_respQ ex_dm @ [WriteResp (setTID 3 (Construct_MemWriteRespPkt rs ''dm'' ''dma''))]
    \<and> length rs = length [ex_store SW 0 5, ex_store SW 4 6]
    \<and> dm_apply_writes (dm_base ex_dm) [ex_store SW 0 5, ex_store SW 4 6] = Inr (dm_base s2)"
  by (rule dm_write_burst)
    (simp_all add: ex_write_pkt_simps ex_dm_def dm_new_def mem_in_range_def mem_new_def mem_ok_def ex_store_def)

text \<open>
  Responses leave in the order they were queued and none is lost or duplicated, whatever
  the register decides, as long as it accounts for the packets it takes.
\<close>

lemma dm_send_fifo:
  assumes "reg_contract ops sent"
  shows "sent (dm_reg (trySendResponse ops s)) @ dm_respQ (trySendResponse ops s)
    = sent (dm_reg s) @ dm_respQ s"
  using try_send_conserves [OF assms, of "dm_reg s" "dm_respQ s"]
  by (auto simp: trySendResponse_def split: prod.splits)


text \<open>
  C23: an access that leaves the memory stops the run with the assertion of \<open>BaseMemory\<close>, and
  no other load or store of the handlers fails.
\<close>

theorem dm_access_error_iff:
  "mem_ok (dm_base s) \<Longrightarrow>
     ((\<exists>e. memReadReqHandler s q = Inl e) \<longleftrightarrow> msize (dm_base s) < unat (rq_addr q) + load_bytes (rq_op q))
   \<and> (wq_op w \<in> {SB, SH, SW} \<longrightarrow>
       ((\<exists>e. memWriteReqHandler s w = Inl e) \<longleftrightarrow> msize (dm_base s) < unat (wq_addr w) + store_bytes (wq_op w)))"
  by (auto simp: memReadReqHandler_def memWriteReqHandler_def dm_read_value_def dm_write_value_def
      readData_def writeData_def getSize_def assertE_def result_simps)

theorem dm_access_error_iff_witness:
  "(\<exists>e. memReadReqHandler (ex_dm) (ex_read LW 6) = Inl e)
   \<and> \<not> (\<exists>e. memReadReqHandler (ex_dm) (ex_read LW 4) = Inl e)"
  using dm_access_error_iff [of "ex_dm" "ex_read LW 6"]
    dm_access_error_iff [of "ex_dm" "ex_read LW 4"]
  by (simp add: ex_dm_def dm_new_def mem_new_def mem_ok_def ex_read_def)

end
