(* ===== verification/CFU.thy ===== *)
theory CFU
  imports DataStruct
begin

text \<open>
  The custom function unit (\<open>soc/include/CFU.hh\<close>, \<open>soc/libs/CFU.cc\<close> and the packets of
  \<open>packet/CFUPacket.hh\<close>): a controller that latches the operation and the operands into two
  units, the two units, which compute packed 8- and 16-bit arithmetic, and the selection of
  the result. The sources loop over lanes with shifts and masks; the properties state the
  result lane by lane.
\<close>

section \<open>State\<close>

datatype Unit_Decision = AddSub | Mul | Unknown

record cfu_unit =
  u_instr_type :: instr_type
  u_rs1 :: u32
  u_rs2 :: u32
  u_result :: u32

record cfu =
  ctl_instr_type :: instr_type
  addSubUnit :: cfu_unit
  mulUnit :: cfu_unit

record cfu_req_packet =
  cq_instr :: instr
  cq_rs1 :: u32
  cq_rs2 :: u32

record cfu_resp_packet =
  cr_instr :: instr
  cr_rd :: u32

section \<open>Operations\<close>

definition latch :: "instr_type \<Rightarrow> u32 \<Rightarrow> u32 \<Rightarrow> cfu_unit \<Rightarrow> cfu_unit" where
  "latch ty a b u = u\<lparr>u_instr_type := ty, u_rs1 := a, u_rs2 := b\<rparr>"

definition send_information_to_unit :: "instr \<Rightarrow> u32 \<Rightarrow> u32 \<Rightarrow> cfu \<Rightarrow> cfu" where
  "send_information_to_unit i a b c =
     c\<lparr>addSubUnit := latch (i_op i) a b (addSubUnit c),
       mulUnit := latch (i_op i) a b (mulUnit c),
       ctl_instr_type := i_op i\<rparr>"

fun decision_of :: "instr_type \<Rightarrow> Unit_Decision" where
  "decision_of S_ADDI8I8S_VV = AddSub"
| "decision_of S_ADDI16I16S_VV = AddSub"
| "decision_of S_SUBI8I8S_VV = AddSub"
| "decision_of S_SUBI16I16S_VV = AddSub"
| "decision_of S_PMULI8I16S_VV_L = Mul"
| "decision_of S_PMULI8I16S_VV_H = Mul"
| "decision_of S_AMULI8I8S_VV_NQ = Mul"
| "decision_of S_AMULI8I8S_VV_L = Mul"
| "decision_of _ = Unknown"

definition outputSel :: "cfu \<Rightarrow> Unit_Decision" where
  "outputSel c = decision_of (ctl_instr_type c)"

text \<open>
  \<open>(rs >> (i * 8)) & 0xFF\<close> stored in an \<open>int8_t\<close>, and the same with 16 bits: the lane as a
  word, whose signed value is \<open>sint\<close>.
\<close>

definition byte_lane :: "u32 \<Rightarrow> nat \<Rightarrow> u8" where
  "byte_lane w i = ucast (drop_bit (i * 8) w AND 0xFF)"

definition half_lane :: "u32 \<Rightarrow> nat \<Rightarrow> u16" where
  "half_lane w i = ucast (drop_bit (i * 16) w AND 0xFFFF)"

text \<open>The loop \<open>result |= (res << (i * width))\<close> over the lanes \<open>0 .. n-1\<close>.\<close>

definition pack_lanes :: "nat \<Rightarrow> (nat \<Rightarrow> 'a::len word) \<Rightarrow> u32" where
  "pack_lanes n f = fold (\<lambda>i r. r OR push_bit (i * LENGTH('a)) (ucast (f i))) [0..<n] 0"

definition addsub_result :: "instr_type \<Rightarrow> u32 \<Rightarrow> u32 \<Rightarrow> u32" where
  "addsub_result ty a b = (case ty of
     S_ADDI8I8S_VV \<Rightarrow> pack_lanes 4 (\<lambda>i. word_of_int (sint (byte_lane a i) + sint (byte_lane b i)) :: u8)
   | S_ADDI16I16S_VV \<Rightarrow> pack_lanes 2 (\<lambda>i. word_of_int (sint (half_lane a i) + sint (half_lane b i)) :: u16)
   | S_SUBI8I8S_VV \<Rightarrow> pack_lanes 4 (\<lambda>i. word_of_int (sint (byte_lane a i) - sint (byte_lane b i)) :: u8)
   | S_SUBI16I16S_VV \<Rightarrow> pack_lanes 2 (\<lambda>i. word_of_int (sint (half_lane a i) - sint (half_lane b i)) :: u16)
   | _ \<Rightarrow> 0)"

definition AddSub_computation :: "cfu_unit \<Rightarrow> cfu_unit" where
  "AddSub_computation u = u\<lparr>u_result := addsub_result (u_instr_type u) (u_rs1 u) (u_rs2 u)\<rparr>"

text \<open>The \<open>int16_t\<close> product of two signed bytes.\<close>

definition mul16 :: "u32 \<Rightarrow> u32 \<Rightarrow> nat \<Rightarrow> u16" where
  "mul16 a b i = word_of_int (sint (byte_lane a i) * sint (byte_lane b i))"

definition mul_result :: "instr_type \<Rightarrow> u32 \<Rightarrow> u32 \<Rightarrow> u32" where
  "mul_result ty a b = (case ty of
     S_PMULI8I16S_VV_L \<Rightarrow> pack_lanes 2 (mul16 a b)
   | S_PMULI8I16S_VV_H \<Rightarrow> pack_lanes 2 (\<lambda>i. mul16 a b (i + 2))
   | S_AMULI8I8S_VV_NQ \<Rightarrow> pack_lanes 4 (\<lambda>i. ucast (signed_drop_bit 8 (mul16 a b i)) :: u8)
   | S_AMULI8I8S_VV_L \<Rightarrow> pack_lanes 4 (\<lambda>i. ucast (mul16 a b i) :: u8)
   | _ \<Rightarrow> 0)"

definition Mul_computation :: "cfu_unit \<Rightarrow> cfu_unit" where
  "Mul_computation u = u\<lparr>u_result := mul_result (u_instr_type u) (u_rs1 u) (u_rs2 u)\<rparr>"

definition get_result :: "sim_config \<Rightarrow> instr \<Rightarrow> u32 \<Rightarrow> u32 \<Rightarrow> cfu \<Rightarrow> (u32 \<times> cfu) result" where
  "get_result cfg i a b c =
     (let c1 = send_information_to_unit i a b c;
          c2 = c1\<lparr>mulUnit := Mul_computation (mulUnit c1)\<rparr>;
          c3 = c2\<lparr>addSubUnit := AddSub_computation (addSubUnit c2)\<rparr>
      in case outputSel c3 of
           AddSub \<Rightarrow> Inr (u_result (addSubUnit c3), c3)
         | Mul \<Rightarrow> Inr (u_result (mulUnit c3), c3)
         | Unknown \<Rightarrow> log_error cfg ''(CFU) No such decision'' (Inr (0, c3)))"

text \<open>The response the unit pushes on its channel to the CPU.\<close>

definition packet_handler :: "sim_config \<Rightarrow> cfu_req_packet \<Rightarrow> cfu \<Rightarrow> (cfu_resp_packet \<times> cfu) result" where
  "packet_handler cfg pkt c =
     bindE (get_result cfg (cq_instr pkt) (cq_rs1 pkt) (cq_rs2 pkt) c) (\<lambda>(result, c').
       Inr (\<lparr>cr_instr = cq_instr pkt, cr_rd = result\<rparr>, c'))"

section \<open>Lanes\<close>

definition lane :: "u32 \<Rightarrow> nat \<Rightarrow> 'a::len word" where
  "lane w i = ucast (drop_bit (i * LENGTH('a)) w)"

lemma byte_lane_eq: "byte_lane = lane"
  by (intro ext bit_word_eqI) (simp add: byte_lane_def lane_def and_mask_simps bit_simps)

lemma half_lane_eq: "half_lane = lane"
  by (intro ext bit_word_eqI) (simp add: half_lane_def lane_def and_mask_simps bit_simps)

lemma bit_pack_lanes:
  fixes f :: "nat \<Rightarrow> 'a::len word"
  shows "bit (pack_lanes n f) k \<longleftrightarrow>
    k < 32 \<and> k div LENGTH('a) < n \<and> bit (f (k div LENGTH('a))) (k mod LENGTH('a))"
proof (induction n)
  case 0
  then show ?case by (simp add: pack_lanes_def)
next
  case (Suc n)
  let ?L = "LENGTH('a)"
  have "bit (pack_lanes (Suc n) f) k \<longleftrightarrow>
      bit (pack_lanes n f) k \<or> n * ?L \<le> k \<and> k < 32 \<and> bit (f n) (k - n * ?L)"
    by (auto simp: pack_lanes_def bit_simps)
  moreover have "n * ?L \<le> k \<and> bit (f n) (k - n * ?L) \<longleftrightarrow> k div ?L = n \<and> bit (f n) (k mod ?L)"
  proof (cases "n * ?L \<le> k \<and> k < n * ?L + ?L")
    case True
    then have "k div ?L = n" by (auto intro: div_nat_eqI simp: mult.commute)
    moreover from this have "k mod ?L = k - n * ?L"
      by (simp add: minus_div_mult_eq_mod [symmetric])
    ultimately show ?thesis using True by simp
  next
    case False
    moreover have "k div ?L * ?L \<le> k \<and> k < k div ?L * ?L + ?L"
      using div_mult_mod_eq [of k ?L] mod_less_divisor [OF len_gt_0 [where 'a = 'a], of k]
      by (intro conjI; linarith)
    ultimately have "k div ?L \<noteq> n" by auto
    moreover have "\<not> (n * ?L \<le> k \<and> bit (f n) (k - n * ?L))"
      using False by (auto dest: bit_imp_le_length)
    ultimately show ?thesis by simp
  qed
  ultimately show ?case using Suc by (auto simp: less_Suc_eq)
qed

lemma lane_pack_lanes [simp]:
  fixes f :: "nat \<Rightarrow> 'a::len word"
  assumes "i < n" "n * LENGTH('a) \<le> 32"
  shows "lane (pack_lanes n f) i = f i"
proof (rule bit_word_eqI)
  fix k
  assume k: "k < LENGTH('a)"
  have "Suc i * LENGTH('a) \<le> n * LENGTH('a)"
    using assms(1) by (intro mult_right_mono) simp_all
  then have "i * LENGTH('a) + k < 32"
    using k assms(2) by simp
  then show "bit (lane (pack_lanes n f) i :: 'a word) k = bit (f i) k"
    using k assms(1) by (simp add: lane_def bit_simps bit_pack_lanes add.commute)
qed

lemma sint_mul16: "sint (mul16 a b i) = sint (byte_lane a i) * sint (byte_lane b i)"
proof -
  let ?x = "sint (byte_lane a i)" and ?y = "sint (byte_lane b i)"
  have "- 128 \<le> ?x" "?x < 128" "- 128 \<le> ?y" "?y < 128"
    using sint_range_size [of "byte_lane a i"] sint_range_size [of "byte_lane b i"]
    by (simp_all add: word_size)
  then have "\<bar>?x\<bar> * \<bar>?y\<bar> \<le> 128 * 128"
    by (intro mult_mono) auto
  then have "- (2 ^ 15) \<le> ?x * ?y" "?x * ?y < 2 ^ 15"
    by (auto simp flip: abs_mult)
  then show ?thesis
    unfolding mul16_def by (intro sint_word_of_int_id) simp_all
qed

lemma sint_high_byte: "sint (ucast (signed_drop_bit 8 w) :: u8) = sint (w :: u16) div 256"
proof -
  have "- (2 ^ 15) \<le> sint w" "sint w < 2 ^ 15"
    using sint_range_size [of w] by (simp_all add: word_size)
  then have r: "- (2 ^ 7) \<le> sint w div 256" "sint w div 256 < 2 ^ 7"
    by simp_all
  have "ucast (signed_drop_bit 8 w) = (word_of_int (sint w div 256) :: u8)"
    by (rule bit_word_eqI) (simp add: bit_simps drop_bit_eq_div [of 8, simplified, symmetric] bit_sint_iff)
  then show ?thesis
    using r by (simp add: sint_word_of_int_id)
qed

lemma low_byte_mul16: "ucast (mul16 a b i) = byte_lane a i * byte_lane b i"
proof -
  have "ucast (word_of_int z :: u16) = (word_of_int z :: u8)" for z
    by (rule bit_word_eqI) (simp add: bit_simps)
  then show ?thesis
    unfolding mul16_def by (simp del: of_int_mult) simp
qed

lemma get_result_simd:
  "decision_of (i_op i) = AddSub \<Longrightarrow> \<exists>c'. get_result cfg i a b c = Inr (addsub_result (i_op i) a b, c')"
  "decision_of (i_op i) = Mul \<Longrightarrow> \<exists>c'. get_result cfg i a b c = Inr (mul_result (i_op i) a b, c')"
  by (simp_all add: get_result_def Let_def outputSel_def send_information_to_unit_def latch_def
      AddSub_computation_def Mul_computation_def)

section \<open>The operations as a reference\<close>

text \<open>
  The extension as an instruction set would state it: the bytes or half-words of the operands
  combined one by one, with signed products taken at full width.
\<close>

definition join16 :: "u16 \<Rightarrow> u16 \<Rightarrow> u32" where
  "join16 lo hi = ucast lo OR push_bit 16 (ucast hi)"

definition simd_bytes :: "(u8 \<Rightarrow> u8 \<Rightarrow> u8) \<Rightarrow> u32 \<Rightarrow> u32 \<Rightarrow> u32" where
  "simd_bytes f a b = word_of_bytes (map (\<lambda>l. f (lane a l) (lane b l)) [0..<4])"

definition simd_halves :: "(u16 \<Rightarrow> u16 \<Rightarrow> u16) \<Rightarrow> u32 \<Rightarrow> u32 \<Rightarrow> u32" where
  "simd_halves f a b = join16 (f (lane a 0) (lane b 0)) (f (lane a 1) (lane b 1))"

definition widening_mul :: "u8 \<Rightarrow> u8 \<Rightarrow> u16" where
  "widening_mul x y = word_of_int (sint x * sint y)"

definition simd_alu :: "instr_type \<Rightarrow> u32 \<Rightarrow> u32 \<Rightarrow> u32" where
  "simd_alu ty a b =
     (if ty = S_ADDI8I8S_VV then simd_bytes (+) a b
      else if ty = S_SUBI8I8S_VV then simd_bytes (-) a b
      else if ty = S_ADDI16I16S_VV then simd_halves (+) a b
      else if ty = S_SUBI16I16S_VV then simd_halves (-) a b
      else if ty = S_PMULI8I16S_VV_L then join16 (widening_mul (lane a 0) (lane b 0)) (widening_mul (lane a 1) (lane b 1))
      else if ty = S_PMULI8I16S_VV_H then join16 (widening_mul (lane a 2) (lane b 2)) (widening_mul (lane a 3) (lane b 3))
      else if ty = S_AMULI8I8S_VV_NQ then simd_bytes (\<lambda>x y. word_of_int (sint x * sint y div 256)) a b
      else simd_bytes (*) a b)"

lemma pack_bytes: "pack_lanes 4 f = word_of_bytes (map f [0..<4])"
  by (rule bit_word_eqI) (simp add: bit_pack_lanes bit_word_of_bytes)

lemma pack_halves: "pack_lanes 2 f = join16 (f 0) (f 1)"
proof (rule bit_word_eqI)
  fix k :: nat
  assume "k < LENGTH(32)"
  moreover have "k div 16 = 0 \<and> k mod 16 = k \<or> k div 16 = 1 \<and> k mod 16 = k - 16" if "k < 32"
    using that by (cases "k < 16") (auto simp: mod_if div_if)
  ultimately show "bit (pack_lanes 2 f) k = bit (join16 (f 0) (f 1)) k"
    by (auto simp: bit_pack_lanes join16_def bit_simps dest: bit_imp_le_length)
qed

lemma mul16_lanes:
  "mul16 a b i = widening_mul (lane a i) (lane b i)"
  "ucast (mul16 a b i) = (lane a i * lane b i :: u8)"
  "ucast (signed_drop_bit 8 (mul16 a b i)) = (word_of_int (sint (lane a i :: u8) * sint (lane b i :: u8) div 256) :: u8)"
proof -
  show "mul16 a b i = widening_mul (lane a i) (lane b i)" by (simp add: mul16_def widening_mul_def byte_lane_eq)
  show "ucast (mul16 a b i) = (lane a i * lane b i :: u8)" by (simp add: low_byte_mul16 byte_lane_eq)
  have "(word_of_int (sint (ucast (signed_drop_bit 8 (mul16 a b i)) :: u8)) :: u8) = ucast (signed_drop_bit 8 (mul16 a b i))" by simp
  then show "ucast (signed_drop_bit 8 (mul16 a b i)) = (word_of_int (sint (lane a i :: u8) * sint (lane b i :: u8) div 256) :: u8)"
    unfolding sint_high_byte sint_mul16 byte_lane_eq by (rule sym)
qed

lemma simd_alu_units:
  "decision_of ty = AddSub \<Longrightarrow> addsub_result ty a b = simd_alu ty a b"
  "decision_of ty = Mul \<Longrightarrow> mul_result ty a b = simd_alu ty a b"
proof -
  note pack = simd_alu_def simd_bytes_def simd_halves_def pack_bytes pack_halves
  show "decision_of ty = AddSub \<Longrightarrow> addsub_result ty a b = simd_alu ty a b"
    by (cases ty) (simp_all add: addsub_result_def byte_lane_eq half_lane_eq pack)
  have "mul_result S_PMULI8I16S_VV_L a b = simd_alu S_PMULI8I16S_VV_L a b"
    "mul_result S_PMULI8I16S_VV_H a b = simd_alu S_PMULI8I16S_VV_H a b"
    by (simp_all add: mul_result_def pack) (simp_all add: mul16_lanes(1) numeral_2_eq_2 numeral_3_eq_3)
  moreover have "mul_result S_AMULI8I8S_VV_NQ a b = simd_alu S_AMULI8I8S_VV_NQ a b"
    "mul_result S_AMULI8I8S_VV_L a b = simd_alu S_AMULI8I8S_VV_L a b"
    by (simp_all add: mul_result_def pack mul16_lanes(2,3))
  ultimately show "decision_of ty = Mul \<Longrightarrow> mul_result ty a b = simd_alu ty a b" by (cases ty) simp_all
qed

lemma get_result_simd_alu:
  assumes "decision_of (i_op i) \<noteq> Unknown"
  shows "\<exists>c'. get_result cfg i a b c = Inr (simd_alu (i_op i) a b, c')"
  using assms get_result_simd [of i cfg a b c] simd_alu_units [of "i_op i" a b] by (cases "decision_of (i_op i)") auto

section \<open>Properties\<close>

definition ex_cfu :: cfu where
  "ex_cfu = \<lparr>ctl_instr_type = UNIMPL, addSubUnit = \<lparr>u_instr_type = ADD, u_rs1 = 0, u_rs2 = 0, u_result = 0\<rparr>,
     mulUnit = \<lparr>u_instr_type = ADD, u_rs1 = 0, u_rs2 = 0, u_result = 0\<rparr>\<rparr>"

text \<open>
  C21: the add/sub instructions work lane by lane: every byte (half-word) of the result is the
  sum or difference of the corresponding bytes (half-words) of the operands, with wrap-around
  inside the lane and no carry between lanes, whatever the units computed before.
\<close>

theorem cfu_addsub_lanes:
  "(\<exists>r c'. get_result cfg (i\<lparr>i_op := S_ADDI8I8S_VV\<rparr>) a b c = Inr (r, c')
      \<and> (\<forall>l<4. lane r l = (lane a l + lane b l :: u8)))
   \<and> (\<exists>r c'. get_result cfg (i\<lparr>i_op := S_SUBI8I8S_VV\<rparr>) a b c = Inr (r, c')
      \<and> (\<forall>l<4. lane r l = (lane a l - lane b l :: u8)))
   \<and> (\<exists>r c'. get_result cfg (i\<lparr>i_op := S_ADDI16I16S_VV\<rparr>) a b c = Inr (r, c')
      \<and> (\<forall>l<2. lane r l = (lane a l + lane b l :: u16)))
   \<and> (\<exists>r c'. get_result cfg (i\<lparr>i_op := S_SUBI16I16S_VV\<rparr>) a b c = Inr (r, c')
      \<and> (\<forall>l<2. lane r l = (lane a l - lane b l :: u16)))"
proof (intro conjI)
  note simd = get_result_simd(1) [of "i\<lparr>i_op := ty\<rparr>" cfg a b c for ty]
  show "\<exists>r c'. get_result cfg (i\<lparr>i_op := S_ADDI8I8S_VV\<rparr>) a b c = Inr (r, c')
      \<and> (\<forall>l<4. lane r l = (lane a l + lane b l :: u8))"
    using simd [of S_ADDI8I8S_VV] by (auto simp: addsub_result_def byte_lane_eq)
  show "\<exists>r c'. get_result cfg (i\<lparr>i_op := S_SUBI8I8S_VV\<rparr>) a b c = Inr (r, c')
      \<and> (\<forall>l<4. lane r l = (lane a l - lane b l :: u8))"
    using simd [of S_SUBI8I8S_VV] by (auto simp: addsub_result_def byte_lane_eq)
  show "\<exists>r c'. get_result cfg (i\<lparr>i_op := S_ADDI16I16S_VV\<rparr>) a b c = Inr (r, c')
      \<and> (\<forall>l<2. lane r l = (lane a l + lane b l :: u16))"
    using simd [of S_ADDI16I16S_VV] by (auto simp: addsub_result_def half_lane_eq)
  show "\<exists>r c'. get_result cfg (i\<lparr>i_op := S_SUBI16I16S_VV\<rparr>) a b c = Inr (r, c')
      \<and> (\<forall>l<2. lane r l = (lane a l - lane b l :: u16))"
    using simd [of S_SUBI16I16S_VV] by (auto simp: addsub_result_def half_lane_eq)
qed

theorem cfu_addsub_lanes_witness:
  "\<exists>r c'. get_result default_config (blank_instr\<lparr>i_op := S_ADDI8I8S_VV\<rparr>) 0x01FF0203 0x01010101 ex_cfu = Inr (r, c')
     \<and> lane r 2 = (lane (0x01FF0203 :: u32) 2 + lane (0x01010101 :: u32) 2 :: u8)"
proof -
  have "(2 :: nat) < 4" by simp
  then show ?thesis
    using cfu_addsub_lanes [of default_config blank_instr "0x01FF0203" "0x01010101" ex_cfu] by blast
qed

text \<open>
  C22: the multiplications: \<open>PMUL.L\<close> and \<open>PMUL.H\<close> return the exact signed 16-bit products of
  the lower and the upper byte pairs, \<open>AMUL.NQ\<close> the signed product of each byte pair divided
  by 256 (rounding down) and \<open>AMUL.L\<close> the product modulo 256.
\<close>

theorem cfu_mul_lanes:
  "(\<exists>r c'. get_result cfg (i\<lparr>i_op := S_PMULI8I16S_VV_L\<rparr>) a b c = Inr (r, c')
      \<and> (\<forall>l<2. sint (lane r l :: u16) = sint (lane a l :: u8) * sint (lane b l :: u8)))
   \<and> (\<exists>r c'. get_result cfg (i\<lparr>i_op := S_PMULI8I16S_VV_H\<rparr>) a b c = Inr (r, c')
      \<and> (\<forall>l<2. sint (lane r l :: u16) = sint (lane a (l + 2) :: u8) * sint (lane b (l + 2) :: u8)))
   \<and> (\<exists>r c'. get_result cfg (i\<lparr>i_op := S_AMULI8I8S_VV_NQ\<rparr>) a b c = Inr (r, c')
      \<and> (\<forall>l<4. sint (lane r l :: u8) = sint (lane a l :: u8) * sint (lane b l :: u8) div 256))
   \<and> (\<exists>r c'. get_result cfg (i\<lparr>i_op := S_AMULI8I8S_VV_L\<rparr>) a b c = Inr (r, c')
      \<and> (\<forall>l<4. lane r l = (lane a l * lane b l :: u8)))"
proof (intro conjI)
  note simd = get_result_simd(2) [of "i\<lparr>i_op := ty\<rparr>" cfg a b c for ty]
  show "\<exists>r c'. get_result cfg (i\<lparr>i_op := S_PMULI8I16S_VV_L\<rparr>) a b c = Inr (r, c')
      \<and> (\<forall>l<2. sint (lane r l :: u16) = sint (lane a l :: u8) * sint (lane b l :: u8))"
    using simd [of S_PMULI8I16S_VV_L] by (auto simp: mul_result_def sint_mul16 byte_lane_eq)
  show "\<exists>r c'. get_result cfg (i\<lparr>i_op := S_PMULI8I16S_VV_H\<rparr>) a b c = Inr (r, c')
      \<and> (\<forall>l<2. sint (lane r l :: u16) = sint (lane a (l + 2) :: u8) * sint (lane b (l + 2) :: u8))"
    using simd [of S_PMULI8I16S_VV_H] by (auto simp: mul_result_def sint_mul16 byte_lane_eq)
  show "\<exists>r c'. get_result cfg (i\<lparr>i_op := S_AMULI8I8S_VV_NQ\<rparr>) a b c = Inr (r, c')
      \<and> (\<forall>l<4. sint (lane r l :: u8) = sint (lane a l :: u8) * sint (lane b l :: u8) div 256)"
    using simd [of S_AMULI8I8S_VV_NQ] by (auto simp: mul_result_def sint_high_byte sint_mul16 byte_lane_eq)
  show "\<exists>r c'. get_result cfg (i\<lparr>i_op := S_AMULI8I8S_VV_L\<rparr>) a b c = Inr (r, c')
      \<and> (\<forall>l<4. lane r l = (lane a l * lane b l :: u8))"
    using simd [of S_AMULI8I8S_VV_L] by (auto simp: mul_result_def low_byte_mul16 byte_lane_eq)
qed

theorem cfu_mul_lanes_witness:
  "\<exists>r c'. get_result default_config (blank_instr\<lparr>i_op := S_PMULI8I16S_VV_L\<rparr>) 0x01FF 0x0302 ex_cfu = Inr (r, c')
     \<and> sint (lane r 1 :: u16) = sint (lane (0x01FF :: u32) 1 :: u8) * sint (lane (0x0302 :: u32) 1 :: u8)"
proof -
  have "(1 :: nat) < 2" by simp
  then show ?thesis
    using cfu_mul_lanes [of default_config blank_instr "0x01FF" "0x0302" ex_cfu] by blast
qed

text \<open>
  An operation the unit does not implement is reported; if the report does not stop the
  run the response carries 0.
\<close>

lemma cfu_unknown_operation:
  assumes "decision_of (i_op (cq_instr pkt)) = Unknown"
  shows "if error_aborts cfg
    then packet_handler cfg pkt c = Inl (LoggedError ''(CFU) No such decision'')
    else \<exists>c'. packet_handler cfg pkt c = Inr (\<lparr>cr_instr = cq_instr pkt, cr_rd = 0\<rparr>, c')"
  using assms by (simp add: packet_handler_def get_result_def Let_def outputSel_def
      send_information_to_unit_def log_error_def)

end
