(* ===== verification/CPU.thy ===== *)
theory CPU
  imports DataMemory CFU
begin

text \<open>
  The single-cycle CPU of the SoC (\<open>soc/include/CPU.hh\<close>, \<open>soc/libs/CPU.cc\<close>). One event
  fetches and executes one instruction; loads, stores and CFU operations leave as packets and
  are committed by their responses. The register file is a list of 32 words; an operand
  outside it is an access out of bounds. The transaction counter of the packets is an extra
  argument and result; \<open>cpu_events\<close> lists the ticks of the scheduled \<open>ExecOneInstrEvent\<close>s and
  \<open>cpu_cfu_chan\<close> the requests pushed to the CFU.
\<close>

section \<open>State\<close>

record 'r cpu =
  cpu_imem :: "instr list"
  cpu_rf :: "u32 list"
  cpu_pc :: u32
  cpu_inst_cnt :: int
  cpu_request_queue :: "sim_packet list"
  cpu_reg :: 'r
  cpu_events :: "nat list"
  cpu_cfu_chan :: "cfu_req_packet list"

definition cpu_init :: "sim_config \<Rightarrow> nat \<Rightarrow> 'r \<Rightarrow> 'r cpu" where
  "cpu_init cfg now r =
     \<lparr>cpu_imem = replicate (data_offset cfg div 4) blank_instr, cpu_rf = replicate 32 0, cpu_pc = 0,
      cpu_inst_cnt = 0, cpu_request_queue = [], cpu_reg = r, cpu_events = [now + 1], cpu_cfu_chan = []\<rparr>"

definition cpu_ok :: "'r cpu \<Rightarrow> bool" where
  "cpu_ok s \<longleftrightarrow> length (cpu_rf s) = 32"

section \<open>The functional part of one instruction\<close>

definition fetchInstr :: "'r cpu \<Rightarrow> u32 \<Rightarrow> instr result" where
  "fetchInstr s pc = array_get ''imem'' (cpu_imem s) (int (unat pc div 4))"

text \<open>Shifts by 32 or more are undefined in C++.\<close>

definition shl32 :: "u32 \<Rightarrow> u32 \<Rightarrow> u32 result" where
  "shl32 x n = (if unat n < 32 then Inr (push_bit (unat n) x) else Inl UndefinedShift)"

definition shr32 :: "u32 \<Rightarrow> u32 \<Rightarrow> u32 result" where
  "shr32 x n = (if unat n < 32 then Inr (drop_bit (unat n) x) else Inl UndefinedShift)"

definition sar32 :: "u32 \<Rightarrow> u32 \<Rightarrow> u32 result" where
  "sar32 x n = (if unat n < 32 then Inr (signed_drop_bit (unat n) x) else Inl UndefinedShift)"

definition rf_get :: "u32 list \<Rightarrow> operand \<Rightarrow> u32 result" where
  "rf_get rf a = array_get ''rf'' rf (o_reg a)"

definition rf_set :: "u32 list \<Rightarrow> operand \<Rightarrow> u32 \<Rightarrow> u32 list result" where
  "rf_set rf a v = array_set ''rf'' rf (o_reg a) v"

text \<open>The three shapes of the switch: \<open>rd = f(rs1, rs2)\<close>, \<open>rd = f(rs1, imm)\<close>, a branch.\<close>

definition exec_rr :: "u32 list \<Rightarrow> u32 \<Rightarrow> instr \<Rightarrow> (u32 \<Rightarrow> u32 \<Rightarrow> u32 result) \<Rightarrow> (u32 list \<times> u32) result" where
  "exec_rr rf pc i f =
     bindE (rf_get rf (i_a2 i)) (\<lambda>x. bindE (rf_get rf (i_a3 i)) (\<lambda>y. bindE (f x y) (\<lambda>v.
       bindE (rf_set rf (i_a1 i) v) (\<lambda>rf'. Inr (rf', pc + 4)))))"

definition exec_ri :: "u32 list \<Rightarrow> u32 \<Rightarrow> instr \<Rightarrow> (u32 \<Rightarrow> u32 \<Rightarrow> u32 result) \<Rightarrow> (u32 list \<times> u32) result" where
  "exec_ri rf pc i f =
     bindE (rf_get rf (i_a2 i)) (\<lambda>x. bindE (f x (o_imm (i_a3 i))) (\<lambda>v.
       bindE (rf_set rf (i_a1 i) v) (\<lambda>rf'. Inr (rf', pc + 4))))"

definition exec_br :: "u32 list \<Rightarrow> u32 \<Rightarrow> instr \<Rightarrow> (u32 \<Rightarrow> u32 \<Rightarrow> bool) \<Rightarrow> (u32 list \<times> u32) result" where
  "exec_br rf pc i taken =
     bindE (rf_get rf (i_a1 i)) (\<lambda>x. bindE (rf_get rf (i_a2 i)) (\<lambda>y.
       Inr (rf, if taken x y then o_imm (i_a3 i) else pc + 4)))"

text \<open>
  The switch of \<open>processInstr\<close> for the operations that complete at once: the new register file
  and \<open>pc_next\<close>. The remaining operations (\<open>HCF\<close>, \<open>UNIMPL\<close>, \<open>NOP\<close>) only advance the counter;
  loads, stores and the SIMD operations are treated in \<open>processInstr\<close>.
\<close>

definition exec_switch :: "u32 list \<Rightarrow> u32 \<Rightarrow> instr \<Rightarrow> (u32 list \<times> u32) result" where
  "exec_switch rf pc i = (case i_op i of
     ADD \<Rightarrow> exec_rr rf pc i (\<lambda>x y. Inr (x + y))
   | SUB \<Rightarrow> exec_rr rf pc i (\<lambda>x y. Inr (x - y))
   | MUL \<Rightarrow> exec_rr rf pc i (\<lambda>x y. Inr (x * y))
   | SLT \<Rightarrow> exec_rr rf pc i (\<lambda>x y. Inr (if sint x < sint y then 1 else 0))
   | SLTU \<Rightarrow> exec_rr rf pc i (\<lambda>x y. Inr (x + y))
   | AND' \<Rightarrow> exec_rr rf pc i (\<lambda>x y. Inr (x AND y))
   | OR' \<Rightarrow> exec_rr rf pc i (\<lambda>x y. Inr (x OR y))
   | XOR' \<Rightarrow> exec_rr rf pc i (\<lambda>x y. Inr (x XOR y))
   | SLL \<Rightarrow> exec_rr rf pc i shl32
   | SRL \<Rightarrow> exec_rr rf pc i shr32
   | SRA \<Rightarrow> exec_rr rf pc i sar32
   | ADDI \<Rightarrow> exec_ri rf pc i (\<lambda>x y. Inr (x + y))
   | SLTI \<Rightarrow> exec_ri rf pc i (\<lambda>x y. Inr (if sint x < sint y then 1 else 0))
   | SLTIU \<Rightarrow> exec_ri rf pc i (\<lambda>x y. Inr (if x < y then 1 else 0))
   | ANDI \<Rightarrow> exec_ri rf pc i (\<lambda>x y. Inr (x AND y))
   | ORI \<Rightarrow> exec_ri rf pc i (\<lambda>x y. Inr (x OR y))
   | XORI \<Rightarrow> exec_ri rf pc i (\<lambda>x y. Inr (x XOR y))
   | SLLI \<Rightarrow> exec_ri rf pc i shl32
   | SRLI \<Rightarrow> exec_ri rf pc i shr32
   | SRAI \<Rightarrow> exec_ri rf pc i sar32
   | BEQ \<Rightarrow> exec_br rf pc i (=)
   | BGE \<Rightarrow> exec_br rf pc i (\<lambda>x y. sint x \<ge> sint y)
   | BGEU \<Rightarrow> exec_br rf pc i (\<ge>)
   | BLT \<Rightarrow> exec_br rf pc i (\<lambda>x y. sint x < sint y)
   | BLTU \<Rightarrow> exec_br rf pc i (<)
   | BNE \<Rightarrow> exec_br rf pc i (\<noteq>)
   | JAL \<Rightarrow> bindE (rf_set rf (i_a1 i) (pc + 4)) (\<lambda>rf'. Inr (rf', o_imm (i_a2 i)))
   | JALR \<Rightarrow> bindE (rf_set rf (i_a1 i) (pc + 4)) (\<lambda>rf'.
       bindE (rf_get rf' (i_a2 i)) (\<lambda>x. Inr (rf', x + o_imm (i_a3 i))))
   | AUIPC \<Rightarrow> bindE (rf_set rf (i_a1 i) (pc + push_bit 12 (o_imm (i_a2 i)))) (\<lambda>rf'. Inr (rf', pc + 4))
   | LUI \<Rightarrow> bindE (rf_set rf (i_a1 i) (push_bit 12 (o_imm (i_a2 i)))) (\<lambda>rf'. Inr (rf', pc + 4))
   | _ \<Rightarrow> Inr (rf, pc + 4))"

section \<open>Requests, commit and execution\<close>

definition commitInstr :: "nat \<Rightarrow> instr \<Rightarrow> 'r cpu \<Rightarrow> 'r cpu" where
  "commitInstr now i s = (if i_op i = HCF then s else s\<lparr>cpu_events := cpu_events s @ [now + 1]\<rparr>)"

definition cpu_send :: "'r reg_ops \<Rightarrow> sim_packet \<Rightarrow> 'r cpu \<Rightarrow> 'r cpu \<times> bool" where
  "cpu_send ops p s =
     (case send_or_queue ops (cpu_reg s) (cpu_request_queue s) p of (r, q, taken) \<Rightarrow>
        (s\<lparr>cpu_reg := r, cpu_request_queue := q\<rparr>, taken))"

text \<open>The result is the \<open>bool\<close> of the source: whether the access is already done.\<close>

definition BusMemRead ::
  "'r reg_ops \<Rightarrow> int \<Rightarrow> instr \<Rightarrow> instr_type \<Rightarrow> u32 \<Rightarrow> operand \<Rightarrow> 'r cpu \<Rightarrow> 'r cpu \<times> int \<times> bool" where
  "BusMemRead ops ctr i oper addr a1 s =
     (let (pkt, ctr') = Construct_MemReadpkt_non_burst ctr i oper addr a1 ''cpu''
      in (fst (cpu_send ops pkt s), ctr', False))"

definition BusmemWrite ::
  "'r reg_ops \<Rightarrow> int \<Rightarrow> instr \<Rightarrow> instr_type \<Rightarrow> u32 \<Rightarrow> u32 \<Rightarrow> 'r cpu \<Rightarrow> 'r cpu \<times> int \<times> bool" where
  "BusmemWrite ops ctr i oper addr data s =
     (let (pkt, ctr') = Construct_MemWritepkt_non_burst ctr i oper addr data ''cpu'';
          (s', taken) = cpu_send ops pkt s
      in (s', ctr', taken))"

definition CFUReq :: "instr \<Rightarrow> u32 \<Rightarrow> u32 \<Rightarrow> 'r cpu \<Rightarrow> 'r cpu" where
  "CFUReq i a b s = s\<lparr>cpu_cfu_chan := cpu_cfu_chan s @ [\<lparr>cq_instr = i, cq_rs1 = a, cq_rs2 = b\<rparr>]\<rparr>"

definition is_load :: "instr_type \<Rightarrow> bool" where
  "is_load x \<longleftrightarrow> x \<in> {LB, LBU, LH, LHU, LW}"

definition is_store :: "instr_type \<Rightarrow> bool" where
  "is_store x \<longleftrightarrow> x \<in> {SB, SH, SW}"

definition is_simd :: "instr_type \<Rightarrow> bool" where
  "is_simd x \<longleftrightarrow> decision_of x \<noteq> Unknown"

text \<open>After a switch that ran to its \<open>break\<close>: commit, then move the program counter.\<close>

definition finish_instr :: "nat \<Rightarrow> instr \<Rightarrow> u32 \<Rightarrow> 'r cpu \<Rightarrow> 'r cpu" where
  "finish_instr now i pc_next s = (commitInstr now i s)\<lparr>cpu_pc := pc_next\<rparr>"

definition processInstr ::
  "'r reg_ops \<Rightarrow> nat \<Rightarrow> int \<Rightarrow> instr \<Rightarrow> 'r cpu \<Rightarrow> ('r cpu \<times> int) result" where
  "processInstr ops now ctr i s0 =
     (let s = s0\<lparr>cpu_inst_cnt := cpu_inst_cnt s0 + 1\<rparr>;
          rf = cpu_rf s; pc = cpu_pc s
      in if is_load (i_op i) then
           bindE (rf_get rf (i_a2 i)) (\<lambda>x.
             (let (s', ctr', done) = BusMemRead ops ctr i (i_op i) (x + o_imm (i_a3 i)) (i_a1 i) s
              in Inr (if done then finish_instr now i (pc + 4) s' else s', ctr')))
         else if is_store (i_op i) then
           bindE (rf_get rf (i_a2 i)) (\<lambda>x. bindE (rf_get rf (i_a1 i)) (\<lambda>v.
             (let (s', ctr', done) = BusmemWrite ops ctr i (i_op i) (x + o_imm (i_a3 i)) v s
              in Inr (if done then finish_instr now i (pc + 4) s' else s', ctr'))))
         else if is_simd (i_op i) then
           bindE (rf_get rf (i_a2 i)) (\<lambda>x. bindE (rf_get rf (i_a3 i)) (\<lambda>y. Inr (CFUReq i x y s, ctr)))
         else
           bindE (exec_switch rf pc i) (\<lambda>(rf', pc_next).
             Inr (finish_instr now i pc_next (s\<lparr>cpu_rf := rf'\<rparr>), ctr)))"

definition execOneInstr :: "'r reg_ops \<Rightarrow> nat \<Rightarrow> int \<Rightarrow> 'r cpu \<Rightarrow> ('r cpu \<times> int) result" where
  "execOneInstr ops now ctr s =
     bindE (fetchInstr s (cpu_pc s)) (\<lambda>i. processInstr ops now ctr i s)"

section \<open>Responses and retries\<close>

definition CFURespHandler :: "nat \<Rightarrow> cfu_resp_packet \<Rightarrow> 'r cpu \<Rightarrow> 'r cpu result" where
  "CFURespHandler now pkt s =
     bindE (rf_set (cpu_rf s) (i_a1 (cr_instr pkt)) (cr_rd pkt)) (\<lambda>rf.
       Inr ((commitInstr now (cr_instr pkt) (s\<lparr>cpu_rf := rf\<rparr>))\<lparr>cpu_pc := cpu_pc s + 4\<rparr>))"

definition memReadRespHandler :: "nat \<Rightarrow> read_resp_payload \<Rightarrow> 'r cpu \<Rightarrow> 'r cpu result" where
  "memReadRespHandler now p s =
     bindE (rf_set (cpu_rf s) (rr_a1 p) (rr_data p)) (\<lambda>rf.
       Inr ((commitInstr now (rr_instr p) (s\<lparr>cpu_rf := rf\<rparr>))\<lparr>cpu_pc := cpu_pc s + 4\<rparr>))"

fun memReadResps :: "nat \<Rightarrow> read_resp_payload list \<Rightarrow> 'r cpu \<Rightarrow> 'r cpu result" where
  "memReadResps now [] s = Inr s"
| "memReadResps now (p # ps) s = bindE (memReadRespHandler now p s) (memReadResps now ps)"

definition memReadXBarRespHandler :: "nat \<Rightarrow> read_resp_payload xbar_packet \<Rightarrow> 'r cpu \<Rightarrow> 'r cpu result" where
  "memReadXBarRespHandler now pkt s = memReadResps now (payloadList pkt) s"

text \<open>A write response only recycles its objects.\<close>

definition memWriteXBarRespHandler :: "write_resp_payload xbar_packet \<Rightarrow> 'r cpu \<Rightarrow> 'r cpu" where
  "memWriteXBarRespHandler pkt s = s"

definition memWriteRespHandler :: "nat \<Rightarrow> write_resp_payload \<Rightarrow> 'r cpu \<Rightarrow> 'r cpu" where
  "memWriteRespHandler now p s = (commitInstr now (wr_instr p) s)\<lparr>cpu_pc := cpu_pc s + 4\<rparr>"

text \<open>
  The packets of the bus. \<open>CPU::step\<close> also asks for a \<open>CFUReqPacket\<close>, which is not one of them: CFU packets
  travel over channels of their own (\<open>SOC.hh\<close>), and visiting the CPU with one is logged as an error as any other packet is.
\<close>

definition cpu_step :: "sim_config \<Rightarrow> nat \<Rightarrow> sim_packet option \<Rightarrow> 'r cpu \<Rightarrow> 'r cpu result" where
  "cpu_step cfg now popped s = (case popped of
     None \<Rightarrow> Inr s
   | Some (ReadResp pkt) \<Rightarrow> memReadXBarRespHandler now pkt s
   | Some (WriteResp pkt) \<Rightarrow> Inr (memWriteXBarRespHandler pkt s)
   | Some _ \<Rightarrow> log_error cfg ''Not a valid packet'' (Inr s))"

text \<open>
  \<open>masterPortRetry\<close>: the front of the queue is pushed again. \<open>front()\<close> of an empty queue is an
  access out of bounds. A read leaves the queue when it is taken; a write commits its
  instruction and stays in the queue.
\<close>

definition cpu_masterPortRetry :: "'r reg_ops \<Rightarrow> sim_config \<Rightarrow> nat \<Rightarrow> 'r cpu \<Rightarrow> 'r cpu result" where
  "cpu_masterPortRetry ops cfg now s =
     (if isStalled ops (cpu_reg s) then Inr s
      else (case cpu_request_queue s of
         [] \<Rightarrow> Inl (OutOfBounds ''request_queue'')
       | ReadReq p # rest \<Rightarrow>
           (case push ops (cpu_reg s) (ReadReq p) of (r, taken) \<Rightarrow>
              Inr (if taken then s\<lparr>cpu_reg := r, cpu_request_queue := rest\<rparr> else s\<lparr>cpu_reg := r\<rparr>))
       | WriteReq p # rest \<Rightarrow>
           (case payloadList p of
              [] \<Rightarrow> Inl (OutOfBounds ''payloads'')
            | w # _ \<Rightarrow>
                (case push ops (cpu_reg s) (WriteReq p) of (r, taken) \<Rightarrow>
                   Inr (if taken
                        then commitInstr now (wq_instr w) (s\<lparr>cpu_reg := r, cpu_pc := cpu_pc s + 4\<rparr>)
                        else s\<lparr>cpu_reg := r\<rparr>)))
       | _ \<Rightarrow> log_error cfg ''Unexpected type'' (Inr s)))"

text \<open>\<open>dumpMemory\<close> reads eight bytes at a time from \<open>0x2000\<close> to \<open>0xEFFF\<close>.\<close>

fun dump_rows :: "base_memory \<Rightarrow> nat \<Rightarrow> u32 \<Rightarrow> u8 list result" where
  "dump_rows m 0 addr = Inr []"
| "dump_rows m (Suc n) addr =
     bindE (readData m addr 8) (\<lambda>bs. bindE (dump_rows m n (addr + 8)) (\<lambda>rest. Inr (bs @ rest)))"

definition dumpMemory :: "base_memory \<Rightarrow> u8 list result" where
  "dumpMemory m = dump_rows m ((0xEFFF - 0x2000) div 8 + 1) 0x2000"

definition cpu_cleanup :: "base_memory \<Rightarrow> 'r cpu \<Rightarrow> u8 list result" where
  "cpu_cleanup m s = assertE (cpu_request_queue s = []) ''The request queue should be empty'' (dumpMemory m)"

fun instrToString :: "instr_type \<Rightarrow> string" where
  "instrToString UNIMPL = ''UNIMPL''"
| "instrToString ADD = ''ADD''" | "instrToString AND' = ''AND''" | "instrToString OR' = ''OR''"
| "instrToString XOR' = ''XOR''" | "instrToString SUB = ''SUB''" | "instrToString SLL = ''SLL''"
| "instrToString SRL = ''SRL''" | "instrToString SRA = ''SRA''" | "instrToString SLT = ''SLT''"
| "instrToString SLTU = ''SLTU''" | "instrToString ADDI = ''ADDI''" | "instrToString ANDI = ''ANDI''"
| "instrToString ORI = ''ORI''" | "instrToString XORI = ''XORI''" | "instrToString SLLI = ''SLLI''"
| "instrToString SRLI = ''SRLI''" | "instrToString SRAI = ''SRAI''" | "instrToString SLTI = ''SLTI''"
| "instrToString SLTIU = ''SLTIU''" | "instrToString LB = ''LB''" | "instrToString LBU = ''LBU''"
| "instrToString LH = ''LH''" | "instrToString LHU = ''LHU''" | "instrToString LW = ''LW''"
| "instrToString SB = ''SB''" | "instrToString SH = ''SH''" | "instrToString SW = ''SW''"
| "instrToString BEQ = ''BEQ''" | "instrToString BNE = ''BNE''" | "instrToString BGE = ''BGE''"
| "instrToString BGEU = ''BGEU''" | "instrToString BLT = ''BLT''" | "instrToString BLTU = ''BLTU''"
| "instrToString JAL = ''JAL''" | "instrToString JALR = ''JALR''" | "instrToString AUIPC = ''AUIPC''"
| "instrToString LUI = ''LUI''"
| "instrToString S_ADDI8I8S_VV = ''S_ADDI8I8S.vv''" | "instrToString S_ADDI16I16S_VV = ''S_ADDI16I16S.vv''"
| "instrToString S_SUBI8I8S_VV = ''S_SUBI8I8S.vv''" | "instrToString S_SUBI16I16S_VV = ''S_SUBI16I16S.vv''"
| "instrToString S_PMULI8I16S_VV_L = ''S_PMULI8I16S.vv.L''"
| "instrToString S_PMULI8I16S_VV_H = ''S_PMULI8I16S.vv.H''"
| "instrToString S_AMULI8I8S_VV_NQ = ''S_AMULI8I8S.vv.NQ''"
| "instrToString S_AMULI8I8S_VV_L = ''S_AMULI8I8S.vv.L''"
| "instrToString HCF = ''HCF''"
| "instrToString _ = ''UNKNOWN''"

section \<open>Facts about the parts\<close>

lemmas cpu_frame_defs = commitInstr_def finish_instr_def CFUReq_def BusMemRead_def BusmemWrite_def
  cpu_send_def memWriteXBarRespHandler_def memWriteRespHandler_def

lemma rf_set_length: "rf_set rf a v = Inr rf' \<Longrightarrow> length rf' = length rf"
  by (auto simp: rf_set_def result_simps)

lemma exec_switch_length: "exec_switch rf pc i = Inr (rf', pc') \<Longrightarrow> length rf' = length rf"
  by (cases "i_op i")
    (auto simp: exec_switch_def exec_rr_def exec_ri_def exec_br_def result_simps dest: rf_set_length)

lemma commitInstr_simps [simp]:
  "cpu_rf (commitInstr now i s) = cpu_rf s" "cpu_pc (commitInstr now i s) = cpu_pc s"
  "cpu_request_queue (commitInstr now i s) = cpu_request_queue s" "cpu_reg (commitInstr now i s) = cpu_reg s"
  "cpu_cfu_chan (commitInstr now i s) = cpu_cfu_chan s" "cpu_imem (commitInstr now i s) = cpu_imem s"
  "cpu_inst_cnt (commitInstr now i s) = cpu_inst_cnt s"
  "cpu_events (commitInstr now i s) = cpu_events s @ (if i_op i = HCF then [] else [now + 1])"
  by (simp_all add: commitInstr_def)

lemma processInstr_switch:
  assumes "\<not> is_load (i_op i)" "\<not> is_store (i_op i)" "\<not> is_simd (i_op i)"
    and "exec_switch (cpu_rf s) (cpu_pc s) i = Inr (rf', pc')"
  shows "processInstr ops now ctr i s =
    Inr (finish_instr now i pc' (s\<lparr>cpu_inst_cnt := cpu_inst_cnt s + 1, cpu_rf := rf'\<rparr>), ctr)"
  using assms by (simp add: processInstr_def Let_def)

text \<open>An operand names a register of the file.\<close>

definition reg_ok :: "operand \<Rightarrow> bool" where
  "reg_ok a \<longleftrightarrow> 0 \<le> o_reg a \<and> o_reg a < 32"

abbreviation reg_of :: "'r cpu \<Rightarrow> operand \<Rightarrow> u32" where
  "reg_of s a \<equiv> cpu_rf s ! nat (o_reg a)"

lemma rf_access [simp]:
  "cpu_ok s \<Longrightarrow> reg_ok a \<Longrightarrow> rf_get (cpu_rf s) a = Inr (reg_of s a)"
  "cpu_ok s \<Longrightarrow> reg_ok a \<Longrightarrow> rf_set (cpu_rf s) a v = Inr ((cpu_rf s)[nat (o_reg a) := v])"
  by (simp_all add: cpu_ok_def reg_ok_def rf_get_def rf_set_def)

section \<open>The RV32I reference\<close>

text \<open>
  What the RISC-V manual says of the arithmetic instructions (with \<open>MUL\<close> of the M extension):
  the value written to the destination from the first source and the second source or
  immediate. Shift amounts are the low five bits.
\<close>

definition rv_alu :: "instr_type \<Rightarrow> u32 \<Rightarrow> u32 \<Rightarrow> u32" where
  "rv_alu ty x y =
     (if ty \<in> {ADD, ADDI} then x + y
      else if ty = SUB then x - y
      else if ty = MUL then x * y
      else if ty \<in> {SLT, SLTI} then (if sint x < sint y then 1 else 0)
      else if ty \<in> {SLTU, SLTIU} then (if x < y then 1 else 0)
      else if ty \<in> {AND', ANDI} then x AND y
      else if ty \<in> {OR', ORI} then x OR y
      else if ty \<in> {XOR', XORI} then x XOR y
      else if ty \<in> {SLL, SLLI} then push_bit (unat (take_bit 5 y)) x
      else if ty \<in> {SRL, SRLI} then drop_bit (unat (take_bit 5 y)) x
      else signed_drop_bit (unat (take_bit 5 y)) x)"

definition rv_branch :: "instr_type \<Rightarrow> u32 \<Rightarrow> u32 \<Rightarrow> bool" where
  "rv_branch ty x y =
     (if ty = BEQ then x = y else if ty = BNE then x \<noteq> y
      else if ty = BLT then sint x < sint y else if ty = BGE then \<not> sint x < sint y
      else if ty = BLTU then x < y else \<not> x < y)"

definition alu_rr :: "instr_type set" where
  "alu_rr = {ADD, SUB, MUL, SLT, SLTU, AND', OR', XOR', SLL, SRL, SRA}"

definition alu_ri :: "instr_type set" where
  "alu_ri = {ADDI, SLTI, SLTIU, ANDI, ORI, XORI, SLLI, SRLI, SRAI}"

definition branch_ops :: "instr_type set" where
  "branch_ops = {BEQ, BNE, BLT, BGE, BLTU, BGEU}"

definition shift_ops :: "instr_type set" where
  "shift_ops = {SLL, SRL, SRA, SLLI, SRLI, SRAI}"

lemmas op_class_defs = alu_rr_def alu_ri_def branch_ops_def shift_ops_def is_load_def is_store_def is_simd_def

definition second_source :: "'r cpu \<Rightarrow> instr \<Rightarrow> u32" where
  "second_source s i = (if i_op i \<in> alu_rr then reg_of s (i_a3 i) else o_imm (i_a3 i))"

lemma take_bit_5_small: "unat (y :: u32) < 32 \<Longrightarrow> take_bit 5 y = y"
  by (simp add: word_unat_eq_iff unsigned_take_bit_eq take_bit_nat_eq_self)

lemma shifts_small:
  "unat y < 32 \<Longrightarrow> shl32 x y = Inr (push_bit (unat (take_bit 5 y)) x)"
  "unat y < 32 \<Longrightarrow> shr32 x y = Inr (drop_bit (unat (take_bit 5 y)) x)"
  "unat y < 32 \<Longrightarrow> sar32 x y = Inr (signed_drop_bit (unat (take_bit 5 y)) x)"
  by (simp_all add: shl32_def shr32_def sar32_def take_bit_5_small)

lemma exec_switch_alu:
  assumes "cpu_ok s" "reg_ok (i_a1 i)" "reg_ok (i_a2 i)" "i_op i \<in> alu_rr \<Longrightarrow> reg_ok (i_a3 i)"
    and "i_op i \<in> alu_rr \<union> alu_ri - {SLTU}"
    and "i_op i \<in> shift_ops \<Longrightarrow> unat (second_source s i) < 32"
  shows "exec_switch (cpu_rf s) pc i =
    Inr ((cpu_rf s)[nat (o_reg (i_a1 i)) := rv_alu (i_op i) (reg_of s (i_a2 i)) (second_source s i)], pc + 4)"
  using assms
  by (cases "i_op i")
    (auto simp: exec_switch_def exec_rr_def exec_ri_def rv_alu_def second_source_def op_class_defs shifts_small)

lemma exec_switch_branch:
  assumes "cpu_ok s" "reg_ok (i_a1 i)" "reg_ok (i_a2 i)" "i_op i \<in> branch_ops"
  shows "exec_switch (cpu_rf s) pc i =
    Inr (cpu_rf s, if rv_branch (i_op i) (reg_of s (i_a1 i)) (reg_of s (i_a2 i)) then o_imm (i_a3 i) else pc + 4)"
  using assms by (cases "i_op i") (auto simp: exec_switch_def exec_br_def rv_branch_def op_class_defs)


lemma exec_switch_jump:
  assumes "cpu_ok s" "reg_ok (i_a1 i)" "i_op i = JAL \<or> i_op i = JALR \<and> reg_ok (i_a2 i)"
  shows "exec_switch (cpu_rf s) pc i =
    Inr ((cpu_rf s)[nat (o_reg (i_a1 i)) := pc + 4],
         if i_op i = JAL then o_imm (i_a2 i)
         else (cpu_rf s)[nat (o_reg (i_a1 i)) := pc + 4] ! nat (o_reg (i_a2 i)) + o_imm (i_a3 i))"
  using assms by (auto simp: exec_switch_def rf_get_def reg_ok_def cpu_ok_def rf_set_def)

lemma exec_switch_upper:
  assumes "cpu_ok s" "reg_ok (i_a1 i)" "i_op i \<in> {LUI, AUIPC}"
  shows "exec_switch (cpu_rf s) pc i =
    Inr ((cpu_rf s)[nat (o_reg (i_a1 i)) :=
           (if i_op i = AUIPC then pc else 0) + push_bit 12 (o_imm (i_a2 i))], pc + 4)"
  using assms by (auto simp: exec_switch_def)

text \<open>Every operation of the CPU leaves a register file of 32 words.\<close>

lemma finish_instr_simps [simp]:
  "cpu_rf (finish_instr now i pc s) = cpu_rf s" "cpu_pc (finish_instr now i pc s) = pc"
  "cpu_request_queue (finish_instr now i pc s) = cpu_request_queue s"
  "cpu_reg (finish_instr now i pc s) = cpu_reg s" "cpu_imem (finish_instr now i pc s) = cpu_imem s"
  "cpu_cfu_chan (finish_instr now i pc s) = cpu_cfu_chan s"
  "cpu_events (finish_instr now i pc s) = cpu_events s @ (if i_op i = HCF then [] else [now + 1])"
  by (simp_all add: finish_instr_def)

lemma cpu_send_frame [simp]:
  "cpu_rf (fst (cpu_send ops p s)) = cpu_rf s" "cpu_pc (fst (cpu_send ops p s)) = cpu_pc s"
  "cpu_imem (fst (cpu_send ops p s)) = cpu_imem s" "cpu_events (fst (cpu_send ops p s)) = cpu_events s"
  "cpu_cfu_chan (fst (cpu_send ops p s)) = cpu_cfu_chan s"
  "cpu_inst_cnt (fst (cpu_send ops p s)) = cpu_inst_cnt s"
  "cpu_request_queue (fst (cpu_send ops p s)) =
     cpu_request_queue s @ (if snd (cpu_send ops p s) then [] else [p])"
  by (simp_all add: cpu_send_def send_or_queue_def split: prod.split)

lemma processInstr_cases:
  assumes "processInstr ops now ctr i s = Inr (s', ctr')"
  obtains
    (load) x p where "is_load (i_op i)" "rf_get (cpu_rf s) (i_a2 i) = Inr x"
      "(p, ctr') = Construct_MemReadpkt_non_burst ctr i (i_op i) (x + o_imm (i_a3 i)) (i_a1 i) ''cpu''"
      "s' = fst (cpu_send ops p (s\<lparr>cpu_inst_cnt := cpu_inst_cnt s + 1\<rparr>))"
  | (store) x v p where "is_store (i_op i)"
      "rf_get (cpu_rf s) (i_a2 i) = Inr x" "rf_get (cpu_rf s) (i_a1 i) = Inr v"
      "(p, ctr') = Construct_MemWritepkt_non_burst ctr i (i_op i) (x + o_imm (i_a3 i)) v ''cpu''"
      "s' = (let r = cpu_send ops p (s\<lparr>cpu_inst_cnt := cpu_inst_cnt s + 1\<rparr>)
             in if snd r then finish_instr now i (cpu_pc s + 4) (fst r) else fst r)"
  | (simd) x y where "is_simd (i_op i)" "rf_get (cpu_rf s) (i_a2 i) = Inr x"
      "rf_get (cpu_rf s) (i_a3 i) = Inr y" "ctr' = ctr"
      "s' = CFUReq i x y (s\<lparr>cpu_inst_cnt := cpu_inst_cnt s + 1\<rparr>)"
  | (switch) rf' pc' where "\<not> is_load (i_op i)" "exec_switch (cpu_rf s) (cpu_pc s) i = Inr (rf', pc')" "ctr' = ctr"
      "s' = finish_instr now i pc' (s\<lparr>cpu_inst_cnt := cpu_inst_cnt s + 1, cpu_rf := rf'\<rparr>)"
proof -
  consider "is_load (i_op i)" | "is_store (i_op i)" "\<not> is_load (i_op i)"
    | "is_simd (i_op i)" "\<not> is_load (i_op i)" "\<not> is_store (i_op i)"
    | "\<not> is_load (i_op i)" "\<not> is_store (i_op i)" "\<not> is_simd (i_op i)" by blast
  then show thesis
  proof cases
    case 1
    then show thesis using assms load
      by (auto simp: processInstr_def Let_def BusMemRead_def result_simps split: prod.splits)
  next
    case 2
    then show thesis using assms store
      by (auto simp: processInstr_def Let_def BusmemWrite_def result_simps split: prod.splits)
  next
    case 3
    then show thesis using assms simd by (auto simp: processInstr_def Let_def result_simps)
  next
    case 4
    then show thesis using assms switch
      by (auto simp: processInstr_def Let_def result_simps split: prod.splits)
  qed
qed


lemma processInstr_ok:
  assumes "processInstr ops now ctr i s = Inr (s', ctr')"
  shows "length (cpu_rf s') = length (cpu_rf s)" "cpu_imem s' = cpu_imem s"
  by (cases rule: processInstr_cases [OF assms];
      auto simp: CFUReq_def Let_def dest: exec_switch_length)+

lemma execOneInstr_ok:
  assumes "execOneInstr ops now ctr s = Inr (s', ctr')"
  shows "length (cpu_rf s') = length (cpu_rf s)" "cpu_imem s' = cpu_imem s"
  using assms by (auto simp: execOneInstr_def result_simps dest: processInstr_ok)

lemma memReadResps_ok:
  "memReadResps now ps s = Inr s' \<Longrightarrow> length (cpu_rf s') = length (cpu_rf s) \<and> cpu_imem s' = cpu_imem s"
proof (induction ps arbitrary: s)
  case (Cons p ps)
  then obtain s1 where "memReadRespHandler now p s = Inr s1" "memReadResps now ps s1 = Inr s'"
    by (auto simp: result_simps)
  then show ?case using Cons.IH [of s1]
    by (auto simp: memReadRespHandler_def result_simps dest: rf_set_length)
qed simp

lemma CFURespHandler_ok:
  "CFURespHandler now pkt s = Inr s' \<Longrightarrow> length (cpu_rf s') = length (cpu_rf s) \<and> cpu_imem s' = cpu_imem s"
  by (auto simp: CFURespHandler_def result_simps dest: rf_set_length)

lemma cpu_retry_ok:
  "cpu_masterPortRetry ops cfg now s = Inr s' \<Longrightarrow> cpu_rf s' = cpu_rf s \<and> cpu_imem s' = cpu_imem s"
  by (auto simp: cpu_masterPortRetry_def result_simps split: if_splits list.splits sim_packet.splits prod.splits)

section \<open>Runs of the CPU: one instruction in flight\<close>

text \<open>
  The CPU with its environment: the instructions whose load response is outstanding are
  recorded in \<open>sys_loads\<close>. A step is an \<open>ExecOneInstrEvent\<close>, a response of the bus or of the CFU to
  a request that left the CPU, or a retry of the master port that does not send a queued store.
\<close>

record 'r cpu_sys =
  sys_cpu :: "'r cpu"
  sys_ctr :: int
  sys_loads :: "instr list"

fun is_read_req :: "sim_packet \<Rightarrow> bool" where
  "is_read_req (ReadReq _) = True"
| "is_read_req _ = False"

abbreviation reads :: "sim_packet list \<Rightarrow> sim_packet list" where
  "reads q \<equiv> filter is_read_req q"

abbreviation others :: "sim_packet list \<Rightarrow> sim_packet list" where
  "others q \<equiv> filter (\<lambda>p. \<not> is_read_req p) q"

inductive cpu_sys_step :: "'r reg_ops \<Rightarrow> sim_config \<Rightarrow> 'r cpu_sys \<Rightarrow> 'r cpu_sys \<Rightarrow> bool" for ops cfg where
  Exec: "cpu_events c = es @ t # fs \<Longrightarrow> fetchInstr c (cpu_pc c) = Inr i \<Longrightarrow>
    execOneInstr ops t n (c\<lparr>cpu_events := es @ fs\<rparr>) = Inr (c', n') \<Longrightarrow>
    cpu_sys_step ops cfg \<lparr>sys_cpu = c, sys_ctr = n, sys_loads = ls\<rparr>
      \<lparr>sys_cpu = c', sys_ctr = n', sys_loads = ls @ (if is_load (i_op i) then [i] else [])\<rparr>"
| LoadResp: "payloadList pkt = [p] \<Longrightarrow> rr_instr p = i \<Longrightarrow>
    length (reads (cpu_request_queue c)) < length (ls @ i # ms) \<Longrightarrow>
    cpu_step cfg now (Some (ReadResp pkt)) c = Inr c' \<Longrightarrow>
    cpu_sys_step ops cfg \<lparr>sys_cpu = c, sys_ctr = n, sys_loads = ls @ i # ms\<rparr>
      \<lparr>sys_cpu = c', sys_ctr = n, sys_loads = ls @ ms\<rparr>"
| StoreResp: "cpu_step cfg now (Some (WriteResp pkt)) c = Inr c' \<Longrightarrow>
    cpu_sys_step ops cfg \<lparr>sys_cpu = c, sys_ctr = n, sys_loads = ls\<rparr>
      \<lparr>sys_cpu = c', sys_ctr = n, sys_loads = ls\<rparr>"
| CFUResp: "cpu_cfu_chan c = qs @ q # ks \<Longrightarrow> cr_instr r = cq_instr q \<Longrightarrow>
    CFURespHandler now r (c\<lparr>cpu_cfu_chan := qs @ ks\<rparr>) = Inr c' \<Longrightarrow>
    cpu_sys_step ops cfg \<lparr>sys_cpu = c, sys_ctr = n, sys_loads = ls\<rparr>
      \<lparr>sys_cpu = c', sys_ctr = n, sys_loads = ls\<rparr>"
| Retry: "cpu_masterPortRetry ops cfg now c = Inr c' \<Longrightarrow>
    is_read_req (hd (cpu_request_queue c)) \<or> cpu_events c' = cpu_events c \<and> cpu_pc c' = cpu_pc c \<Longrightarrow>
    cpu_sys_step ops cfg \<lparr>sys_cpu = c, sys_ctr = n, sys_loads = ls\<rparr>
      \<lparr>sys_cpu = c', sys_ctr = n, sys_loads = ls\<rparr>"

abbreviation cpu_runs :: "'r reg_ops \<Rightarrow> sim_config \<Rightarrow> 'r cpu_sys \<Rightarrow> 'r cpu_sys \<Rightarrow> bool" where
  "cpu_runs ops cfg \<equiv> (cpu_sys_step ops cfg)\<^sup>*\<^sup>*"

definition tokens :: "'r cpu_sys \<Rightarrow> nat" where
  "tokens y = length (cpu_events (sys_cpu y)) + length (sys_loads y) + length (cpu_cfu_chan (sys_cpu y))
     + length (others (cpu_request_queue (sys_cpu y)))"

text \<open>At most one instruction is in flight, and it is the one at the program counter.\<close>

definition in_order :: "'r cpu_sys \<Rightarrow> bool" where
  "in_order y \<longleftrightarrow> tokens y \<le> 1 \<and> cpu_ok (sys_cpu y)
     \<and> length (reads (cpu_request_queue (sys_cpu y))) \<le> length (sys_loads y)
     \<and> (\<forall>i \<in> set (sys_loads y). fetchInstr (sys_cpu y) (cpu_pc (sys_cpu y)) = Inr i)
     \<and> (\<forall>q \<in> set (cpu_cfu_chan (sys_cpu y)). fetchInstr (sys_cpu y) (cpu_pc (sys_cpu y)) = Inr (cq_instr q))"

lemmas in_order_defs = in_order_def tokens_def cpu_ok_def

lemma fetchInstr_cong: "cpu_imem s' = cpu_imem s \<Longrightarrow> fetchInstr s' = fetchInstr s"
  by (simp add: fetchInstr_def fun_eq_iff)

lemma non_burst_kinds [simp]:
  "is_read_req (fst (Construct_MemReadpkt_non_burst ctr i oper addr a1 caller))"
  "\<not> is_read_req (fst (Construct_MemWritepkt_non_burst ctr i oper addr data caller))"
  by (simp_all add: packet_defs)

lemma in_order_exec:
  assumes "in_order \<lparr>sys_cpu = c, sys_ctr = n, sys_loads = ls\<rparr>" "cpu_events c = es @ t # fs"
    and "processInstr ops t n i (c\<lparr>cpu_events := es @ fs\<rparr>) = Inr (c', n')"
    and i: "fetchInstr c (cpu_pc c) = Inr i"
  shows "in_order \<lparr>sys_cpu = c', sys_ctr = n', sys_loads = ls @ (if is_load (i_op i) then [i] else [])\<rparr>"
proof -
  have idle: "es = []" "fs = []" "ls = []" "cpu_cfu_chan c = []" "cpu_request_queue c = []" "cpu_ok c"
    using assms(1,2) by (auto simp: in_order_defs filter_empty_conv)
  have ok: "cpu_ok c'" "cpu_imem c' = cpu_imem c"
    using processInstr_ok [OF assms(3)] idle by (simp_all add: cpu_ok_def)
  note fetch = fetchInstr_cong [OF ok(2)]
  show ?thesis
    using assms(3)
  proof (cases rule: processInstr_cases)
    case (load x p)
    then have "is_read_req p" by (metis fst_conv non_burst_kinds(1))
    then show ?thesis using load i idle ok fetch by (simp add: in_order_defs)
  next
    case (store x v p)
    then have "\<not> is_read_req p" by (metis fst_conv non_burst_kinds(2))
    moreover have "\<not> is_load (i_op i)" using store(1) by (auto simp: op_class_defs)
    ultimately show ?thesis using store idle ok by (simp add: in_order_defs Let_def)
  next
    case (simd x y)
    then have "\<not> is_load (i_op i)" by (auto simp: op_class_defs)
    then show ?thesis using simd i idle ok fetch by (simp add: in_order_defs CFUReq_def)
  next
    case (switch rf' pc')
    then show ?thesis using idle ok i fetch by (simp add: in_order_defs)
  qed
qed

lemma in_order_load_resp:
  assumes "in_order \<lparr>sys_cpu = c, sys_ctr = n, sys_loads = ls @ i # ms\<rparr>" "payloadList pkt = [p]"
    and "length (reads (cpu_request_queue c)) < length (ls @ i # ms)"
    and "cpu_step cfg now (Some (ReadResp pkt)) c = Inr c'"
  shows "in_order \<lparr>sys_cpu = c', sys_ctr = n, sys_loads = ls @ ms\<rparr>"
proof -
  have "memReadRespHandler now p c = Inr c'"
    using assms(2,4) by (simp add: cpu_step_def memReadXBarRespHandler_def bindE_def split: sum.splits)
  then show ?thesis using assms(1,3)
    by (auto simp: memReadRespHandler_def result_simps in_order_defs dest: rf_set_length)
qed

lemma in_order_cfu_resp:
  assumes "in_order \<lparr>sys_cpu = c, sys_ctr = n, sys_loads = ls\<rparr>" "cpu_cfu_chan c = qs @ q # ks"
    and "CFURespHandler now r (c\<lparr>cpu_cfu_chan := qs @ ks\<rparr>) = Inr c'"
  shows "in_order \<lparr>sys_cpu = c', sys_ctr = n, sys_loads = ls\<rparr>"
  using assms by (auto simp: CFURespHandler_def result_simps in_order_defs dest: rf_set_length)

lemma cpu_retry_cases:
  assumes "cpu_masterPortRetry ops cfg now s = Inr s'"
  obtains (idle) "s' = s"
  | (read) p q r taken where "cpu_request_queue s = ReadReq p # q" "push ops (cpu_reg s) (ReadReq p) = (r, taken)"
      "s' = s\<lparr>cpu_reg := r, cpu_request_queue := if taken then q else ReadReq p # q\<rparr>"
  | (refused) p q r where "cpu_request_queue s = WriteReq p # q" "push ops (cpu_reg s) (WriteReq p) = (r, False)"
      "s' = s\<lparr>cpu_reg := r\<rparr>"
  | (sent) p w ws q r where "cpu_request_queue s = WriteReq p # q" "payloadList p = w # ws"
      "push ops (cpu_reg s) (WriteReq p) = (r, True)"
      "s' = commitInstr now (wq_instr w) (s\<lparr>cpu_reg := r, cpu_pc := cpu_pc s + 4\<rparr>)"
proof (cases "isStalled ops (cpu_reg s)")
  case True
  then show thesis using assms idle by (simp add: cpu_masterPortRetry_def)
next
  case False
  then obtain f q where q: "cpu_request_queue s = f # q"
    using assms by (auto simp: cpu_masterPortRetry_def split: list.splits)
  show thesis
  proof (cases f)
    case (ReadReq p)
    obtain r taken where "push ops (cpu_reg s) (ReadReq p) = (r, taken)" by fastforce
    with q ReadReq False assms show thesis
      by (intro read) (auto simp: cpu_masterPortRetry_def)
  next
    case (WriteReq p)
    obtain r taken where ps: "push ops (cpu_reg s) (WriteReq p) = (r, taken)" by fastforce
    with q WriteReq False assms show thesis
      by (cases taken; cases "payloadList p")
        (simp_all add: cpu_masterPortRetry_def refused sent)
  qed (use q False assms idle in \<open>auto simp: cpu_masterPortRetry_def result_simps\<close>)
qed

lemma cpu_retry_frame:
  assumes "cpu_masterPortRetry ops cfg now c = Inr c'"
    and "is_read_req (hd (cpu_request_queue c)) \<or> cpu_events c' = cpu_events c \<and> cpu_pc c' = cpu_pc c"
  shows "cpu_events c' = cpu_events c" "cpu_pc c' = cpu_pc c" "cpu_cfu_chan c' = cpu_cfu_chan c"
    "others (cpu_request_queue c') = others (cpu_request_queue c)"
    "length (reads (cpu_request_queue c')) \<le> length (reads (cpu_request_queue c))"
  using assms(2) by (cases rule: cpu_retry_cases [OF assms(1)]; simp)+

lemma in_order_retry:
  assumes "in_order \<lparr>sys_cpu = c, sys_ctr = n, sys_loads = ls\<rparr>"
    and "cpu_masterPortRetry ops cfg now c = Inr c'"
    and "is_read_req (hd (cpu_request_queue c)) \<or> cpu_events c' = cpu_events c \<and> cpu_pc c' = cpu_pc c"
  shows "in_order \<lparr>sys_cpu = c', sys_ctr = n, sys_loads = ls\<rparr>"
proof -
  note frame = cpu_retry_frame [OF assms(2,3)]
  moreover have "fetchInstr c' = fetchInstr c"
    using cpu_retry_ok [OF assms(2)] by (intro fetchInstr_cong) simp
  ultimately show ?thesis
    using cpu_retry_ok [OF assms(2)] assms(1) by (simp add: in_order_defs)
qed

lemma in_order_step: "cpu_sys_step ops cfg y y' \<Longrightarrow> in_order y \<Longrightarrow> in_order y'"
proof (induction rule: cpu_sys_step.induct)
  case (Exec c es t fs i n c' n' ls)
  then show ?case by (intro in_order_exec) (auto simp: execOneInstr_def fetchInstr_def)
next
  case (StoreResp now pkt c c' n ls)
  then show ?case by (simp add: cpu_step_def memWriteXBarRespHandler_def)
qed (blast intro: in_order_load_resp in_order_cfu_resp in_order_retry)+

lemma in_order_runs: "cpu_runs ops cfg y y' \<Longrightarrow> in_order y \<Longrightarrow> in_order y'"
  by (induction rule: rtranclp_induct) (auto intro: in_order_step)

definition boot :: "sim_config \<Rightarrow> nat \<Rightarrow> 'r \<Rightarrow> instr list \<Rightarrow> 'r cpu_sys" where
  "boot cfg now r prog =
     \<lparr>sys_cpu = (cpu_init cfg now r)\<lparr>cpu_imem := prog\<rparr>, sys_ctr = 0, sys_loads = []\<rparr>"

lemma boot_in_order: "in_order (boot cfg now r prog)"
  by (simp add: in_order_defs cpu_init_def boot_def)

lemma idle_queue: "in_order y \<Longrightarrow> tokens y = 0 \<Longrightarrow> cpu_request_queue (sys_cpu y) = []"
  by (auto simp: in_order_defs filter_empty_conv)

lemma dump_rows_segment:
  "mem_ok m \<Longrightarrow> unat a + 8 * n \<le> msize m \<Longrightarrow> msize m < 2 ^ 32 \<Longrightarrow>
   dump_rows m n a = Inr (segment (mem m) (unat a) (8 * n))"
proof (induction n arbitrary: a)
  case 0
  then show ?case by (simp add: segment_def)
next
  case (Suc n)
  have "unat (a + 8) = unat a + 8"
    using Suc.prems by (simp add: unat_word_ariths)
  then show ?case
    using Suc.prems Suc.IH [of "a + 8"]
    by (auto simp: readData_def getSize_def segment_def take_add add.commute)
qed

section \<open>Properties\<close>

text \<open>A small program state for the witnesses.\<close>

definition ex_op :: "int \<Rightarrow> u32 \<Rightarrow> operand" where
  "ex_op r v = blank_operand\<lparr>o_reg := r, o_imm := v\<rparr>"

definition ex_instr :: "instr_type \<Rightarrow> operand \<Rightarrow> operand \<Rightarrow> operand \<Rightarrow> instr" where
  "ex_instr ty a b c = blank_instr\<lparr>i_op := ty, i_a1 := a, i_a2 := b, i_a3 := c\<rparr>"

definition ex_cpu :: "instr list \<Rightarrow> sim_packet list cpu" where
  "ex_cpu is = (cpu_init default_config 0 [])\<lparr>cpu_imem := is, cpu_rf := map of_nat [0..<32]\<rparr>"

lemmas ex_cpu_defs = ex_op_def ex_instr_def ex_cpu_def cpu_init_def blank_instr_def blank_operand_def
  default_config_def

lemma ex_cpu_ok [simp]: "cpu_ok (ex_cpu is)"
  by (simp add: cpu_ok_def ex_cpu_def)

lemma reg_ok_ex_op [simp]: "reg_ok (ex_op r v) \<longleftrightarrow> 0 \<le> r \<and> r < 32"
  by (simp add: reg_ok_def ex_op_def)

lemma ex_instr_simps [simp]:
  "i_op (ex_instr ty a b c) = ty" "i_a1 (ex_instr ty a b c) = a"
  "i_a2 (ex_instr ty a b c) = b" "i_a3 (ex_instr ty a b c) = c"
  by (simp_all add: ex_instr_def)

text \<open>
  C11: every arithmetic and logical instruction but \<open>SLTU\<close> does what the RISC-V manual says:
  the destination gets the ALU value of the two sources (shift amounts below 32), no other
  register changes, the program counter moves on by four, the instruction is counted and one
  event for the next instruction is scheduled one tick later.
\<close>

theorem cpu_alu_refines_rv32i:
  assumes "cpu_ok s" "reg_ok (i_a1 i)" "reg_ok (i_a2 i)"
    and "i_op i \<in> alu_rr \<Longrightarrow> reg_ok (i_a3 i)"
    and "i_op i \<in> alu_rr \<union> alu_ri - {SLTU}"
    and "i_op i \<in> shift_ops \<Longrightarrow> unat (second_source s i) < 32"
  shows "processInstr ops now ctr i s = Inr (s\<lparr>
      cpu_inst_cnt := cpu_inst_cnt s + 1,
      cpu_rf := (cpu_rf s)[nat (o_reg (i_a1 i)) := rv_alu (i_op i) (reg_of s (i_a2 i)) (second_source s i)],
      cpu_events := cpu_events s @ [now + 1],
      cpu_pc := cpu_pc s + 4\<rparr>, ctr)"
proof -
  have "\<not> is_load (i_op i)" "\<not> is_store (i_op i)" "\<not> is_simd (i_op i)" "i_op i \<noteq> HCF"
    using assms(5) by (auto simp: op_class_defs)
  then show ?thesis
    using exec_switch_alu [OF assms] by (simp add: processInstr_switch finish_instr_def commitInstr_def)
qed

theorem cpu_alu_refines_rv32i_witness:
  "processInstr slot_ops 7 0 (ex_instr SUB (ex_op 3 0) (ex_op 9 0) (ex_op 4 0)) (ex_cpu []) =
     Inr ((ex_cpu [])\<lparr>cpu_inst_cnt := 1, cpu_rf := (map of_nat [0..<32])[3 := 5],
       cpu_events := [1, 8], cpu_pc := 4\<rparr>, 0)"
proof -
  let ?i = "ex_instr SUB (ex_op 3 0) (ex_op 9 0) (ex_op 4 0)"
  have "i_op ?i \<in> alu_rr \<union> alu_ri - {SLTU}" "i_op ?i \<notin> shift_ops" "i_op ?i \<in> alu_rr"
    by (simp_all add: op_class_defs)
  then show ?thesis
    using cpu_alu_refines_rv32i [of "ex_cpu []" ?i slot_ops 7 0]
    by (simp add: second_source_def rv_alu_def) (simp add: ex_cpu_defs)
qed

text \<open>
  C20: a conditional branch goes to its target when the relation of the RISC-V manual holds
  between its sources and to the next instruction otherwise; \<open>JAL\<close> and \<open>JALR\<close> write the
  return address and jump, and the base of \<open>JALR\<close> is read after that write.
\<close>

theorem cpu_control_flow:
  assumes "cpu_ok s" "reg_ok (i_a1 i)" "reg_ok (i_a2 i)"
    and "i_op i \<in> branch_ops \<union> {JAL, JALR}"
  shows "\<exists>rf pc. processInstr ops now ctr i s = Inr (s\<lparr>cpu_inst_cnt := cpu_inst_cnt s + 1, cpu_rf := rf,
      cpu_events := cpu_events s @ [now + 1], cpu_pc := pc\<rparr>, ctr)
    \<and> rf = (if i_op i \<in> branch_ops then cpu_rf s else (cpu_rf s)[nat (o_reg (i_a1 i)) := cpu_pc s + 4])
    \<and> pc = (if i_op i \<in> branch_ops
            then if rv_branch (i_op i) (reg_of s (i_a1 i)) (reg_of s (i_a2 i)) then o_imm (i_a3 i) else cpu_pc s + 4
            else if i_op i = JAL then o_imm (i_a2 i)
            else (if o_reg (i_a1 i) = o_reg (i_a2 i) then cpu_pc s + 4 else reg_of s (i_a2 i)) + o_imm (i_a3 i))"
proof (cases "i_op i \<in> branch_ops")
  case True
  then have "\<not> is_load (i_op i)" "\<not> is_store (i_op i)" "\<not> is_simd (i_op i)" "i_op i \<noteq> HCF"
    by (auto simp: op_class_defs)
  then show ?thesis
    using True exec_switch_branch [OF assms(1-3) True]
    by (simp add: processInstr_switch finish_instr_def commitInstr_def)
next
  case False
  then have "\<not> is_load (i_op i)" "\<not> is_store (i_op i)" "\<not> is_simd (i_op i)" "i_op i \<noteq> HCF"
    using assms(4) by (auto simp: op_class_defs)
  moreover have "(cpu_rf s)[nat (o_reg (i_a1 i)) := v] ! nat (o_reg (i_a2 i)) =
      (if o_reg (i_a1 i) = o_reg (i_a2 i) then v else reg_of s (i_a2 i))" for v
    using assms(1-3) by (auto simp: cpu_ok_def reg_ok_def nth_list_update eq_nat_nat_iff)
  ultimately show ?thesis
    using False exec_switch_jump [of s i "cpu_pc s"] assms
    by (auto simp: processInstr_switch finish_instr_def commitInstr_def)
qed

theorem cpu_control_flow_witness:
  "\<exists>rf pc. processInstr slot_ops 7 0 (ex_instr BLT (ex_op 3 0) (ex_op 9 0) (ex_op 0 64)) (ex_cpu []) =
     Inr ((ex_cpu [])\<lparr>cpu_inst_cnt := 1, cpu_rf := rf, cpu_events := [1, 8], cpu_pc := pc\<rparr>, 0) \<and> pc = 64"
  using cpu_control_flow [of "ex_cpu []" "ex_instr BLT (ex_op 3 0) (ex_op 9 0) (ex_op 0 64)" slot_ops 7 0]
  by (simp add: branch_ops_def rv_branch_def) (simp add: ex_cpu_defs)


definition ex_halt :: "instr list" where
  "ex_halt = [ex_instr HCF (ex_op 0 0) (ex_op 0 0) (ex_op 0 0)]"

lemma ex_halt_run:
  "cpu_runs slot_ops default_config (boot default_config 0 [] ex_halt)
     \<lparr>sys_cpu = (cpu_init default_config 0 [])\<lparr>cpu_imem := ex_halt, cpu_inst_cnt := 1,
        cpu_events := [], cpu_pc := 4\<rparr>, sys_ctr = 0, sys_loads = []\<rparr>"
proof -
  let ?c = "(cpu_init default_config 0 [])\<lparr>cpu_imem := ex_halt\<rparr>"
  let ?i = "ex_instr HCF (ex_op 0 0) (ex_op 0 0) (ex_op 0 0)"
  have cls: "\<not> is_load (i_op ?i)" "\<not> is_store (i_op ?i)" "\<not> is_simd (i_op ?i)"
    by (simp_all add: op_class_defs)
  have f: "fetchInstr ?c (cpu_pc ?c) = Inr ?i"
    by (simp add: fetchInstr_def cpu_init_def ex_halt_def)
  have e: "execOneInstr slot_ops 1 0 (?c\<lparr>cpu_events := [] @ []\<rparr>) =
      Inr (?c\<lparr>cpu_inst_cnt := 1, cpu_events := [], cpu_pc := 4\<rparr>, 0)"
    using cls f by (simp add: execOneInstr_def fetchInstr_def processInstr_def Let_def exec_switch_def
        finish_instr_def commitInstr_def cpu_init_def)
  have "cpu_sys_step slot_ops default_config \<lparr>sys_cpu = ?c, sys_ctr = 0, sys_loads = []\<rparr>
      \<lparr>sys_cpu = ?c\<lparr>cpu_inst_cnt := 1, cpu_events := [], cpu_pc := 4\<rparr>, sys_ctr = 0,
       sys_loads = [] @ (if is_load (i_op ?i) then [?i] else [])\<rparr>"
    by (rule cpu_sys_step.Exec [where es = "[]" and fs = "[]" and t = 1, OF _ f e]) (simp add: cpu_init_def)
  then show ?thesis
    using cls by (intro r_into_rtranclp) (simp add: boot_def)
qed


text \<open>
  A run that has come to rest (the program executed \<open>HCF\<close> and nothing is outstanding) passes
  the assertion of \<open>cleanup\<close>, and \<open>cleanup\<close> dumps the bytes \<open>0x2000\<close> to \<open>0xEFFF\<close> of the memory, in
  order.
\<close>

lemma cpu_halt_cleanup:
  assumes "cpu_runs ops cfg (boot cfg now r prog) y" "tokens y = 0"
    and "mem_ok m" "0xF000 \<le> msize m" "msize m < 2 ^ 32"
  shows "cpu_cleanup m (sys_cpu y) = Inr (segment (mem m) 0x2000 0xD000)"
proof -
  have "cpu_request_queue (sys_cpu y) = []"
    using in_order_runs [OF assms(1) boot_in_order] assms(2) by (rule idle_queue)
  moreover have "dumpMemory m = Inr (segment (mem m) 0x2000 0xD000)"
    using dump_rows_segment [of m "0x2000" 6656] assms(3-5) by (simp add: dumpMemory_def)
  ultimately show ?thesis by (simp add: cpu_cleanup_def)
qed

text \<open>
  C24: when the retry of a queued store is taken, the store is committed and the program counter
  moves on, but the request stays at the front of the queue: the next retry sends and commits the
  same store again.
\<close>

theorem cpu_retried_store_repeats:
  assumes "\<not> isStalled ops (cpu_reg s)" "cpu_request_queue s = WriteReq p # q" "payloadList p = [w]"
    and "push ops (cpu_reg s) (WriteReq p) = (r, True)" "i_op (wq_instr w) \<noteq> HCF"
    and "\<not> isStalled ops r" "push ops r (WriteReq p) = (r', True)"
  shows "\<exists>s1 s2. cpu_masterPortRetry ops cfg now s = Inr s1 \<and> cpu_masterPortRetry ops cfg now s1 = Inr s2
    \<and> cpu_request_queue s2 = WriteReq p # q \<and> cpu_pc s2 = cpu_pc s + 8
    \<and> cpu_events s2 = cpu_events s @ [now + 1, now + 1]"
  using assms by (simp add: cpu_masterPortRetry_def)

definition ex_store_pkt :: "write_req_payload xbar_packet" where
  "ex_store_pkt = renew_packet 0 [\<lparr>wq_caller = ''cpu'', wq_tid = 0, wq_instr = blank_instr\<lparr>i_op := SW\<rparr>,
     wq_op = SW, wq_addr = 0, wq_data = 5\<rparr>] 0 0 (Some 0)"

theorem cpu_retried_store_repeats_witness:
  "\<exists>s1 s2. cpu_masterPortRetry free_ops default_config 3
       ((ex_cpu [])\<lparr>cpu_request_queue := [WriteReq ex_store_pkt]\<rparr>) = Inr s1
    \<and> cpu_masterPortRetry free_ops default_config 3 s1 = Inr s2
    \<and> cpu_request_queue s2 = [WriteReq ex_store_pkt] \<and> cpu_pc s2 = cpu_pc (ex_cpu []) + 8
    \<and> cpu_events s2 = cpu_events (ex_cpu []) @ [4, 4]"
  using cpu_retried_store_repeats [of free_ops "(ex_cpu [])\<lparr>cpu_request_queue := [WriteReq ex_store_pkt]\<rparr>"
      ex_store_pkt "[]" _ _ _ default_config 3]
  by (simp add: ex_store_pkt_def renew_packet_def)

section \<open>Departures from the manual\<close>

lemma cpu_sltu_adds:
  assumes "cpu_ok s" "reg_ok (i_a1 i)" "reg_ok (i_a2 i)" "reg_ok (i_a3 i)" "i_op i = SLTU"
  shows "exec_switch (cpu_rf s) pc i =
    Inr ((cpu_rf s)[nat (o_reg (i_a1 i)) := reg_of s (i_a2 i) + reg_of s (i_a3 i)], pc + 4)"
  using assms by (simp add: exec_switch_def exec_rr_def)

lemma cpu_shift_by_32_undefined:
  assumes "cpu_ok s" "reg_ok (i_a2 i)" "i_op i = SLLI" "32 \<le> unat (o_imm (i_a3 i))"
  shows "exec_switch (cpu_rf s) pc i = Inl UndefinedShift"
  using assms by (simp add: exec_switch_def exec_ri_def shl32_def)

lemma cpu_jal_writes_x0:
  assumes "cpu_ok s" "i_op i = JAL" "o_reg (i_a1 i) = 0"
  shows "exec_switch (cpu_rf s) pc i = Inr ((cpu_rf s)[0 := pc + 4], o_imm (i_a2 i))"
  using assms by (simp add: exec_switch_def reg_ok_def)

end
