(* ===== verification/RiscvCPU.thy ===== *)
theory RiscvCPU
  imports CPU
begin

text \<open>
  The functional core of the five-stage pipeline model (\<open>src/riscv/libs/CPU.cc\<close>,
  \<open>DataMemory.cc\<close>, \<open>MemPacket.cc\<close>, \<open>SOC.cc\<close>). One event executes one instruction completely, the
  data memory included, and hands an \<open>InstPacket\<close> to the timing stages over the master port
  \<open>sIF-m\<close>. Packets are objects of a recycling pool and the program holds pointers to them: here a
  pointer is a number and \<open>rv_pool\<close> maps it to the packet, so a write through one pointer is seen
  by every holder. Which object \<open>acquire\<close> hands out, and whether the port takes a packet, is
  decided by ACALSim: both are parameters.
\<close>

section \<open>Packets and the data memory\<close>

record inst_packet =
  ip_inst :: instr
  ip_pc :: u32
  ip_taken :: bool

definition ip_renew :: "instr \<Rightarrow> inst_packet \<Rightarrow> inst_packet" where
  "ip_renew i p = p\<lparr>ip_inst := i, ip_taken := False\<rparr>"

record rv_read_req =
  rvr_instr :: instr
  rvr_op :: instr_type
  rvr_addr :: u32
  rvr_a1 :: operand

record rv_write_req =
  rvw_instr :: instr
  rvw_op :: instr_type
  rvw_addr :: u32
  rvw_data :: u32

definition rv_memReadReqHandler :: "base_memory \<Rightarrow> rv_read_req \<Rightarrow> u32 result" where
  "rv_memReadReqHandler m p =
     bindE (readData m (rvr_addr p) (load_bytes (rvr_op p))) (\<lambda>bs. Inr (load_ext (rvr_op p) bs))"

definition rv_memWriteReqHandler :: "base_memory \<Rightarrow> rv_write_req \<Rightarrow> base_memory result" where
  "rv_memWriteReqHandler m p =
     (let n = store_bytes (rvw_op p)
      in if rvw_op p \<in> {SB, SH, SW} then writeData m (Some (bytes_of n (rvw_data p))) (rvw_addr p) n else Inr m)"

section \<open>State\<close>

record 'p port_ops =
  mp_push :: "'p \<Rightarrow> nat \<Rightarrow> 'p \<times> bool"

record 'p rvcpu =
  rv_imem :: "instr list"
  rv_rf :: "u32 list"
  rv_pc :: u32
  rv_inst_cnt :: int
  rv_pending :: "nat option"
  rv_dmem :: base_memory
  rv_pool :: "nat \<Rightarrow> inst_packet"
  rv_port :: 'p
  rv_events :: "nat list"

text \<open>The constructor of the CPU, with the data memory beside it; no event is scheduled yet.\<close>

definition rv_new :: "sim_config \<Rightarrow> (nat \<Rightarrow> inst_packet) \<Rightarrow> 'p \<Rightarrow> 'p rvcpu" where
  "rv_new cfg pool port =
     \<lparr>rv_imem = replicate (data_offset cfg div 4) blank_instr, rv_rf = replicate 32 0, rv_pc = 0, rv_inst_cnt = 0,
      rv_pending = None, rv_dmem = mem_new (memory_size cfg), rv_pool = pool, rv_port = port, rv_events = []\<rparr>"

definition rv_fetchInstr :: "'p rvcpu \<Rightarrow> u32 \<Rightarrow> instr result" where
  "rv_fetchInstr s pc = array_get ''imem'' (rv_imem s) (int (unat pc div 4))"

section \<open>Execution\<close>

definition rv_commitInstr :: "'p port_ops \<Rightarrow> nat \<Rightarrow> instr \<Rightarrow> nat \<Rightarrow> 'p rvcpu \<Rightarrow> 'p rvcpu" where
  "rv_commitInstr ops now i r s =
     (case mp_push ops (rv_port s) r of (port, ok) \<Rightarrow>
        if i_op i = HCF then (if ok then s\<lparr>rv_port := port\<rparr> else s\<lparr>rv_port := port, rv_pending := Some r\<rparr>)
        else if ok then s\<lparr>rv_port := port, rv_events := rv_events s @ [now + 1]\<rparr>
        else s\<lparr>rv_port := port, rv_pending := Some r\<rparr>)"

text \<open>
  \<open>memRead\<close> writes the loaded value to the register of the instruction. \<open>memWrite\<close> passes its
  packet to the memory through \<open>accept\<close>, whose \<open>visit\<close> calls the write handler.
\<close>

definition rv_memRead :: "base_memory \<Rightarrow> u32 list \<Rightarrow> instr \<Rightarrow> u32 \<Rightarrow> u32 list result" where
  "rv_memRead m rf i addr =
     bindE (rv_memReadReqHandler m \<lparr>rvr_instr = i, rvr_op = i_op i, rvr_addr = addr, rvr_a1 = i_a1 i\<rparr>) (\<lambda>data.
       rf_set rf (i_a1 i) data)"

definition rv_memWrite :: "base_memory \<Rightarrow> instr \<Rightarrow> u32 \<Rightarrow> u32 \<Rightarrow> base_memory result" where
  "rv_memWrite m i addr data =
     rv_memWriteReqHandler m \<lparr>rvw_instr = i, rvw_op = i_op i, rvw_addr = addr, rvw_data = data\<rparr>"

text \<open>
  The switch of \<open>processInstr\<close>: new register file, memory and \<open>pc_next\<close>. Its arithmetic, branch
  and jump cases are those of the SoC's CPU; the enumeration of this model has no \<open>MUL\<close>.
\<close>

definition rv_switch :: "u32 list \<Rightarrow> u32 \<Rightarrow> base_memory \<Rightarrow> instr \<Rightarrow> (u32 list \<times> base_memory \<times> u32) result" where
  "rv_switch rf pc m i =
     (if is_load (i_op i) then
        bindE (rf_get rf (i_a2 i)) (\<lambda>x.
          bindE (rv_memRead m rf i (x + o_imm (i_a3 i))) (\<lambda>rf'. Inr (rf', m, pc + 4)))
      else if is_store (i_op i) then
        bindE (rf_get rf (i_a2 i)) (\<lambda>x. bindE (rf_get rf (i_a1 i)) (\<lambda>v.
          bindE (rv_memWrite m i (x + o_imm (i_a3 i)) v) (\<lambda>m'. Inr (rf, m', pc + 4))))
      else if i_op i = MUL then Inr (rf, m, pc + 4)
      else bindE (exec_switch rf pc i) (\<lambda>(rf', pc_next). Inr (rf', m, pc_next)))"

text \<open>The flag \<open>isTakenBranch\<close> is set after the packet was pushed, through the shared pointer.\<close>

definition rv_processInstr :: "'p port_ops \<Rightarrow> nat \<Rightarrow> instr \<Rightarrow> nat \<Rightarrow> 'p rvcpu \<Rightarrow> 'p rvcpu result" where
  "rv_processInstr ops now i r s0 =
     (let s = s0\<lparr>rv_inst_cnt := rv_inst_cnt s0 + 1\<rparr>
      in bindE (rv_switch (rv_rf s) (rv_pc s) (rv_dmem s) i) (\<lambda>(rf, m, pc_next).
           (let s1 = rv_commitInstr ops now i r (s\<lparr>rv_rf := rf, rv_dmem := m\<rparr>);
                s2 = (if pc_next \<noteq> rv_pc s1 + 4
                      then s1\<lparr>rv_pool := (rv_pool s1)(r := (rv_pool s1 r)\<lparr>ip_taken := True\<rparr>)\<rparr> else s1)
            in Inr (s2\<lparr>rv_pc := pc_next\<rparr>))))"

definition rv_execOneInstr :: "'p port_ops \<Rightarrow> nat \<Rightarrow> nat \<Rightarrow> 'p rvcpu \<Rightarrow> 'p rvcpu result" where
  "rv_execOneInstr ops now r s =
     bindE (rv_fetchInstr s (rv_pc s)) (\<lambda>i.
       rv_processInstr ops now i r
         (s\<lparr>rv_pool := (rv_pool s)(r := (ip_renew i (rv_pool s r))\<lparr>ip_pc := rv_pc s\<rparr>)\<rparr>))"

definition retrySendInstPacket :: "'p port_ops \<Rightarrow> sim_config \<Rightarrow> nat \<Rightarrow> 'p rvcpu \<Rightarrow> 'p rvcpu result" where
  "retrySendInstPacket ops cfg now s =
     (case rv_pending s of
        None \<Rightarrow> Inr s
      | Some r \<Rightarrow>
          (case mp_push ops (rv_port s) r of (port, ok) \<Rightarrow>
             if ok then
               (if i_op (ip_inst (rv_pool s r)) = HCF then Inr (s\<lparr>rv_port := port, rv_pending := None\<rparr>)
                else Inr (s\<lparr>rv_port := port, rv_events := rv_events s @ [now + 1], rv_pending := None\<rparr>))
             else log_error cfg ''CPU::retrySendInstPacket() failed!'' (Inr (s\<lparr>rv_port := port\<rparr>))))"

definition rv_masterPortRetry :: "'p port_ops \<Rightarrow> sim_config \<Rightarrow> nat \<Rightarrow> string \<Rightarrow> 'p rvcpu \<Rightarrow> 'p rvcpu result" where
  "rv_masterPortRetry ops cfg now port_name s =
     (if port_name = ''sIF-m'' then retrySendInstPacket ops cfg now s else Inr s)"

text \<open>The names this model logs: those of the SoC, without the operations it does not have.\<close>

definition rv_instrToString :: "instr_type \<Rightarrow> string" where
  "rv_instrToString ty = (if is_simd ty then ''UNKNOWN'' else instrToString ty)"

section \<open>The instruction set as an abstract machine\<close>

text \<open>
  The reference: registers, program counter and memory of RV32I, with \<open>MUL\<close> and the SIMD operations
  of the SoC. Writes to \<open>x0\<close> are dropped,
  shift amounts are taken modulo 32 and \<open>JALR\<close> reads its base before it writes the link. Branch
  and jump targets are absolute, as the assembler leaves them.
\<close>

record isa =
  isa_rf :: "u32 list"
  isa_pc :: u32
  isa_mem :: base_memory

definition isa_write :: "operand \<Rightarrow> u32 \<Rightarrow> u32 list \<Rightarrow> u32 list" where
  "isa_write a v rf = (if o_reg a = 0 then rf else rf[nat (o_reg a) := v])"

definition isa_step :: "instr \<Rightarrow> isa \<Rightarrow> isa result" where
  "isa_step i t =
     (let r = (\<lambda>a. isa_rf t ! nat (o_reg a)); next = isa_pc t + 4;
          addr = r (i_a2 i) + o_imm (i_a3 i);
          alu = (\<lambda>v. Inr (t\<lparr>isa_rf := isa_write (i_a1 i) v (isa_rf t), isa_pc := next\<rparr>))
      in if i_op i \<in> alu_rr then alu (rv_alu (i_op i) (r (i_a2 i)) (r (i_a3 i)))
         else if i_op i \<in> alu_ri then alu (rv_alu (i_op i) (r (i_a2 i)) (o_imm (i_a3 i)))
         else if is_simd (i_op i) then alu (simd_alu (i_op i) (r (i_a2 i)) (r (i_a3 i)))
         else if i_op i = LUI then alu (push_bit 12 (o_imm (i_a2 i)))
         else if i_op i = AUIPC then alu (isa_pc t + push_bit 12 (o_imm (i_a2 i)))
         else if is_load (i_op i) then bindE (bm.load_at (isa_mem t) (i_op i) addr) alu
         else if is_store (i_op i) then
           bindE (bm.store_at (isa_mem t) (i_op i) addr (r (i_a1 i))) (\<lambda>m. Inr (t\<lparr>isa_mem := m, isa_pc := next\<rparr>))
         else if i_op i \<in> branch_ops then
           Inr (t\<lparr>isa_pc := if rv_branch (i_op i) (r (i_a1 i)) (r (i_a2 i)) then o_imm (i_a3 i) else next\<rparr>)
         else if i_op i = JAL then Inr (t\<lparr>isa_rf := isa_write (i_a1 i) next (isa_rf t), isa_pc := o_imm (i_a2 i)\<rparr>)
         else if i_op i = JALR then Inr (t\<lparr>isa_rf := isa_write (i_a1 i) next (isa_rf t), isa_pc := addr\<rparr>)
         else Inr (t\<lparr>isa_pc := next\<rparr>))"

text \<open>
  The instructions on which the programs and the reference agree: operands name registers, the
  destination is not \<open>x0\<close>, the shift amount is below 32, \<open>JALR\<close> does not link over its base, and
  the operation is not \<open>SLTU\<close> (which adds). The pipeline model has no \<open>MUL\<close> and no SIMD operations.
\<close>

definition writes_rd :: "instr_type \<Rightarrow> bool" where
  "writes_rd ty \<longleftrightarrow> ty \<in> alu_rr \<union> alu_ri \<union> {LUI, AUIPC, JAL, JALR} \<or> is_load ty"

definition reads_rs1 :: "instr_type \<Rightarrow> bool" where
  "reads_rs1 ty \<longleftrightarrow> ty \<in> alu_rr \<union> alu_ri \<union> branch_ops \<union> {JALR} \<or> is_load ty \<or> is_store ty"

definition isa_regular :: "isa \<Rightarrow> instr \<Rightarrow> bool" where
  "isa_regular t i \<longleftrightarrow>
     i_op i \<noteq> SLTU
     \<and> (writes_rd (i_op i) \<or> is_store (i_op i) \<or> i_op i \<in> branch_ops \<longrightarrow> reg_ok (i_a1 i))
     \<and> (reads_rs1 (i_op i) \<longrightarrow> reg_ok (i_a2 i)) \<and> (i_op i \<in> alu_rr \<longrightarrow> reg_ok (i_a3 i))
     \<and> (writes_rd (i_op i) \<longrightarrow> o_reg (i_a1 i) \<noteq> 0)
     \<and> (i_op i \<in> {SLL, SRL, SRA} \<longrightarrow> unat (isa_rf t ! nat (o_reg (i_a3 i))) < 32)
     \<and> (i_op i \<in> {SLLI, SRLI, SRAI} \<longrightarrow> unat (o_imm (i_a3 i)) < 32)
     \<and> (i_op i = JALR \<longrightarrow> o_reg (i_a1 i) \<noteq> o_reg (i_a2 i))"

definition rv_regular :: "isa \<Rightarrow> instr \<Rightarrow> bool" where
  "rv_regular t i \<longleftrightarrow> isa_regular t i \<and> i_op i \<noteq> MUL \<and> \<not> is_simd (i_op i)"

definition rv_abs :: "'p rvcpu \<Rightarrow> isa" where
  "rv_abs s = \<lparr>isa_rf = rv_rf s, isa_pc = rv_pc s, isa_mem = rv_dmem s\<rparr>"

lemma rv_mem_handlers:
  "rv_memReadReqHandler m \<lparr>rvr_instr = i, rvr_op = ld, rvr_addr = a, rvr_a1 = x\<rparr> = bm.load_at m ld a"
  "is_store st \<Longrightarrow> rv_memWriteReqHandler m \<lparr>rvw_instr = i, rvw_op = st, rvw_addr = a, rvw_data = v\<rparr> = bm.store_at m st a v"
  by (auto simp: rv_memReadReqHandler_def rv_memWriteReqHandler_def bm.load_at_def bm.store_at_def write_bytes_def is_store_def)

text \<open>The switch computes the reference step, errors of the memory included.\<close>

lemma rf_list_access:
  "length rf = 32 \<Longrightarrow> reg_ok a \<Longrightarrow> rf_get rf a = Inr (rf ! nat (o_reg a))"
  "length rf = 32 \<Longrightarrow> reg_ok a \<Longrightarrow> rf_set rf a v = Inr (rf[nat (o_reg a) := v])"
  by (simp_all add: reg_ok_def rf_get_def rf_set_def)

lemma exec_switch_isa:
  assumes "length (isa_rf t) = 32" "isa_regular t i" "\<not> is_load (i_op i)" "\<not> is_store (i_op i)" "\<not> is_simd (i_op i)"
  shows "bindE (exec_switch (isa_rf t) (isa_pc t) i) (\<lambda>(rf, pc). Inr (t\<lparr>isa_rf := rf, isa_pc := pc\<rparr>)) = isa_step i t"
  using assms
  by (cases "i_op i")
    (auto simp: rf_list_access isa_regular_def isa_step_def op_class_defs writes_rd_def reads_rs1_def isa_write_def Let_def
      exec_switch_def exec_rr_def exec_ri_def exec_br_def rv_alu_def rv_branch_def shifts_small reg_ok_def
      rf_get_def nth_list_update eq_nat_nat_iff)

lemma rv_switch_isa:
  assumes "length (isa_rf t) = 32" "rv_regular t i"
  shows "bindE (rv_switch (isa_rf t) (isa_pc t) (isa_mem t) i)
      (\<lambda>(rf, m, pc). Inr \<lparr>isa_rf = rf, isa_pc = pc, isa_mem = m\<rparr>) = isa_step i t"
proof -
  obtain rf pc m where t: "t = \<lparr>isa_rf = rf, isa_pc = pc, isa_mem = m\<rparr>" by (cases t)
  have len: "length rf = 32" using assms(1) by (simp add: t)
  note regs = rf_list_access [OF len]
  note defs = rv_switch_def regs rv_regular_def isa_regular_def isa_step_def op_class_defs writes_rd_def reads_rs1_def isa_write_def Let_def t
  consider "is_load (i_op i)" | "is_store (i_op i)" | "\<not> is_load (i_op i)" "\<not> is_store (i_op i)" by blast
  then show ?thesis
  proof cases
    case 1
    then show ?thesis using assms(2)
      by (cases "i_op i") (auto simp: rv_memRead_def rv_mem_handlers bindE_assoc defs)
  next
    case 2
    note stores = rv_mem_handlers(2) [unfolded is_store_def]
    from 2 show ?thesis using assms(2)
      by (cases "i_op i") (auto simp: rv_memWrite_def stores bindE_assoc defs)
  next
    case 3
    moreover have "isa_regular t i" "i_op i \<noteq> MUL" "\<not> is_simd (i_op i)" using assms(2) by (simp_all add: rv_regular_def)
    ultimately show ?thesis
      using exec_switch_isa [OF assms(1), of i] by (simp add: rv_switch_def bindE_assoc split_def t)
  qed
qed

section \<open>Steps and runs\<close>

lemma rv_commit_frame [simp]:
  "rv_rf (rv_commitInstr ops now i r s) = rv_rf s" "rv_pc (rv_commitInstr ops now i r s) = rv_pc s"
  "rv_dmem (rv_commitInstr ops now i r s) = rv_dmem s" "rv_imem (rv_commitInstr ops now i r s) = rv_imem s"
  "rv_inst_cnt (rv_commitInstr ops now i r s) = rv_inst_cnt s" "rv_pool (rv_commitInstr ops now i r s) = rv_pool s"
  by (simp_all add: rv_commitInstr_def split: prod.split)

text \<open>The effect of one execution, the switch given.\<close>

lemma rv_exec_effect:
  assumes "rv_fetchInstr s (rv_pc s) = Inr i"
  shows "rv_execOneInstr ops now r s =
    bindE (rv_switch (rv_rf s) (rv_pc s) (rv_dmem s) i) (\<lambda>(rf, m, pc).
      Inr (rv_commitInstr ops now i r s
        \<lparr>rv_rf := rf, rv_pc := pc, rv_inst_cnt := rv_inst_cnt s + 1, rv_dmem := m,
         rv_pool := (rv_pool s)(r := (rv_pool s r)\<lparr>ip_inst := i, ip_pc := rv_pc s, ip_taken := pc \<noteq> rv_pc s + 4\<rparr>)\<rparr>))"
  by (cases "rv_switch (rv_rf s) (rv_pc s) (rv_dmem s) i"; cases "mp_push ops (rv_port s) r";
      cases "rv_pool s r"; cases s)
    (use assms in \<open>auto simp: rv_execOneInstr_def rv_processInstr_def rv_commitInstr_def ip_renew_def Let_def\<close>)

lemma rv_exec_imem: "rv_execOneInstr ops now r s = Inr s' \<Longrightarrow> rv_imem s' = rv_imem s"
  by (auto simp: rv_execOneInstr_def rv_processInstr_def Let_def result_simps)

lemma rv_switch_length: "rv_switch rf pc m i = Inr (rf', m', pc') \<Longrightarrow> length rf' = length rf"
  by (auto simp: rv_switch_def rv_memRead_def result_simps dest: rf_set_length exec_switch_length split: if_splits)

lemma rv_exec_isa:
  assumes "length (rv_rf s) = 32" "rv_fetchInstr s (rv_pc s) = Inr i" "rv_regular (rv_abs s) i"
  shows "bindE (rv_execOneInstr ops now r s) (\<lambda>s'. Inr (rv_abs s')) = isa_step i (rv_abs s)
    \<and> (\<forall>s'. rv_execOneInstr ops now r s = Inr s' \<longrightarrow>
         rv_pool s' r = (rv_pool s r)\<lparr>ip_inst := i, ip_pc := rv_pc s, ip_taken := rv_pc s' \<noteq> rv_pc s + 4\<rparr>
         \<and> rv_inst_cnt s' = rv_inst_cnt s + 1 \<and> length (rv_rf s') = 32
         \<and> rv_port s' = fst (mp_push ops (rv_port s) r)
         \<and> (if snd (mp_push ops (rv_port s) r)
             then rv_pending s' = rv_pending s \<and> rv_events s' = rv_events s @ (if i_op i = HCF then [] else [now + 1])
             else rv_pending s' = Some r \<and> rv_events s' = rv_events s))"
proof -
  have "bindE (rv_switch (rv_rf s) (rv_pc s) (rv_dmem s) i)
      (\<lambda>(rf, m, pc). Inr \<lparr>isa_rf = rf, isa_pc = pc, isa_mem = m\<rparr>) = isa_step i (rv_abs s)"
    using rv_switch_isa [of "rv_abs s" i] assms by (simp add: rv_abs_def)
  then have "bindE (rv_execOneInstr ops now r s) (\<lambda>s'. Inr (rv_abs s')) = isa_step i (rv_abs s)"
    by (cases "rv_switch (rv_rf s) (rv_pc s) (rv_dmem s) i")
      (auto simp: rv_exec_effect [OF assms(2)] rv_abs_def)
  then show ?thesis
    using assms(1)
    by (cases "mp_push ops (rv_port s) r")
      (auto simp: rv_exec_effect [OF assms(2)] result_simps rv_commitInstr_def dest: rv_switch_length)
qed

text \<open>
  C16: executing a regular instruction is one step of the RV32I reference, loads and stores included:
  same registers, memory and program counter, or the same memory error. Regular (\<open>rv_regular\<close>) means
  neither \<open>SLTU\<close>, \<open>MUL\<close> nor a SIMD operation, registers below 32, a destination other than \<open>x0\<close>, a shift amount
  below 32, and for \<open>JALR\<close> a destination other than its base; on the others the code departs from the manual. On success the packet handed to the timing stages carries
  the instruction, its address and whether control left the sequential path.
\<close>

theorem rv_exec_refines_isa:
  assumes "length (rv_rf s) = 32" "rv_fetchInstr s (rv_pc s) = Inr i" "rv_regular (rv_abs s) i"
  shows "bindE (rv_execOneInstr ops now r s) (\<lambda>s'. Inr (rv_abs s')) = isa_step i (rv_abs s)
    \<and> (\<forall>s'. rv_execOneInstr ops now r s = Inr s' \<longrightarrow>
         rv_pool s' r = (rv_pool s r)\<lparr>ip_inst := i, ip_pc := rv_pc s, ip_taken := rv_pc s' \<noteq> rv_pc s + 4\<rparr>
         \<and> rv_inst_cnt s' = rv_inst_cnt s + 1 \<and> length (rv_rf s') = 32
         \<and> rv_port s' = fst (mp_push ops (rv_port s) r)
         \<and> (if snd (mp_push ops (rv_port s) r)
             then rv_pending s' = rv_pending s \<and> rv_events s' = rv_events s @ (if i_op i = HCF then [] else [now + 1])
             else rv_pending s' = Some r \<and> rv_events s' = rv_events s))"
  by (rule rv_exec_isa [OF assms])

definition rv_slot_ops :: "nat list port_ops" where
  "rv_slot_ops = \<lparr>mp_push = (\<lambda>q r. if q = [] then ([r], True) else (q, False))\<rparr>"

definition rv_reg :: "int \<Rightarrow> operand" where
  "rv_reg n = blank_operand\<lparr>o_type := OPTYPE_REG, o_reg := n\<rparr>"

definition rv_imm :: "u32 \<Rightarrow> operand" where
  "rv_imm v = blank_operand\<lparr>o_type := OPTYPE_IMM, o_imm := v\<rparr>"

definition rv_prog :: "instr list" where
  "rv_prog =
    [blank_instr\<lparr>i_op := ADDI, i_a1 := rv_reg 5, i_a2 := rv_reg 0, i_a3 := rv_imm 7\<rparr>,
     blank_instr\<lparr>i_op := SW, i_a1 := rv_reg 5, i_a2 := rv_reg 0, i_a3 := rv_imm 8\<rparr>,
     blank_instr\<lparr>i_op := HCF\<rparr>]"

definition ex_rv :: "nat list rvcpu" where
  "ex_rv = \<lparr>rv_imem = rv_prog, rv_rf = replicate 32 0, rv_pc = 0, rv_inst_cnt = 0, rv_pending = None,
     rv_dmem = mem_new 16, rv_pool = (\<lambda>_. \<lparr>ip_inst = blank_instr, ip_pc = 0, ip_taken = False\<rparr>), rv_port = [],
     rv_events = [1]\<rparr>"

theorem rv_exec_refines_isa_witness:
  "bindE (rv_execOneInstr rv_slot_ops 1 0 ex_rv) (\<lambda>s'. Inr (rv_abs s')) = isa_step (rv_prog ! 0) (rv_abs ex_rv)"
proof -
  have "rv_fetchInstr ex_rv (rv_pc ex_rv) = Inr (rv_prog ! 0)"
    by (simp add: rv_fetchInstr_def ex_rv_def rv_prog_def)
  moreover have "rv_regular (rv_abs ex_rv) (rv_prog ! 0)"
    by (simp add: rv_regular_def isa_regular_def rv_prog_def rv_reg_def rv_imm_def reg_ok_def op_class_defs reads_rs1_def writes_rd_def blank_instr_def)
  moreover have "length (rv_rf ex_rv) = 32" by (simp add: ex_rv_def)
  ultimately show ?thesis using rv_exec_refines_isa by blast
qed

text \<open>
  The core with its environment: a step is the next \<open>ExecOneInstrEvent\<close>, which receives some
  packet object of the pool, or a retry of the master port.
\<close>

inductive rv_sys_step :: "'p port_ops \<Rightarrow> sim_config \<Rightarrow> 'p rvcpu \<Rightarrow> 'p rvcpu \<Rightarrow> bool" for ops cfg where
  Exec: "rv_events s = t # es \<Longrightarrow> rv_execOneInstr ops t r (s\<lparr>rv_events := es\<rparr>) = Inr s' \<Longrightarrow> rv_sys_step ops cfg s s'"
| Retry: "rv_masterPortRetry ops cfg now ''sIF-m'' s = Inr s' \<Longrightarrow> rv_sys_step ops cfg s s'"

fun isa_run :: "instr list \<Rightarrow> nat \<Rightarrow> isa \<Rightarrow> isa result" where
  "isa_run im 0 t = Inr t"
| "isa_run im (Suc n) t =
     bindE (isa_run im n t) (\<lambda>u. bindE (array_get ''imem'' im (int (unat (isa_pc u) div 4))) (\<lambda>i. isa_step i u))"

definition regular_program :: "instr list \<Rightarrow> isa \<Rightarrow> bool" where
  "regular_program im t \<longleftrightarrow>
     (\<forall>n u i. isa_run im n t = Inr u \<longrightarrow> array_get ''imem'' im (int (unat (isa_pc u) div 4)) = Inr i \<longrightarrow> rv_regular u i)"

text \<open>The instruction executed last, and the state of the hand-over that goes with it.\<close>

definition last_instr :: "instr list \<Rightarrow> isa \<Rightarrow> nat \<Rightarrow> instr \<Rightarrow> bool" where
  "last_instr im t n i \<longleftrightarrow>
     (\<exists>u. isa_run im n t = Inr u \<and> array_get ''imem'' im (int (unat (isa_pc u) div 4)) = Inr i)"

definition rv_tracks :: "instr list \<Rightarrow> isa \<Rightarrow> 'p rvcpu \<Rightarrow> bool" where
  "rv_tracks im t s \<longleftrightarrow>
     rv_imem s = im \<and> length (rv_rf s) = 32 \<and> 0 \<le> rv_inst_cnt s
     \<and> isa_run im (nat (rv_inst_cnt s)) t = Inr (rv_abs s)
     \<and> length (rv_events s) + (if rv_pending s = None then 0 else 1) \<le> 1
     \<and> (rv_events s = [] \<longrightarrow> 0 < rv_inst_cnt s
          \<and> (\<exists>i. last_instr im t (nat (rv_inst_cnt s) - 1) i
                \<and> (case rv_pending s of None \<Rightarrow> i_op i = HCF | Some r \<Rightarrow> ip_inst (rv_pool s r) = i)))"

lemma rv_tracks_exec:
  assumes "rv_tracks im t0 s" "rv_events s = t # es" "rv_execOneInstr ops t r (s\<lparr>rv_events := es\<rparr>) = Inr s'"
    and "regular_program im t0"
  shows "rv_tracks im t0 s'"
proof -
  let ?s = "s\<lparr>rv_events := es\<rparr>" and ?n = "nat (rv_inst_cnt s)"
  have s: "rv_imem s = im" "length (rv_rf s) = 32" "es = []" "rv_pending s = None" "0 \<le> rv_inst_cnt s"
    "isa_run im ?n t0 = Inr (rv_abs s)"
    using assms(1,2) by (auto simp: rv_tracks_def split: if_splits)
  obtain i where i: "rv_fetchInstr ?s (rv_pc ?s) = Inr i"
    using assms(3) by (auto simp: rv_execOneInstr_def result_simps)
  have abs: "rv_abs ?s = rv_abs s" by (simp add: rv_abs_def)
  have get: "array_get ''imem'' im (int (unat (isa_pc (rv_abs s)) div 4)) = Inr i"
    using i s(1) by (simp add: rv_fetchInstr_def rv_abs_def)
  have "rv_regular (rv_abs ?s) i"
    using assms(4) s(6) get unfolding regular_program_def abs by blast
  from rv_exec_isa [OF _ i this, of ops t r] assms(3) s(2)
  have step: "isa_step i (rv_abs s) = Inr (rv_abs s')"
    and s': "rv_inst_cnt s' = rv_inst_cnt s + 1" "length (rv_rf s') = 32" "ip_inst (rv_pool s' r) = i"
      "if snd (mp_push ops (rv_port s) r)
       then rv_pending s' = None \<and> rv_events s' = (if i_op i = HCF then [] else [t + 1])
       else rv_pending s' = Some r \<and> rv_events s' = []"
    using s abs by (simp_all add: abs [unfolded s(3)])
  have "rv_imem s' = im" using rv_exec_imem [OF assms(3)] s(1) by simp
  moreover have "isa_run im (nat (rv_inst_cnt s')) t0 = Inr (rv_abs s')"
    using s(5,6) get step s'(1) by (simp add: nat_add_distrib)
  moreover have "last_instr im t0 ?n i" using s(6) get by (auto simp: last_instr_def)
  ultimately show ?thesis
    using s s' by (auto simp: rv_tracks_def nat_add_distrib split: if_splits)
qed

lemma rv_tracks_retry:
  assumes "rv_tracks im t0 s" "rv_masterPortRetry ops cfg now ''sIF-m'' s = Inr s'"
  shows "rv_tracks im t0 s'"
proof (cases "rv_pending s")
  case None
  then show ?thesis using assms by (simp add: rv_masterPortRetry_def retrySendInstPacket_def)
next
  case (Some r)
  obtain port ok where push: "mp_push ops (rv_port s) r = (port, ok)" by fastforce
  have ev: "rv_events s = []" using assms(1) Some by (simp add: rv_tracks_def)
  show ?thesis
  proof (cases ok)
    case True
    then have "s' = s\<lparr>rv_port := port, rv_events := (if i_op (ip_inst (rv_pool s r)) = HCF then [] else [now + 1]), rv_pending := None\<rparr>"
      using assms(2) Some push ev by (auto simp: rv_masterPortRetry_def retrySendInstPacket_def split: if_splits)
    then show ?thesis using assms(1) Some ev by (auto simp: rv_tracks_def rv_abs_def)
  next
    case False
    then have "s' = s\<lparr>rv_port := port\<rparr>"
      using assms(2) Some push by (auto simp: rv_masterPortRetry_def retrySendInstPacket_def log_error_def split: if_splits)
    then show ?thesis using assms(1) Some by (auto simp: rv_tracks_def rv_abs_def)
  qed
qed

lemma rv_runs_track:
  assumes "(rv_sys_step ops cfg)\<^sup>*\<^sup>* s0 s" "regular_program (rv_imem s0) (rv_abs s0)"
    and "length (rv_rf s0) = 32" "rv_inst_cnt s0 = 0" "rv_events s0 = [t]" "rv_pending s0 = None"
  shows "rv_tracks (rv_imem s0) (rv_abs s0) s"
  using assms(1)
proof (induction rule: rtranclp_induct)
  case base
  then show ?case using assms(3-) by (simp add: rv_tracks_def)
next
  case (step s s')
  from step(2,3) show ?case
    by (cases rule: rv_sys_step.cases) (auto intro: rv_tracks_exec [OF _ _ _ assms(2)] rv_tracks_retry)
qed

text \<open>
  C17: for a regular program (every instruction the reference executes is \<open>rv_regular\<close>: no \<open>SLTU\<close>, \<open>MUL\<close> or
  SIMD operation, no result to \<open>x0\<close>, shifts by less than 32, no \<open>JALR\<close> that writes its own base), in every
  run of the core from its trigger event, with any backpressure of the timing stages, the architectural state is the state of the RV32I reference after as many instructions as the
  counter says; at most one next-instruction event or packet is outstanding; and the core comes
  to rest only after \<open>HCF\<close>.
\<close>

theorem rv_runs_refine_isa:
  assumes "(rv_sys_step ops cfg)\<^sup>*\<^sup>* s0 s" "regular_program (rv_imem s0) (rv_abs s0)"
    and "length (rv_rf s0) = 32" "rv_inst_cnt s0 = 0" "rv_events s0 = [t]" "rv_pending s0 = None"
  shows "isa_run (rv_imem s0) (nat (rv_inst_cnt s)) (rv_abs s0) = Inr (rv_abs s)
    \<and> length (rv_events s) + (if rv_pending s = None then 0 else 1) \<le> 1
    \<and> (rv_events s = [] \<and> rv_pending s = None \<longrightarrow>
         (\<exists>i. last_instr (rv_imem s0) (rv_abs s0) (nat (rv_inst_cnt s) - 1) i \<and> i_op i = HCF))"
  using rv_runs_track [OF assms] by (auto simp: rv_tracks_def)

definition rv_free_ops :: "nat list port_ops" where
  "rv_free_ops = \<lparr>mp_push = (\<lambda>q r. (q @ [r], True))\<rparr>"

lemma ex_rv_regular: "regular_program rv_prog (rv_abs ex_rv)"
proof -
  have "\<forall>i \<in> set rv_prog. rv_regular u i" for u
    by (simp add: rv_regular_def isa_regular_def rv_prog_def rv_reg_def rv_imm_def reg_ok_def op_class_defs reads_rs1_def writes_rd_def blank_instr_def)
  moreover have "i \<in> set rv_prog" if "array_get ''imem'' rv_prog k = Inr i" for k i
    using that by (auto simp: array_get_def split: if_splits)
  ultimately show ?thesis unfolding regular_program_def by blast
qed

lemma ex_rv_step: "\<exists>s. (rv_sys_step rv_free_ops default_config)\<^sup>*\<^sup>* ex_rv s \<and> rv_inst_cnt s = 1"
proof -
  let ?i = "rv_prog ! 0" and ?s = "ex_rv\<lparr>rv_events := []\<rparr>"
  have abs: "rv_abs ?s = rv_abs ex_rv" by (simp add: rv_abs_def)
  have fetch: "rv_fetchInstr ?s (rv_pc ?s) = Inr ?i"
    by (simp add: rv_fetchInstr_def ex_rv_def rv_prog_def)
  have "rv_regular (rv_abs ?s) ?i" unfolding abs
    by (simp add: rv_regular_def isa_regular_def rv_prog_def rv_reg_def rv_imm_def reg_ok_def op_class_defs reads_rs1_def writes_rd_def blank_instr_def)
  note exec = rv_exec_isa [OF _ fetch this, of rv_free_ops 1 0]
  have "\<exists>u. isa_step ?i (rv_abs ex_rv) = Inr u"
    by (simp add: isa_step_def rv_prog_def op_class_defs Let_def)
  with exec abs obtain s where s: "rv_execOneInstr rv_free_ops 1 0 ?s = Inr s" "rv_inst_cnt s = 1"
    by (auto simp: result_simps ex_rv_def split: if_splits)
  then have run: "(rv_sys_step rv_free_ops default_config)\<^sup>*\<^sup>* ex_rv s"
    by (intro r_into_rtranclp Exec) (auto simp: ex_rv_def)
  with s(2) show ?thesis by blast
qed

theorem rv_runs_refine_isa_witness:
  "\<exists>s. (rv_sys_step rv_free_ops default_config)\<^sup>*\<^sup>* ex_rv s \<and> rv_inst_cnt s = 1
    \<and> isa_run rv_prog 1 (rv_abs ex_rv) = Inr (rv_abs s) \<and> length (rv_events s) \<le> 1"
proof -
  obtain s where run: "(rv_sys_step rv_free_ops default_config)\<^sup>*\<^sup>* ex_rv s" and cnt: "rv_inst_cnt s = 1" using ex_rv_step by blast
  have "rv_imem ex_rv = rv_prog" by (simp add: ex_rv_def)
  with rv_runs_refine_isa [OF run, of 1] ex_rv_regular cnt have
    "isa_run rv_prog 1 (rv_abs ex_rv) = Inr (rv_abs s)" "length (rv_events s) \<le> 1"
    by (simp_all add: ex_rv_def)
  with run cnt show ?thesis by blast
qed

end
