(* ===== verification/MMIO.thy ===== *)
theory MMIO
  imports Prelude
begin

text \<open>
  The interface of a device with memory-mapped registers. The client (the CPU, or the systolic
  array programming the DMA) writes registers and reads them back; \<open>view a v\<close> is what register \<open>a\<close>
  shows after \<open>v\<close> was written to it. The interface is interpreted on the configuration registers
  of the DMA controller and of the systolic array.
\<close>

locale mmio =
  fixes rd :: "'s \<Rightarrow> u32 \<Rightarrow> u32 option"
    and wr :: "'s \<Rightarrow> u32 \<Rightarrow> u32 \<Rightarrow> 's result"
    and regs :: "u32 set"
    and view :: "u32 \<Rightarrow> u32 \<Rightarrow> u32"
  assumes wr_total: "a \<in> regs \<Longrightarrow> \<exists>s'. wr s a v = Inr s'"
    and rd_same: "a \<in> regs \<Longrightarrow> wr s a v = Inr s' \<Longrightarrow> rd s' a = Some (view a v)"
    and rd_other: "a \<in> regs \<Longrightarrow> b \<in> regs \<Longrightarrow> b \<noteq> a \<Longrightarrow> wr s a v = Inr s' \<Longrightarrow> rd s' b = rd s b"
begin

text \<open>A driver writes a list of registers one after the other.\<close>

fun program :: "'s \<Rightarrow> (u32 \<times> u32) list \<Rightarrow> 's result" where
  "program s [] = Inr s"
| "program s ((a, v) # avs) = bindE (wr s a v) (\<lambda>s'. program s' avs)"

lemma program_total: "fst ` set avs \<subseteq> regs \<Longrightarrow> \<exists>s'. program s avs = Inr s'"
proof (induction avs arbitrary: s)
  case (Cons av avs)
  obtain a v where av: "av = (a, v)" by fastforce
  with Cons.prems obtain s1 where "wr s a v = Inr s1" using wr_total by fastforce
  then show ?case using Cons.IH [of s1] Cons.prems av by auto
qed simp

text \<open>Afterwards each register shows the last value written to it, and the others what they showed.\<close>

lemma program_reads:
  "fst ` set avs \<subseteq> regs \<Longrightarrow> b \<in> regs \<Longrightarrow> program s avs = Inr s' \<Longrightarrow>
   rd s' b = (case map_of (rev avs) b of None \<Rightarrow> rd s b | Some v \<Rightarrow> Some (view b v))"
proof (induction avs arbitrary: s)
  case Nil
  then show ?case by simp
next
  case (Cons av avs)
  obtain a v where av: "av = (a, v)" by fastforce
  with Cons.prems obtain s1 where s1: "wr s a v = Inr s1" "program s1 avs = Inr s'"
    by (auto simp: result_simps)
  have "rd s1 b = (if b = a then Some (view a v) else rd s b)"
    using Cons.prems av s1(1) rd_same rd_other by auto
  then show ?case using Cons.IH [OF _ _ s1(2)] Cons.prems av
    by (auto simp: map_add_def split: option.splits)
qed

text \<open>The same driver written as a loop: it is served, and a register it wrote shows the last value.\<close>

lemma foldl_program:
  "foldl (\<lambda>r (a, v). bindE r (\<lambda>s. wr s a v)) r avs = bindE r (\<lambda>s. program s avs)"
proof (induction avs arbitrary: r)
  case Nil
  then show ?case by (cases r) simp_all
next
  case (Cons av avs)
  then show ?case by (cases av; cases r) (simp_all add: bindE_assoc)
qed

lemma driver_readback:
  assumes "fst ` set avs \<subseteq> regs" "map_of (rev avs) b = Some v"
  shows "\<exists>s'. foldl (\<lambda>r (a, v). bindE r (\<lambda>s. wr s a v)) (Inr s) avs = Inr s' \<and> rd s' b = Some (view b v)"
proof -
  obtain s' where s': "program s avs = Inr s'" using program_total [OF assms(1)] by blast
  have "b \<in> regs" using assms(1) map_of_SomeD [OF assms(2)] by force
  from program_reads [OF assms(1) this s'] show ?thesis using s' assms(2) by (simp add: foldl_program)
qed

end

end
