(* ===== verification/DMA.thy ===== *)
theory DMA
  imports XBarPacket MMIO
begin

text \<open>
  The DMA controller (\<open>soc/include/DMA.hh\<close>, \<open>soc/libs/DMA.cc\<close>): memory-mapped registers, a
  transfer that alternates between filling a buffer of 256 words with read bursts and emptying
  it with write bursts, and two queues for packets the pipe registers did not take. The counters
  are \<open>int\<close> in the code and only grow from 0, except \<open>pendingBusWriteResponses\<close>, which can become
  negative. The constructor initialises no field, so a state is an argument of every operation.
\<close>

section \<open>State\<close>

datatype DmaState = IDLE | READING | WRITING

datatype dma_event =
    DmaReadMMIO read_req_payload
  | DmaTrySend
  | DmaScheduleReads
  | DmaScheduleWrites

record 'r dma =
  m_req :: 'r
  m_resp :: 'r
  enabled :: bool
  dma_done :: bool
  srcAddr :: u32
  dstAddr :: u32
  dmaSizeCfg :: u32
  true_width :: nat
  true_height :: nat
  Source_stride :: nat
  Dest_stride :: nat
  totalElements :: nat
  wordsToBuffer :: nat
  wordsTransferred :: nat
  totalWords :: nat
  bufferIndex :: nat
  pendingBusReadResponses :: int
  pendingBusWriteResponses :: int
  bufferMemory :: "u32 list"
  currentState :: DmaState
  req_Q :: "sim_packet list"
  resp_Q :: "sim_packet list"
  dma_events :: "(nat \<times> dma_event) list"

definition BUFFER_CAPACITY :: nat where
  "BUFFER_CAPACITY = 256"

text \<open>\<open>max_burst_len\<close> is the constant 2: bursts of up to four words.\<close>

definition burst_size_words :: nat where
  "burst_size_words = 4"

definition dma_schedule :: "(nat \<times> dma_event) list \<Rightarrow> 'r dma \<Rightarrow> 'r dma" where
  "dma_schedule evs s = s\<lparr>dma_events := dma_events s @ evs\<rparr>"

definition transaction_complete :: "'r dma \<Rightarrow> 'r dma" where
  "transaction_complete s = s\<lparr>currentState := IDLE, dma_done := True, enabled := False\<rparr>"

text \<open>\<open>push\<close> to the request register, or keep in \<open>req_Q\<close>; the result says whether it was pushed.\<close>

definition dma_send :: "'r reg_ops \<Rightarrow> sim_packet \<Rightarrow> 'r dma \<Rightarrow> 'r dma \<times> bool" where
  "dma_send ops p s =
     (case send_or_queue ops (m_req s) (req_Q s) p of (r, q, taken) \<Rightarrow> (s\<lparr>m_req := r, req_Q := q\<rparr>, taken))"

section \<open>Geometry\<close>

definition words_per_row :: "'r dma \<Rightarrow> nat" where
  "words_per_row s = (true_width s + 3) div 4"

text \<open>The address of the word with a global index, \<open>base + row * stride + col * 4\<close> modulo \<open>2 ^ 32\<close>.\<close>

definition word_addr :: "'r dma \<Rightarrow> u32 \<Rightarrow> nat \<Rightarrow> nat \<Rightarrow> u32" where
  "word_addr s base stride g =
     base + of_nat (g div words_per_row s * stride) + of_nat (g mod words_per_row s * 4)"

section \<open>Write requests\<close>

definition dma_write_req :: "instr_type \<Rightarrow> u32 \<Rightarrow> u32 \<Rightarrow> write_req_payload" where
  "dma_write_req oper addr data =
     \<lparr>wq_caller = [], wq_tid = 0, wq_instr = blank_instr, wq_op = oper, wq_addr = addr, wq_data = data\<rparr>"

definition makeFullWritePacket :: "u32 \<Rightarrow> u32 \<Rightarrow> write_req_payload list \<Rightarrow> write_req_payload list" where
  "makeFullWritePacket addr data outReqs = outReqs @ [dma_write_req SW addr data]"

definition makePartialWritePackets ::
  "sim_config \<Rightarrow> u32 \<Rightarrow> u32 \<Rightarrow> nat \<Rightarrow> write_req_payload list \<Rightarrow> write_req_payload list result" where
  "makePartialWritePackets cfg addr data byteCount outReqs =
     (if byteCount = 3 then
        Inr (outReqs @ [dma_write_req SH addr (data AND 0xFFFF),
                        dma_write_req SB (addr + 2) (drop_bit 16 data AND 0xFF)])
      else if byteCount = 2 then Inr (outReqs @ [dma_write_req SH addr (data AND 0xFFFF)])
      else if byteCount = 1 then Inr (outReqs @ [dma_write_req SB addr (data AND 0xFF)])
      else log_error cfg ''Invalid byteCount in makePartialWritePackets!'' (Inr outReqs))"

text \<open>The test of both loops for a partial last word of a row.\<close>

definition partial_word :: "'r dma \<Rightarrow> nat \<Rightarrow> bool" where
  "partial_word s g \<longleftrightarrow> g mod words_per_row s = words_per_row s \<and> true_width s mod 4 \<noteq> 0"

text \<open>\<open>createWriteRequestsForChunk\<close> from the loop index \<open>i\<close> on, with \<open>n\<close> words to go.\<close>

fun createWriteRequestsForChunk ::
  "sim_config \<Rightarrow> 'r dma \<Rightarrow> nat \<Rightarrow> nat \<Rightarrow> nat \<Rightarrow> write_req_payload list \<Rightarrow> write_req_payload list result" where
  "createWriteRequestsForChunk cfg s offset i 0 outReqs = Inr outReqs"
| "createWriteRequestsForChunk cfg s offset i (Suc n) outReqs =
     (let g = wordsTransferred s + offset + i;
          baseAddr = word_addr s (dstAddr s) (Dest_stride s) g
      in if words_per_row s = 0 then Inl DivisionByZero
         else bindE (array_get ''bufferMemory'' (bufferMemory s) (int (offset + i))) (\<lambda>data.
           bindE (if partial_word s g
                  then makePartialWritePackets cfg baseAddr data (true_width s mod 4) outReqs
                  else Inr (makeFullWritePacket baseAddr data outReqs)) (\<lambda>outReqs'.
             createWriteRequestsForChunk cfg s offset (Suc i) n outReqs')))"

text \<open>
  \<open>writeChunkCalculation\<close>: the loop counts sub-packets word by word from index \<open>i\<close> on, with \<open>n\<close>
  words to go, and keeps the last number of words that made 1, 2 or 4 of them.
\<close>

definition word_subpackets :: "'r dma \<Rightarrow> nat \<Rightarrow> nat" where
  "word_subpackets s g = (if partial_word s g then if true_width s mod 4 = 3 then 2 else 1 else 1)"

fun chunk_walk :: "'r dma \<Rightarrow> nat \<Rightarrow> nat \<Rightarrow> nat \<Rightarrow> nat \<Rightarrow> nat \<Rightarrow> nat" where
  "chunk_walk s word_offset i 0 subpacketCount maxValidWords = maxValidWords"
| "chunk_walk s word_offset i (Suc n) subpacketCount maxValidWords =
     (let sub = subpacketCount + word_subpackets s (wordsTransferred s + word_offset + i)
      in if sub > burst_size_words then maxValidWords
         else chunk_walk s word_offset (Suc i) n sub (if sub \<in> {1, 2, 4} then i + 1 else maxValidWords))"

definition writeChunkCalculation :: "'r dma \<Rightarrow> nat \<Rightarrow> nat \<Rightarrow> nat" where
  "writeChunkCalculation s word_offset original_chunk_size =
     (let maxValidWords = chunk_walk s word_offset 0 original_chunk_size 0 0
      in if maxValidWords = 0 then 1 else maxValidWords)"

lemma writeChunkCalculation_pos: "0 < writeChunkCalculation s off n"
  by (simp add: writeChunkCalculation_def Let_def)

text \<open>The loop of \<open>scheduleWritesFromBuffer\<close>, from \<open>offset\<close> up to \<open>wordsToWrite\<close>.\<close>

function write_bursts ::
  "'r reg_ops \<Rightarrow> sim_config \<Rightarrow> nat \<Rightarrow> nat \<Rightarrow> int \<Rightarrow> 'r dma \<Rightarrow> ('r dma \<times> int) result" where
  "write_bursts ops cfg wordsToWrite offset ctr s =
     (if offset < wordsToWrite then
        (let chunk = writeChunkCalculation s offset (wordsToWrite - offset)
         in bindE (createWriteRequestsForChunk cfg s offset 0 chunk []) (\<lambda>reqs.
              bindE (Construct_MemWritepkt_burst ctr ''dma'' reqs) (\<lambda>(pkt, ctr').
                (case dma_send ops (WriteReq pkt) s of (s', taken) \<Rightarrow>
                   write_bursts ops cfg wordsToWrite (offset + chunk) ctr'
                     (if taken then s'
                      else s'\<lparr>pendingBusWriteResponses := pendingBusWriteResponses s' + 1\<rparr>)))))
      else Inr (s, ctr))"
  by pat_completeness auto
termination
  by (relation "measure (\<lambda>(ops, cfg, n, off, ctr, s). n - off)")
    (auto simp: writeChunkCalculation_pos diff_less_mono2)

declare write_bursts.simps [simp del]

section \<open>Read requests and the two phases\<close>

definition dma_read_req :: "'r dma \<Rightarrow> nat \<Rightarrow> read_req_payload" where
  "dma_read_req s i =
     \<lparr>rq_caller = [], rq_tid = 0, rq_instr = blank_instr, rq_op = LW,
      rq_addr = word_addr s (srcAddr s) (Source_stride s) (wordsTransferred s + bufferIndex s + i),
      rq_a1 = blank_operand\<lparr>o_imm := of_nat (bufferIndex s + i)\<rparr>\<rparr>"

definition words_to_read :: "'r dma \<Rightarrow> nat" where
  "words_to_read s = min (size_t_sub BUFFER_CAPACITY (bufferIndex s)) (size_t_sub (totalWords s) (wordsToBuffer s))"

definition read_chunk :: "'r dma \<Rightarrow> nat" where
  "read_chunk s = (let chunk = min burst_size_words (words_to_read s) in if chunk = 3 then 2 else chunk)"

text \<open>The part of \<open>scheduleReadsForBuffer\<close> that sends one read burst.\<close>

definition send_read_burst :: "'r reg_ops \<Rightarrow> sim_config \<Rightarrow> int \<Rightarrow> 'r dma \<Rightarrow> ('r dma \<times> int) result" where
  "send_read_burst ops cfg ctr s =
     (let chunk = read_chunk s;
          readRequests = map (dma_read_req s) [0..<chunk];
          go = bindE (Construct_MemReadpkt_burst ctr ''dma'' readRequests) (\<lambda>(pkt, ctr').
            (case dma_send ops (ReadReq pkt) s of (s', taken) \<Rightarrow>
               Inr (s'\<lparr>pendingBusReadResponses := 1\<rparr>, ctr')))
      in if words_per_row s = 0 then Inl DivisionByZero
         else if chunk \<in> {1, 2, 4} then go
         else log_error cfg ''Bus support the size of 1,2,4 words read only!'' go)"

function scheduleReadsForBuffer :: "'r reg_ops \<Rightarrow> sim_config \<Rightarrow> int \<Rightarrow> 'r dma \<Rightarrow> ('r dma \<times> int) result"
  and scheduleWritesFromBuffer :: "'r reg_ops \<Rightarrow> sim_config \<Rightarrow> int \<Rightarrow> 'r dma \<Rightarrow> ('r dma \<times> int) result" where
  "scheduleReadsForBuffer ops cfg ctr s =
     (if words_to_read s = 0 then
        (if wordsToBuffer s \<ge> totalWords s then Inr (transaction_complete s, ctr)
         else scheduleWritesFromBuffer ops cfg ctr (s\<lparr>currentState := WRITING\<rparr>))
      else send_read_burst ops cfg ctr s)"
| "scheduleWritesFromBuffer ops cfg ctr s =
     (if bufferIndex s = 0 then
        (if wordsTransferred s \<ge> totalWords s then Inr (transaction_complete s, ctr)
         else scheduleReadsForBuffer ops cfg ctr (s\<lparr>currentState := READING\<rparr>))
      else
        bindE (write_bursts ops cfg (bufferIndex s) 0 ctr (s\<lparr>pendingBusWriteResponses := 0\<rparr>)) (\<lambda>(s', ctr').
          Inr (s'\<lparr>wordsTransferred := wordsTransferred s' + bufferIndex s\<rparr>, ctr')))"
  by pat_completeness auto

text \<open>
  The two call each other at most once: the read phase hands over only a full buffer, the
  write phase only an empty one.
\<close>

termination
  by (relation "measure (\<lambda>x. case x of Inl (ops, cfg, ctr, s) \<Rightarrow> if bufferIndex s = 0 then 0 else 1
        | Inr (ops, cfg, ctr, s) \<Rightarrow> if bufferIndex s = 0 then 1 else 0)")
    (auto simp: words_to_read_def size_t_sub_def BUFFER_CAPACITY_def split: if_splits)

declare scheduleReadsForBuffer.simps [simp del] scheduleWritesFromBuffer.simps [simp del]

definition startTransfer :: "'r reg_ops \<Rightarrow> sim_config \<Rightarrow> int \<Rightarrow> 'r dma \<Rightarrow> ('r dma \<times> int) result" where
  "startTransfer ops cfg ctr s =
     (if \<not> enabled s then Inr (s, ctr)
      else if dma_done s then Inr (s, ctr)
      else scheduleReadsForBuffer ops cfg ctr (s\<lparr>currentState := READING\<rparr>))"

text \<open>\<open>(w >> sh) & 0xFF\<close> stored in a \<open>uint8_t\<close> and used as an \<open>int\<close>.\<close>

definition cfg_byte :: "u32 \<Rightarrow> nat \<Rightarrow> nat" where
  "cfg_byte w sh = unat (drop_bit sh w AND 0xFF)"

definition initialized_transaction :: "'r reg_ops \<Rightarrow> sim_config \<Rightarrow> int \<Rightarrow> 'r dma \<Rightarrow> ('r dma \<times> int) result" where
  "initialized_transaction ops cfg ctr s =
     (let TW = cfg_byte (dmaSizeCfg s) 8; TH = cfg_byte (dmaSizeCfg s) 0;
          sourceStride = cfg_byte (dmaSizeCfg s) 24; destStride = cfg_byte (dmaSizeCfg s) 16;
          w = TW + 1; h = TH + 1
      in startTransfer ops cfg ctr (s\<lparr>dma_done := False, currentState := IDLE,
           true_width := w, true_height := h, Source_stride := sourceStride, Dest_stride := destStride,
           totalElements := w * h, totalWords := (w div 4 + (if w mod 4 \<noteq> 0 then 1 else 0)) * h,
           wordsTransferred := 0, bufferIndex := 0, wordsToBuffer := 0\<rparr>))"

section \<open>Memory-mapped registers\<close>

definition dma_caller_ok :: "string \<Rightarrow> bool" where
  "dma_caller_ok c \<longleftrightarrow> c = ''cpu'' \<or> c = ''sa''"

text \<open>The switch of \<open>readMMIO\<close>; \<open>None\<close> is the \<open>default\<close> branch.\<close>

definition dma_reg_read :: "'r dma \<Rightarrow> u32 \<Rightarrow> u32 option" where
  "dma_reg_read s a =
     (if a = 0x0 then Some (if enabled s then 1 else 0)
      else if a = 0x4 then Some (srcAddr s)
      else if a = 0x8 then Some (dstAddr s)
      else if a = 0xC then Some (dmaSizeCfg s)
      else if a = 0x14 then Some (if dma_done s then 1 else 0)
      else None)"

definition dma_readMMIO :: "sim_config \<Rightarrow> read_req_payload \<Rightarrow> 'r dma \<Rightarrow> 'r dma result" where
  "dma_readMMIO cfg p s =
     (let respond = (\<lambda>data.
        (let beat = \<lparr>rr_tid = rq_tid p, rr_instr = rq_instr p, rr_op = rq_op p, rr_data = data, rr_a1 = rq_a1 p\<rparr>;
             go = assertE (dma_caller_ok (rq_caller p)) ''Should only be programmed by Systolic array or CPU''
               (Inr (s\<lparr>resp_Q := resp_Q s @ [ReadResp (Construct_MemReadRespPkt [beat] ''dma'' (rq_caller p))]\<rparr>))
         in if dma_caller_ok (rq_caller p) then go else log_error cfg ''DMA receive request from'' go))
      in case dma_reg_read s (rq_addr p AND 0x3F) of
           Some data \<Rightarrow> respond data
         | None \<Rightarrow> log_error cfg ''Invalid MMIO read address!'' (respond 0))"

text \<open>The switch of \<open>writeMMIO\<close>.\<close>

definition dma_reg_write ::
  "'r reg_ops \<Rightarrow> sim_config \<Rightarrow> int \<Rightarrow> u32 \<Rightarrow> u32 \<Rightarrow> 'r dma \<Rightarrow> ('r dma \<times> int) result" where
  "dma_reg_write ops cfg ctr a data s =
     (if a = 0x0 then
        (if data AND 0x1 \<noteq> 0 then initialized_transaction ops cfg ctr (s\<lparr>enabled := True, dma_done := False\<rparr>)
         else Inr (s, ctr))
      else if a = 0x4 then Inr (s\<lparr>srcAddr := data\<rparr>, ctr)
      else if a = 0x8 then Inr (s\<lparr>dstAddr := data\<rparr>, ctr)
      else if a = 0xC then Inr (s\<lparr>dmaSizeCfg := data\<rparr>, ctr)
      else if a = 0x14 then Inr (s\<lparr>dma_done := False\<rparr>, ctr)
      else log_error cfg ''Invalid MMIO write address!'' (Inr (s, ctr)))"

definition dma_writeMMIO ::
  "'r reg_ops \<Rightarrow> sim_config \<Rightarrow> int \<Rightarrow> write_req_payload \<Rightarrow> 'r dma \<Rightarrow> ('r dma \<times> int) result" where
  "dma_writeMMIO ops cfg ctr p s =
     bindE (dma_reg_write ops cfg ctr (wq_addr p AND 0x3F) (wq_data p) s) (\<lambda>(s', ctr').
       assertE (dma_caller_ok (wq_caller p)) ''Should only be programmed by Systolic array or CPU''
         (Inr (s'\<lparr>resp_Q := resp_Q s' @ [WriteResp (Construct_MemWriteRespPkt
                    [\<lparr>wr_tid = wq_tid p, wr_instr = wq_instr p\<rparr>] ''dma'' (wq_caller p))]\<rparr>, ctr')))"

section \<open>Responses\<close>

fun store_beats :: "sim_config \<Rightarrow> read_resp_payload list \<Rightarrow> 'r dma \<Rightarrow> 'r dma result" where
  "store_beats cfg [] s = Inr s"
| "store_beats cfg (p # ps) s =
     (let localIndex = unat (o_imm (rr_a1 p))
      in if localIndex < BUFFER_CAPACITY
         then bindE (array_set ''bufferMemory'' (bufferMemory s) (int localIndex) (rr_data p)) (\<lambda>b.
                store_beats cfg ps (s\<lparr>bufferMemory := b\<rparr>))
         else log_error cfg ''Invalid local index in handleReadResponse!'' (store_beats cfg ps s))"

definition dma_handleReadResponse ::
  "sim_config \<Rightarrow> nat \<Rightarrow> read_resp_payload xbar_packet \<Rightarrow> 'r dma \<Rightarrow> 'r dma result" where
  "dma_handleReadResponse cfg now pkt s0 =
     bindE (store_beats cfg (payloadList pkt) s0) (\<lambda>s1.
       (let chunk = length (payloadList pkt);
            s = s1\<lparr>pendingBusReadResponses := pendingBusReadResponses s1 - 1,
                   bufferIndex := bufferIndex s1 + chunk, wordsToBuffer := wordsToBuffer s1 + chunk\<rparr>
        in if size_t_sub BUFFER_CAPACITY (bufferIndex s) > 0 \<and> size_t_sub (totalWords s) (wordsToBuffer s) > 0
           then Inr (dma_schedule [(now + 1, DmaScheduleReads)] s)
           else Inr (dma_schedule [(now + 1, DmaScheduleWrites)] (s\<lparr>currentState := WRITING\<rparr>))))"

text \<open>Clearing \<open>bufferMemory[0 .. bufferIndex-1]\<close>.\<close>

definition clear_buffer :: "'r dma \<Rightarrow> 'r dma result" where
  "clear_buffer s =
     (if bufferIndex s \<le> length (bufferMemory s)
      then Inr (s\<lparr>bufferMemory := replicate (bufferIndex s) 0 @ drop (bufferIndex s) (bufferMemory s)\<rparr>)
      else Inl (OutOfBounds ''bufferMemory''))"

definition dma_handleWriteCompletion ::
  "'r reg_ops \<Rightarrow> sim_config \<Rightarrow> int \<Rightarrow> 'r dma \<Rightarrow> ('r dma \<times> int) result" where
  "dma_handleWriteCompletion ops cfg ctr s0 =
     (let s = s0\<lparr>pendingBusWriteResponses := pendingBusWriteResponses s0 - 1\<rparr>
      in if pendingBusWriteResponses s = 0
         then bindE (clear_buffer s) (\<lambda>s1.
                (let s2 = s1\<lparr>bufferIndex := 0\<rparr>
                 in if wordsTransferred s2 \<ge> totalWords s2 then Inr (transaction_complete s2, ctr)
                    else scheduleReadsForBuffer ops cfg ctr (s2\<lparr>currentState := READING\<rparr>)))
         else Inr (s, ctr))"

section \<open>Sending and stepping\<close>

definition dma_trySendPacket :: "'r reg_ops \<Rightarrow> 'r dma \<Rightarrow> 'r dma" where
  "dma_trySendPacket ops s =
     (case try_send ops (m_req s) (req_Q s) of (r, q) \<Rightarrow>
      case try_send ops (m_resp s) (resp_Q s) of (r', q') \<Rightarrow>
        s\<lparr>m_req := r, req_Q := q, m_resp := r', resp_Q := q'\<rparr>)"

definition dma_masterPortRetry :: "'r reg_ops \<Rightarrow> 'r dma \<Rightarrow> 'r dma" where
  "dma_masterPortRetry ops s = dma_trySendPacket ops s"

definition dma_step ::
  "'r reg_ops \<Rightarrow> sim_config \<Rightarrow> nat \<Rightarrow> int \<Rightarrow> sim_packet option \<Rightarrow> 'r dma \<Rightarrow> ('r dma \<times> int) result" where
  "dma_step ops cfg now ctr popped s0 =
     (let s = (if req_Q s0 \<noteq> [] \<or> resp_Q s0 \<noteq> [] then dma_trySendPacket ops s0 else s0);
          lat = memory_read_latency cfg
      in case popped of
           None \<Rightarrow> Inr (s, ctr)
         | Some (ReadReq pkt) \<Rightarrow>
             assertE (int (length (payloadList pkt)) = burstSize pkt \<and> burstSize pkt = 1) ''ReadReqPkt''
               (Inr (dma_schedule [(now + lat, DmaReadMMIO (hd (payloadList pkt))), (now + 1 + lat, DmaTrySend)] s, ctr))
         | Some (WriteReq pkt) \<Rightarrow>
             assertE (int (length (payloadList pkt)) = burstSize pkt \<and> burstSize pkt = 1) ''WriteReq''
               (bindE (dma_writeMMIO ops cfg ctr (hd (payloadList pkt)) s) (\<lambda>(s', ctr').
                  Inr (dma_schedule [(now + 1 + lat, DmaTrySend)] s', ctr')))
         | Some (ReadResp pkt) \<Rightarrow> bindE (dma_handleReadResponse cfg now pkt s) (\<lambda>s'. Inr (s', ctr))
         | Some (WriteResp pkt) \<Rightarrow> dma_handleWriteCompletion ops cfg ctr s)"

fun dma_exec_event :: "'r reg_ops \<Rightarrow> sim_config \<Rightarrow> int \<Rightarrow> dma_event \<Rightarrow> 'r dma \<Rightarrow> ('r dma \<times> int) result" where
  "dma_exec_event ops cfg ctr (DmaReadMMIO p) s = bindE (dma_readMMIO cfg p s) (\<lambda>s'. Inr (s', ctr))"
| "dma_exec_event ops cfg ctr DmaTrySend s = Inr (dma_trySendPacket ops s, ctr)"
| "dma_exec_event ops cfg ctr DmaScheduleReads s = scheduleReadsForBuffer ops cfg ctr s"
| "dma_exec_event ops cfg ctr DmaScheduleWrites s = scheduleWritesFromBuffer ops cfg ctr s"

section \<open>The register interface\<close>

text \<open>The configuration registers at their bus addresses, and a store of the CPU to one of them.\<close>

definition dma_cfg_regs :: "u32 set" where
  "dma_cfg_regs = {0xF004, 0xF008, 0xF00C}"

definition dma_store :: "u32 \<Rightarrow> u32 \<Rightarrow> write_req_payload" where
  "dma_store a v = (dma_write_req SW a v)\<lparr>wq_caller := ''cpu''\<rparr>"

definition dma_set_reg :: "u32 \<Rightarrow> u32 \<Rightarrow> 'r dma \<Rightarrow> 'r dma" where
  "dma_set_reg a v s = (if a = 0xF004 then s\<lparr>srcAddr := v\<rparr> else if a = 0xF008 then s\<lparr>dstAddr := v\<rparr> else s\<lparr>dmaSizeCfg := v\<rparr>)"

lemma dma_store_effect:
  assumes "a \<in> dma_cfg_regs"
  shows "\<exists>q. dma_writeMMIO ops cfg ctr (dma_store a v) s = Inr ((dma_set_reg a v s)\<lparr>resp_Q := q\<rparr>, ctr)"
proof -
  have "dma_reg_write ops cfg ctr (a AND 0x3F) v s = Inr (dma_set_reg a v s, ctr)"
    using assms unfolding dma_cfg_regs_def
    by (elim insertE emptyE; hypsubst; simp add: dma_reg_write_def dma_set_reg_def)
  then show ?thesis
    by (auto simp: dma_writeMMIO_def dma_store_def dma_write_req_def dma_caller_ok_def)
qed

lemma dma_set_reg_read:
  "a \<in> dma_cfg_regs \<Longrightarrow> dma_reg_read ((dma_set_reg a v s)\<lparr>resp_Q := q\<rparr>) (a AND 0x3F) = Some v"
  "a \<in> dma_cfg_regs \<Longrightarrow> b \<in> dma_cfg_regs \<Longrightarrow> b \<noteq> a \<Longrightarrow>
   dma_reg_read ((dma_set_reg a v s)\<lparr>resp_Q := q\<rparr>) (b AND 0x3F) = dma_reg_read s (b AND 0x3F)"
  unfolding dma_cfg_regs_def
  by ((elim insertE emptyE; hypsubst; simp add: dma_set_reg_def dma_reg_read_def)+)

interpretation dma_regs: mmio "\<lambda>s a. dma_reg_read s (a AND 0x3F)"
  "\<lambda>s a v. bindE (dma_writeMMIO ops cfg ctr (dma_store a v) s) (\<lambda>(s', ctr'). Inr s')" dma_cfg_regs "\<lambda>a v. v"
  for ops cfg ctr
proof unfold_locales
  fix a b v :: u32 and s s' :: "'a dma"
  assume a: "a \<in> dma_cfg_regs"
  then obtain q where eff: "dma_writeMMIO ops cfg ctr (dma_store a v) s = Inr ((dma_set_reg a v s)\<lparr>resp_Q := q\<rparr>, ctr)"
    using dma_store_effect by blast
  let ?wr = "bindE (dma_writeMMIO ops cfg ctr (dma_store a v) s) (\<lambda>(s', ctr'). Inr s')"
  show "\<exists>s'. ?wr = Inr s'" using eff by simp
  show "dma_reg_read s' (a AND 0x3F) = Some v" if "?wr = Inr s'"
    using that eff dma_set_reg_read(1) [OF a] by auto
  show "dma_reg_read s' (b AND 0x3F) = dma_reg_read s (b AND 0x3F)"
    if "b \<in> dma_cfg_regs" "b \<noteq> a" "?wr = Inr s'"
    using that eff dma_set_reg_read(2) [OF a] by auto
qed

section \<open>Write bursts\<close>

lemma words_per_row_pos: "0 < true_width s \<Longrightarrow> 0 < words_per_row s"
  by (simp add: words_per_row_def)

text \<open>The column of a word is below the words per row, so no word is ever partial.\<close>

lemma partial_word_never: "0 < true_width s \<Longrightarrow> \<not> partial_word s g"
  using mod_less_divisor [OF words_per_row_pos, of s g] by (auto simp: partial_word_def)

lemma word_subpackets_one: "0 < true_width s \<Longrightarrow> word_subpackets s g = 1"
  by (simp add: word_subpackets_def partial_word_never)

definition burst_chunk :: "nat \<Rightarrow> nat" where
  "burst_chunk n = (if 4 \<le> n then 4 else if 2 \<le> n then 2 else 1)"

lemma burst_chunk_range: "burst_chunk n \<in> {1, 2, 4}" "0 < n \<Longrightarrow> burst_chunk n \<le> n" "0 < burst_chunk n"
  by (auto simp: burst_chunk_def)

lemma writeChunkCalculation_greedy:
  assumes "0 < true_width s"
  shows "writeChunkCalculation s off n = burst_chunk n"
proof -
  consider "n = 0" | "n = 1" | "n = 2" | "n = 3" | m where "n = Suc (Suc (Suc (Suc m)))"
    by (metis One_nat_def not0_implies_Suc numeral_2_eq_2 numeral_3_eq_3)
  then show ?thesis
  proof cases
    case (5 m)
    then show ?thesis
      by (cases m) (simp_all add: writeChunkCalculation_def burst_chunk_def burst_size_words_def
          word_subpackets_one [OF assms])
  qed (simp_all add: writeChunkCalculation_def burst_chunk_def burst_size_words_def
      word_subpackets_one [OF assms] numeral_2_eq_2 numeral_3_eq_3)
qed

text \<open>The word write for buffer entry \<open>k\<close>.\<close>

definition buffer_write :: "'r dma \<Rightarrow> nat \<Rightarrow> write_req_payload" where
  "buffer_write s k =
     dma_write_req SW (word_addr s (dstAddr s) (Dest_stride s) (wordsTransferred s + k)) (bufferMemory s ! k)"

lemma createWriteRequests_full:
  assumes "0 < true_width s" "offset + i + n \<le> length (bufferMemory s)"
  shows "createWriteRequestsForChunk cfg s offset i n outs
    = Inr (outs @ map (buffer_write s) [offset + i..<offset + i + n])"
  using assms(2)
proof (induction n arbitrary: i outs)
  case (Suc n)
  have "[offset + i..<offset + i + Suc n] = (offset + i) # [offset + Suc i..<offset + Suc i + n]"
    by (simp add: upt_conv_Cons)
  then show ?case
    using words_per_row_pos [OF assms(1)] Suc.IH [of "Suc i"] Suc.prems
    by (simp add: Let_def partial_word_never [OF assms(1)] makeFullWritePacket_def buffer_write_def
        add.assoc nat_int_add del: upt_Suc)
qed simp

definition write_key :: "write_req_payload \<Rightarrow> instr_type \<times> u32 \<times> u32" where
  "write_key w = (wq_op w, wq_addr w, wq_data w)"

text \<open>A legal burst packet for a list of writes.\<close>

definition burst_of :: "int \<Rightarrow> write_req_payload list \<Rightarrow> write_req_payload xbar_packet" where
  "burst_of ctr ws = fst (projr (Construct_MemWritepkt_burst ctr ''dma'' ws))"

lemma Construct_write_burst:
  "ws \<noteq> [] \<Longrightarrow> Construct_MemWritepkt_burst ctr ''dma'' ws = Inr (burst_of ctr ws, ctr + 1)"
  by (cases ws) (simp_all add: burst_of_def packet_defs Let_def)

lemma burst_of_payloads:
  "ws \<noteq> [] \<Longrightarrow> map write_key (payloadList (burst_of ctr ws)) = map write_key ws"
  "ws \<noteq> [] \<Longrightarrow> length ws \<in> {1, 2, 4} \<Longrightarrow> burstSize (burst_of ctr ws) = int (length ws)"
  "ws \<noteq> [] \<Longrightarrow> length (payloadList (burst_of ctr ws)) = length ws"
  "ws \<noteq> [] \<Longrightarrow> TransactionID (burst_of ctr ws) = Some ctr"
  using burst_size_of_burst_mode [of "length ws"]
  by (cases ws; auto simp: burst_of_def packet_defs Let_def write_key_def)+

definition legal_burst :: "'p xbar_packet \<Rightarrow> bool" where
  "legal_burst p \<longleftrightarrow> length (payloadList p) \<in> {1, 2, 4} \<and> burstSize p = int (length (payloadList p))"

text \<open>Every beat of the burst carries the identifier of the packet; the first beat decides the destination.\<close>

definition write_tagged :: "write_req_payload xbar_packet \<Rightarrow> bool" where
  "write_tagged p \<longleftrightarrow> dst_idx p = slaveIndex (wq_addr (hd (payloadList p)))
     \<and> (\<exists>t. TransactionID p = Some t \<and> (\<forall>q \<in> set (payloadList p). wq_tid q = t \<and> wq_caller q = ''dma''))"

lemma burst_of_tagged: "ws \<noteq> [] \<Longrightarrow> write_tagged (burst_of ctr ws)"
  by (cases ws) (auto simp: burst_of_def packet_defs Let_def write_tagged_def)

lemma dma_send_spec:
  assumes "reg_contract ops sent" "dma_send ops p s = (s', taken)"
  obtains r q where "s' = s\<lparr>m_req := r, req_Q := q\<rparr>" "mset (sent r @ q) = mset (sent (m_req s) @ req_Q s @ [p])"
    "length q = length (req_Q s) + (if taken then 0 else 1)"
    "taken \<Longrightarrow> sent r = sent (m_req s) @ [p] \<and> q = req_Q s" "reg_ready ops \<Longrightarrow> taken"
proof -
  obtain r q where sq: "send_or_queue ops (m_req s) (req_Q s) p = (r, q, taken)"
    using assms(2) by (auto simp: dma_send_def split: prod.splits)
  then have "length q = length (req_Q s) + (if taken then 0 else 1)"
    by (auto simp: send_or_queue_def split: if_splits prod.splits)
  moreover have "taken \<Longrightarrow> sent r = sent (m_req s) @ [p] \<and> q = req_Q s"
    using sq by (auto simp: send_or_queue_def dest: reg_contractD [OF assms(1)] split: if_splits prod.splits)
  moreover have taken if ready: "reg_ready ops"
  proof -
    have "\<not> isStalled ops (m_req s)" "snd (push ops (m_req s) p)"
      using ready unfolding reg_ready_def by blast+
    then show ?thesis using sq by (simp add: send_or_queue_def split: prod.splits)
  qed
  ultimately show thesis using that [of q r] sq send_or_queue_conserves [OF assms(1) sq] assms(2)
    by (simp add: dma_send_def)
qed

lemma buffer_write_cong:
  "buffer_write (s\<lparr>m_req := r, req_Q := q\<rparr>) = buffer_write s"
  "buffer_write (s\<lparr>pendingBusWriteResponses := k\<rparr>) = buffer_write s"
  by (simp_all add: buffer_write_def word_addr_def words_per_row_def fun_eq_iff)

text \<open>The packets of the loop, whatever the registers do.\<close>

function burst_pkts :: "'r dma \<Rightarrow> nat \<Rightarrow> nat \<Rightarrow> int \<Rightarrow> write_req_payload xbar_packet list" where
  "burst_pkts s n off ctr =
     (if off < n then
        (let c = burst_chunk (n - off)
         in burst_of ctr (map (buffer_write s) [off..<off + c]) # burst_pkts s n (off + c) (ctr + 1))
      else [])"
  by pat_completeness auto
termination
  by (relation "measure (\<lambda>(s, n, off, ctr). n - off)") (auto simp: burst_chunk_range(3) diff_less_mono2)

declare burst_pkts.simps [simp del]

fun nbursts :: "nat \<Rightarrow> nat" where
  "nbursts n = n div 4 + (if n mod 4 = 0 then 0 else if n mod 4 = 3 then 2 else 1)"

declare nbursts.simps [simp del]

lemma nbursts_step: "0 < n \<Longrightarrow> nbursts n = Suc (nbursts (n - burst_chunk n))"
proof -
  assume "0 < n"
  then consider "4 \<le> n" | "n = 1" | "n = 2" | "n = 3" by linarith
  then show ?thesis
  proof cases
    case 1
    then have "n div 4 = Suc ((n - 4) div 4)" "n mod 4 = (n - 4) mod 4" by (simp_all add: le_div_geq le_mod_geq)
    with 1 show ?thesis by (simp add: nbursts.simps burst_chunk_def)
  qed (simp_all add: nbursts.simps burst_chunk_def)
qed

lemma burst_pkts_spec:
  assumes "off \<le> n"
  shows "map write_key (concat (map payloadList (burst_pkts s n off ctr))) = map (write_key \<circ> buffer_write s) [off..<n]
    \<and> (\<forall>p \<in> set (burst_pkts s n off ctr). legal_burst p \<and> write_tagged p) \<and> length (burst_pkts s n off ctr) = nbursts (n - off)"
  using assms
proof (induction s n off ctr rule: burst_pkts.induct)
  case (1 s n off ctr)
  show ?case
  proof (cases "off < n")
    case False
    with 1(2) show ?thesis by (simp add: burst_pkts.simps nbursts.simps)
  next
    case True
    let ?c = "burst_chunk (n - off)" and ?ws = "map (buffer_write s) [off..<off + burst_chunk (n - off)]"
    have c: "?c \<in> {1, 2, 4}" "0 < ?c" "off + ?c \<le> n" using burst_chunk_range [of "n - off"] True by auto
    have ws: "?ws \<noteq> []" "length ?ws = ?c" using c(2) by auto
    have unf: "burst_pkts s n off ctr = burst_of ctr ?ws # burst_pkts s n (off + ?c) (ctr + 1)"
      using True by (subst burst_pkts.simps) (simp add: Let_def)
    have "legal_burst (burst_of ctr ?ws)" "write_tagged (burst_of ctr ?ws)"
      using burst_of_payloads(2,3) [OF ws(1), of ctr] c(1) ws(2) burst_of_tagged [OF ws(1)] by (simp_all add: legal_burst_def)
    moreover have "nbursts (n - off) = Suc (nbursts (n - (off + ?c)))" using nbursts_step [of "n - off"] True by (simp add: diff_diff_left)
    moreover have "map write_key (payloadList (burst_of ctr ?ws)) @ map (write_key \<circ> buffer_write s) [off + ?c..<n]
        = map (write_key \<circ> buffer_write s) [off..<n]"
      using burst_of_payloads(1) [OF ws(1), of ctr] c(3) by (simp add: upt_split [of off "off + ?c" n])
    ultimately show ?thesis unfolding unf using 1(1) [OF True refl c(3)] by (simp add: comp_def)
  qed
qed

text \<open>The loop sends these packets in order and counts those it had to queue.\<close>

definition send_burst :: "'r reg_ops \<Rightarrow> 'r dma \<Rightarrow> write_req_payload xbar_packet \<Rightarrow> 'r dma" where
  "send_burst ops s p = (case dma_send ops (WriteReq p) s of (s', taken) \<Rightarrow>
     if taken then s' else s'\<lparr>pendingBusWriteResponses := pendingBusWriteResponses s' + 1\<rparr>)"

lemma send_burst_frame: "\<exists>r q k. send_burst ops s p = s\<lparr>m_req := r, req_Q := q, pendingBusWriteResponses := k\<rparr>"
proof -
  obtain r q b where "send_or_queue ops (m_req s) (req_Q s) (WriteReq p) = (r, q, b)" by (metis prod_cases3)
  then show ?thesis
    by (intro exI [of _ r] exI [of _ q] exI [of _ "pendingBusWriteResponses s + (if b then 0 else 1)"])
      (simp add: send_burst_def dma_send_def)
qed

lemma burst_pkts_cong: "burst_pkts (s\<lparr>m_req := r, req_Q := q, pendingBusWriteResponses := k\<rparr>) n off ctr = burst_pkts s n off ctr"
proof (induction s n off ctr rule: burst_pkts.induct)
  case (1 s n off ctr)
  have "buffer_write (s\<lparr>m_req := r, req_Q := q, pendingBusWriteResponses := k\<rparr>) = buffer_write s"
    by (simp add: buffer_write_def word_addr_def words_per_row_def fun_eq_iff)
  with 1 show ?case by (subst (1 2) burst_pkts.simps) (simp add: Let_def)
qed

lemma write_bursts_foldl:
  assumes "0 < true_width s" "n \<le> length (bufferMemory s)"
  shows "write_bursts ops cfg n off ctr s
    = Inr (foldl (send_burst ops) s (burst_pkts s n off ctr), ctr + int (length (burst_pkts s n off ctr)))"
  using assms
proof (induction "n - off" arbitrary: off s ctr rule: less_induct)
  case less
  show ?case
  proof (cases "off < n")
    case False
    then show ?thesis by (simp add: write_bursts.simps burst_pkts.simps)
  next
    case True
    let ?c = "burst_chunk (n - off)" and ?ws = "map (buffer_write s) [off..<off + burst_chunk (n - off)]"
    let ?s = "send_burst ops s (burst_of ctr ?ws)"
    have c: "0 < ?c" "off + ?c \<le> n" using burst_chunk_range [of "n - off"] True by auto
    then have ws: "?ws \<noteq> []" by simp
    obtain r q k where s: "?s = s\<lparr>m_req := r, req_Q := q, pendingBusWriteResponses := k\<rparr>" using send_burst_frame by metis
    have unf: "burst_pkts s n off ctr = burst_of ctr ?ws # burst_pkts ?s n (off + ?c) (ctr + 1)"
      using True by (subst burst_pkts.simps) (simp add: Let_def s burst_pkts_cong)
    have "write_bursts ops cfg n off ctr s = write_bursts ops cfg n (off + ?c) (ctr + 1) ?s"
      using True Construct_write_burst [OF ws, of ctr] less.prems c createWriteRequests_full [of s off 0 ?c cfg "[]"]
      by (subst write_bursts.simps) (simp add: writeChunkCalculation_greedy Let_def send_burst_def split: prod.splits)
    moreover have "n - (off + ?c) < n - off" "0 < true_width ?s" "n \<le> length (bufferMemory ?s)"
      using c True less.prems by (simp_all add: s)
    ultimately show ?thesis using less.hyps [of "off + ?c" ?s "ctr + 1"] unfolding unf by simp
  qed
qed

lemma send_bursts_spec:
  assumes "reg_contract ops sent"
  shows "\<exists>r q k. foldl (send_burst ops) s pkts = s\<lparr>m_req := r, req_Q := q, pendingBusWriteResponses := pendingBusWriteResponses s + int k\<rparr>
    \<and> length q = length (req_Q s) + k \<and> mset (sent r @ q) = mset (sent (m_req s) @ req_Q s @ map WriteReq pkts)
    \<and> (reg_ready ops \<longrightarrow> k = 0 \<and> q = req_Q s \<and> sent r = sent (m_req s) @ map WriteReq pkts)"
proof (induction pkts arbitrary: s)
  case Nil
  show ?case by (intro exI [of _ "m_req s"] exI [of _ "req_Q s"] exI [of _ 0]) simp
next
  case (Cons p pkts)
  obtain s1 taken where snd: "dma_send ops (WriteReq p) s = (s1, taken)" by fastforce
  obtain r1 q1 where s1: "s1 = s\<lparr>m_req := r1, req_Q := q1\<rparr>" "mset (sent r1 @ q1) = mset (sent (m_req s) @ req_Q s @ [WriteReq p])"
    "length q1 = length (req_Q s) + (if taken then 0 else 1)" "taken \<Longrightarrow> sent r1 = sent (m_req s) @ [WriteReq p] \<and> q1 = req_Q s"
    "reg_ready ops \<Longrightarrow> taken"
    using dma_send_spec [OF assms snd] by metis
  let ?k = "if taken then 0 else 1 :: nat"
  let ?s = "s\<lparr>m_req := r1, req_Q := q1, pendingBusWriteResponses := pendingBusWriteResponses s + int ?k\<rparr>"
  have "send_burst ops s p = ?s" using snd by (simp add: send_burst_def s1(1))
  moreover obtain r q k where "foldl (send_burst ops) ?s pkts = ?s\<lparr>m_req := r, req_Q := q,
      pendingBusWriteResponses := pendingBusWriteResponses ?s + int k\<rparr>" "length q = length (req_Q ?s) + k"
    "mset (sent r @ q) = mset (sent (m_req ?s) @ req_Q ?s @ map WriteReq pkts)"
    "reg_ready ops \<Longrightarrow> k = 0 \<and> q = req_Q ?s \<and> sent r = sent (m_req ?s) @ map WriteReq pkts"
    using Cons.IH [of ?s] by blast
  ultimately show ?case
    using s1(2-5) by (intro exI [of _ r] exI [of _ q] exI [of _ "?k + k"] conjI impI) simp_all
qed

lemma write_bursts_all:
  assumes "reg_contract ops sent" "0 < true_width s" "n \<le> length (bufferMemory s)" "off \<le> n"
  shows "\<exists>r q k pkts ctr'.
    write_bursts ops cfg n off ctr s = Inr (s\<lparr>m_req := r, req_Q := q,
      pendingBusWriteResponses := pendingBusWriteResponses s + int k\<rparr>, ctr')
    \<and> length q = length (req_Q s) + k
    \<and> mset (sent r @ q) = mset (sent (m_req s) @ req_Q s @ map WriteReq pkts)
    \<and> map write_key (concat (map payloadList pkts)) = map (write_key \<circ> buffer_write s) [off..<n]
    \<and> (\<forall>p \<in> set pkts. legal_burst p \<and> write_tagged p)
    \<and> (reg_ready ops \<longrightarrow> k = 0 \<and> q = req_Q s \<and> sent r = sent (m_req s) @ map WriteReq pkts)"
  unfolding write_bursts_foldl [OF assms(2,3)]
  using send_bursts_spec [OF assms(1), of s "burst_pkts s n off ctr"] burst_pkts_spec [OF assms(4), of s ctr] by blast

lemma write_bursts_spec:
  assumes "reg_contract ops sent" "0 < true_width s" "n \<le> length (bufferMemory s)" "off \<le> n"
  shows "\<exists>r q k pkts ctr'.
    write_bursts ops cfg n off ctr s = Inr (s\<lparr>m_req := r, req_Q := q,
      pendingBusWriteResponses := pendingBusWriteResponses s + int k\<rparr>, ctr')
    \<and> length q = length (req_Q s) + k
    \<and> mset (sent r @ q) = mset (sent (m_req s) @ req_Q s @ map WriteReq pkts)
    \<and> map write_key (concat (map payloadList pkts)) = map (write_key \<circ> buffer_write s) [off..<n]
    \<and> (\<forall>p \<in> set pkts. legal_burst p)"
  using write_bursts_all [OF assms, of cfg ctr] by blast

text \<open>A register that takes every packet gets them in order and none is counted.\<close>

lemma write_bursts_ready:
  assumes "reg_contract ops sent" "reg_ready ops" "0 < true_width s" "n \<le> length (bufferMemory s)"
  obtains r pkts ctr' where "write_bursts ops cfg n 0 ctr s = Inr (s\<lparr>m_req := r\<rparr>, ctr')"
    "sent r = sent (m_req s) @ map WriteReq pkts" "\<forall>p \<in> set pkts. legal_burst p \<and> write_tagged p"
    "map write_key (concat (map payloadList pkts)) = map (write_key \<circ> buffer_write s) [0..<n]"
proof -
  from write_bursts_all [OF assms(1,3,4), of 0 cfg ctr] assms(2) obtain r q k pkts ctr' where
    wb: "write_bursts ops cfg n 0 ctr s = Inr (s\<lparr>m_req := r, req_Q := q,
      pendingBusWriteResponses := pendingBusWriteResponses s + int k\<rparr>, ctr')"
      "map write_key (concat (map payloadList pkts)) = map (write_key \<circ> buffer_write s) [0..<n]"
      "\<forall>p \<in> set pkts. legal_burst p \<and> write_tagged p"
      "k = 0" "q = req_Q s" "sent r = sent (m_req s) @ map WriteReq pkts" by blast
  show thesis by (rule that [of r ctr' pkts]) (use wb in simp_all)
qed

section \<open>The read phase\<close>

text \<open>What a memory with contents \<open>memf\<close> answers to a list of word reads.\<close>

definition answers :: "(u32 \<Rightarrow> u32) \<Rightarrow> read_req_payload list \<Rightarrow> read_resp_payload list" where
  "answers memf = map (\<lambda>q. \<lparr>rr_tid = rq_tid q, rr_instr = rq_instr q, rr_op = rq_op q,
     rr_data = memf (rq_addr q), rr_a1 = rq_a1 q\<rparr>)"

definition src_word :: "(u32 \<Rightarrow> u32) \<Rightarrow> 'r dma \<Rightarrow> nat \<Rightarrow> u32" where
  "src_word memf s g = memf (word_addr s (srcAddr s) (Source_stride s) g)"

definition fill_inv :: "(u32 \<Rightarrow> u32) \<Rightarrow> 'r dma \<Rightarrow> bool" where
  "fill_inv memf s \<longleftrightarrow> 0 < true_width s \<and> length (bufferMemory s) = 256 \<and> bufferIndex s \<le> 256
     \<and> wordsToBuffer s = wordsTransferred s + bufferIndex s \<and> wordsToBuffer s \<le> totalWords s
     \<and> take (bufferIndex s) (bufferMemory s)
         = map (\<lambda>k. src_word memf s (wordsTransferred s + k)) [0..<bufferIndex s]"

text \<open>The writes of a buffer that holds source words.\<close>

lemma buffer_write_keys:
  assumes "fill_inv memf s"
  shows "map (write_key \<circ> buffer_write s) [0..<bufferIndex s] =
    map (\<lambda>g. (SW, word_addr s (dstAddr s) (Dest_stride s) g, src_word memf s g))
      [wordsTransferred s..<wordsTransferred s + bufferIndex s]"
proof -
  have "bufferMemory s ! k = src_word memf s (wordsTransferred s + k)" if "k < bufferIndex s" for k
  proof -
    have "take (bufferIndex s) (bufferMemory s) ! k = map (\<lambda>k. src_word memf s (wordsTransferred s + k)) [0..<bufferIndex s] ! k"
      using assms by (simp add: fill_inv_def)
    then show ?thesis using that by simp
  qed
  then show ?thesis by (simp add: map_upt_shift buffer_write_def write_key_def dma_write_req_def)
qed

lemma words_to_read_inv:
  "fill_inv memf s \<Longrightarrow> words_to_read s = min (256 - bufferIndex s) (totalWords s - wordsToBuffer s)"
  by (simp add: fill_inv_def words_to_read_def BUFFER_CAPACITY_def)

lemma read_chunk_burst: "0 < words_to_read s \<Longrightarrow> read_chunk s = burst_chunk (words_to_read s)"
  by (auto simp: read_chunk_def burst_chunk_def burst_size_words_def Let_def)

lemma store_beats_run:
  assumes "length (bufferMemory s) = 256" "b + length ps \<le> 256"
    and "\<And>i. i < length ps \<Longrightarrow> unat (o_imm (rr_a1 (ps ! i))) = b + i"
  shows "store_beats cfg ps s = Inr (s\<lparr>bufferMemory := blit (bufferMemory s) b (map rr_data ps)\<rparr>)"
  using assms
proof (induction ps arbitrary: b s)
  case (Cons p ps)
  have "unat (o_imm (rr_a1 p)) = b" using Cons.prems(3) [of 0] by simp
  moreover have "unat (o_imm (rr_a1 (ps ! i))) = Suc b + i" if "i < length ps" for i
    using Cons.prems(3) [of "Suc i"] that by simp
  ultimately show ?case
    using Cons.prems(1,2) Cons.IH [of "s\<lparr>bufferMemory := (bufferMemory s)[b := rr_data p]\<rparr>" "Suc b"]
    by (simp add: BUFFER_CAPACITY_def blit_Cons Let_def)
qed simp

definition read_pkt :: "int \<Rightarrow> 'r dma \<Rightarrow> read_req_payload xbar_packet" where
  "read_pkt ctr s = fst (projr (Construct_MemReadpkt_burst ctr ''dma'' (map (dma_read_req s) [0..<read_chunk s])))"

lemma Construct_read_nonempty:
  assumes "ps \<noteq> []"
  obtains pkt where "Construct_MemReadpkt_burst ctr src ps = Inr (pkt, ctr + 1)"
    "payloadList pkt = map (\<lambda>q. q\<lparr>rq_caller := src, rq_tid := ctr\<rparr>) ps"
  using assms by (cases ps) (auto simp: packet_defs Let_def)

lemma Construct_read_burst:
  assumes "0 < read_chunk s"
  shows "Construct_MemReadpkt_burst ctr ''dma'' (map (dma_read_req s) [0..<read_chunk s]) = Inr (read_pkt ctr s, ctr + 1)"
    and "payloadList (read_pkt ctr s)
      = map (\<lambda>i. (dma_read_req s i)\<lparr>rq_caller := ''dma'', rq_tid := ctr\<rparr>) [0..<read_chunk s]"
  using Construct_read_nonempty [of "map (dma_read_req s) [0..<read_chunk s]" ctr "''dma''"] assms
  by (force simp: read_pkt_def comp_def)+

lemma send_read_burst_spec:
  assumes "reg_contract ops sent" "0 < words_to_read s" "0 < true_width s"
  shows "\<exists>r q. scheduleReadsForBuffer ops cfg ctr s = Inr (s\<lparr>m_req := r, req_Q := q, pendingBusReadResponses := 1\<rparr>, ctr + 1)
    \<and> mset (sent r @ q) = mset (sent (m_req s) @ req_Q s @ [ReadReq (read_pkt ctr s)])
    \<and> (reg_ready ops \<longrightarrow> q = req_Q s \<and> sent r = sent (m_req s) @ [ReadReq (read_pkt ctr s)])"
proof -
  have chunk: "read_chunk s \<in> {1, 2, 4}" "0 < read_chunk s"
    using burst_chunk_range [of "words_to_read s"] read_chunk_burst [OF assms(2)] by auto
  obtain s1 taken where send: "dma_send ops (ReadReq (read_pkt ctr s)) s = (s1, taken)" by fastforce
  then obtain r q where "s1 = s\<lparr>m_req := r, req_Q := q\<rparr>"
    "mset (sent r @ q) = mset (sent (m_req s) @ req_Q s @ [ReadReq (read_pkt ctr s)])"
    "reg_ready ops \<Longrightarrow> q = req_Q s \<and> sent r = sent (m_req s) @ [ReadReq (read_pkt ctr s)]"
    using dma_send_spec [OF assms(1)] by metis
  with send chunk assms(2) words_per_row_pos [OF assms(3)] show ?thesis
    by (auto simp: scheduleReadsForBuffer.simps send_read_burst_def Let_def Construct_read_burst(1))
qed

lemma handle_answers:
  assumes inv: "fill_inv memf s" and wtr: "0 < words_to_read s"
    and pkt: "payloadList pkt = answers memf (payloadList (read_pkt ctr s))"
    and s1: "s1 = s\<lparr>m_req := r, req_Q := q, pendingBusReadResponses := 1\<rparr>"
  shows "\<exists>s'. dma_handleReadResponse cfg now pkt s1 = Inr s' \<and> fill_inv memf s'
    \<and> bufferIndex s' = bufferIndex s + read_chunk s \<and> wordsTransferred s' = wordsTransferred s
    \<and> totalWords s' = totalWords s \<and> true_width s' = true_width s
    \<and> (srcAddr s', dstAddr s', Source_stride s', Dest_stride s') = (srcAddr s, dstAddr s, Source_stride s, Dest_stride s)
    \<and> m_req s' = r \<and> req_Q s' = q
    \<and> (if words_to_read s' = 0 then currentState s' = WRITING else currentState s' = currentState s)
    \<and> dma_events s' = dma_events s @ [(now + 1, if words_to_read s' = 0 then DmaScheduleWrites else DmaScheduleReads)]
    \<and> m_resp s' = m_resp s \<and> resp_Q s' = resp_Q s \<and> dma_done s' = dma_done s
    \<and> pendingBusWriteResponses s' = pendingBusWriteResponses s"
proof -
  let ?n = "read_chunk s" and ?b = "bufferIndex s"
  have n: "0 < ?n" "?n \<le> words_to_read s"
    using burst_chunk_range(2,3) [of "words_to_read s"] read_chunk_burst [OF wtr] wtr by auto
  have b: "?b + ?n \<le> 256" "wordsToBuffer s + ?n \<le> totalWords s"
    using n inv words_to_read_inv [OF inv] by (auto simp: fill_inv_def)
  have ps: "payloadList pkt = map (\<lambda>i. \<lparr>rr_tid = ctr, rr_instr = blank_instr, rr_op = LW,
      rr_data = src_word memf s (wordsTransferred s + (?b + i)),
      rr_a1 = blank_operand\<lparr>o_imm := of_nat (?b + i)\<rparr>\<rparr>) [0..<?n]"
    using pkt n(1) by (simp add: Construct_read_burst answers_def dma_read_req_def src_word_def comp_def add.assoc)
  have store: "store_beats cfg (payloadList pkt) s1
      = Inr (s1\<lparr>bufferMemory := blit (bufferMemory s) ?b (map rr_data (payloadList pkt))\<rparr>)"
    using inv b by (subst store_beats_run [of _ ?b]) (auto simp: s1 ps fill_inv_def unat_of_nat_u32 simp del: of_nat_add)
  let ?buf = "blit (bufferMemory s) ?b (map rr_data (payloadList pkt))"
  have "take (?b + ?n) ?buf = take ?b (bufferMemory s) @ map rr_data (payloadList pkt)"
    using b inv by (simp add: blit_def ps fill_inv_def)
  also have "\<dots> = map (\<lambda>k. src_word memf s (wordsTransferred s + k)) [0..<?b + ?n]"
    using inv by (simp add: fill_inv_def ps comp_def upt_split [of 0 ?b "?b + ?n"] map_upt_shift)
  finally have tk: "take (?b + ?n) ?buf = map (\<lambda>k. src_word memf s (wordsTransferred s + k)) [0..<?b + ?n]" .
  define s' where "s' = (if words_to_read (s\<lparr>bufferIndex := ?b + ?n, wordsToBuffer := wordsToBuffer s + ?n\<rparr>) > 0
      then dma_schedule [(now + 1, DmaScheduleReads)] (s1\<lparr>bufferMemory := ?buf, pendingBusReadResponses := 0,
        bufferIndex := ?b + ?n, wordsToBuffer := wordsToBuffer s + ?n\<rparr>)
      else dma_schedule [(now + 1, DmaScheduleWrites)] (s1\<lparr>bufferMemory := ?buf, pendingBusReadResponses := 0,
        bufferIndex := ?b + ?n, wordsToBuffer := wordsToBuffer s + ?n, currentState := WRITING\<rparr>))"
  have "dma_handleReadResponse cfg now pkt s1 = Inr s'"
    using store by (simp add: dma_handleReadResponse_def s'_def s1 Let_def words_to_read_def ps)
  moreover have "fill_inv memf s'"
    using inv b tk by (simp add: fill_inv_def s'_def s1 dma_schedule_def ps src_word_def word_addr_def words_per_row_def)
  ultimately show ?thesis
    by (auto simp: s'_def s1 dma_schedule_def words_to_read_def)
qed

text \<open>One round of the read phase: a burst is requested and the memory answers it.\<close>

inductive dma_fill :: "'r reg_ops \<Rightarrow> sim_config \<Rightarrow> (u32 \<Rightarrow> u32) \<Rightarrow> 'r dma \<times> int \<Rightarrow> 'r dma \<times> int \<Rightarrow> bool"
  for ops cfg memf where
  round: "0 < words_to_read s \<Longrightarrow> scheduleReadsForBuffer ops cfg ctr s = Inr (s1, ctr') \<Longrightarrow>
    payloadList pkt = answers memf (payloadList (read_pkt ctr s)) \<Longrightarrow>
    dma_handleReadResponse cfg now pkt s1 = Inr s' \<Longrightarrow> dma_fill ops cfg memf (s, ctr) (s', ctr')"

definition same_transfer :: "'r dma \<Rightarrow> 'r dma \<Rightarrow> bool" where
  "same_transfer s s' \<longleftrightarrow> wordsTransferred s' = wordsTransferred s \<and> totalWords s' = totalWords s
     \<and> true_width s' = true_width s \<and> srcAddr s' = srcAddr s \<and> dstAddr s' = dstAddr s
     \<and> Source_stride s' = Source_stride s \<and> Dest_stride s' = Dest_stride s"

lemma same_transfer_refl [simp]: "same_transfer s s"
  by (simp add: same_transfer_def)

lemma same_transfer_trans: "same_transfer a b \<Longrightarrow> same_transfer b c \<Longrightarrow> same_transfer a c"
  by (simp add: same_transfer_def)

lemma dma_fill_round:
  assumes "reg_contract ops sent" "fill_inv memf s" "0 < words_to_read s"
  shows "\<exists>s'. dma_fill ops cfg memf (s, ctr) (s', ctr + 1) \<and> fill_inv memf s' \<and> same_transfer s s'
    \<and> bufferIndex s < bufferIndex s'
    \<and> (if words_to_read s' = 0 then currentState s' = WRITING else currentState s' = currentState s)"
proof -
  have "0 < true_width s" using assms(2) by (simp add: fill_inv_def)
  from send_read_burst_spec [OF assms(1,3) this, of cfg ctr] obtain r q where
    sch: "scheduleReadsForBuffer ops cfg ctr s = Inr (s\<lparr>m_req := r, req_Q := q, pendingBusReadResponses := 1\<rparr>, ctr + 1)"
    by blast
  obtain pkt :: "read_resp_payload xbar_packet" where pkt: "payloadList pkt = answers memf (payloadList (read_pkt ctr s))"
    by (meson xbar_packet.select_convs(6))
  have "0 < read_chunk s"
    using burst_chunk_range(3) [of "words_to_read s"] read_chunk_burst [OF assms(3)] by simp
  moreover obtain s' where h: "dma_handleReadResponse cfg 0 pkt
      (s\<lparr>m_req := r, req_Q := q, pendingBusReadResponses := 1\<rparr>) = Inr s'"
    and s': "fill_inv memf s'" "bufferIndex s' = bufferIndex s + read_chunk s" "same_transfer s s'"
      "if words_to_read s' = 0 then currentState s' = WRITING else currentState s' = currentState s"
    using handle_answers [OF assms(2,3) pkt refl, where cfg = cfg and now = 0 and r = r and q = q]
    unfolding same_transfer_def by blast
  moreover have "dma_fill ops cfg memf (s, ctr) (s', ctr + 1)"
    using dma_fill.round [OF assms(3) sch pkt h] .
  ultimately show ?thesis by (intro exI [of _ s']) simp
qed

lemma dma_fill_completes:
  assumes "reg_contract ops sent"
  shows "fill_inv memf s \<Longrightarrow> 0 < words_to_read s \<Longrightarrow>
    \<exists>s' ctr'. (dma_fill ops cfg memf)\<^sup>*\<^sup>* (s, ctr) (s', ctr') \<and> fill_inv memf s' \<and> same_transfer s s'
      \<and> words_to_read s' = 0 \<and> currentState s' = WRITING"
proof (induction "256 - bufferIndex s" arbitrary: s ctr rule: less_induct)
  case less
  from dma_fill_round [OF assms less.prems, of cfg ctr] obtain s1 where s1: "dma_fill ops cfg memf (s, ctr) (s1, ctr + 1)"
    "fill_inv memf s1" "same_transfer s s1" "bufferIndex s < bufferIndex s1"
    "words_to_read s1 = 0 \<Longrightarrow> currentState s1 = WRITING" by (auto split: if_splits)
  show ?case
  proof (cases "words_to_read s1 = 0")
    case True
    with s1 show ?thesis by blast
  next
    case False
    then have "0 < words_to_read s1" by simp
    moreover have "256 - bufferIndex s1 < 256 - bufferIndex s"
      using s1(2,4) by (auto simp: fill_inv_def)
    ultimately obtain s' ctr' where "(dma_fill ops cfg memf)\<^sup>*\<^sup>* (s1, ctr + 1) (s', ctr')" "fill_inv memf s'"
      "same_transfer s1 s'" "words_to_read s' = 0" "currentState s' = WRITING"
      using less.hyps [of s1 "ctr + 1"] s1(2) by blast
    with s1(1,3) show ?thesis
      by (meson converse_rtranclp_into_rtranclp same_transfer_trans)
  qed
qed

section \<open>Completion\<close>

text \<open>The handling of \<open>n\<close> write responses.\<close>

fun completions :: "'r reg_ops \<Rightarrow> sim_config \<Rightarrow> nat \<Rightarrow> 'r dma \<times> int \<Rightarrow> ('r dma \<times> int) result" where
  "completions ops cfg 0 sc = Inr sc"
| "completions ops cfg (Suc n) sc =
     bindE (dma_handleWriteCompletion ops cfg (snd sc) (fst sc)) (completions ops cfg n)"

lemma completions_early:
  "int n < pendingBusWriteResponses s \<or> pendingBusWriteResponses s \<le> 0 \<Longrightarrow>
   completions ops cfg n (s, ctr) = Inr (s\<lparr>pendingBusWriteResponses := pendingBusWriteResponses s - int n\<rparr>, ctr)"
proof (induction n arbitrary: s)
  case (Suc n)
  then show ?case
    using Suc.IH [of "s\<lparr>pendingBusWriteResponses := pendingBusWriteResponses s - 1\<rparr>"]
    by (auto simp: dma_handleWriteCompletion_def Let_def algebra_simps)
qed simp

lemma completions_snoc:
  "completions ops cfg (Suc n) sc = bindE (completions ops cfg n sc) (\<lambda>(s, c). dma_handleWriteCompletion ops cfg c s)"
proof (induction n arbitrary: sc)
  case 0
  then show ?case by (cases "dma_handleWriteCompletion ops cfg (snd sc) (fst sc)"; cases sc) simp_all
next
  case (Suc n)
  let ?f = "\<lambda>(s, c). dma_handleWriteCompletion ops cfg c s"
  have "completions ops cfg (Suc n) = (\<lambda>sc. bindE (completions ops cfg n sc) ?f)"
    using Suc.IH by (rule ext)
  then have "completions ops cfg (Suc (Suc n)) sc =
      bindE (dma_handleWriteCompletion ops cfg (snd sc) (fst sc)) (\<lambda>sc. bindE (completions ops cfg n sc) ?f)"
    by (simp only: completions.simps(2) [of ops cfg "Suc n"])
  then show ?case by (simp add: bindE_assoc)
qed

section \<open>Properties\<close>

text \<open>
  C10: one pass over the buffer copies words. From the start of a read phase, the bursts the
  controller requests, answered by a memory with contents \<open>memf\<close>, fill the buffer with the next
  256 words of the source matrix, or all that are left; the write phase then emits, in order and
  in legal bursts of 1, 2 or 4 words, exactly one full-word write per buffered word, with the
  source word as data and the address of its row and column in the destination; the bursts are
  in the register or in the queue, and none is lost or duplicated.
\<close>

theorem dma_phase_copies:
  assumes "reg_contract ops sent" "fill_inv memf s" "bufferIndex s = 0" "wordsTransferred s < totalWords s"
  shows "\<exists>s1 ctr1 s2 ctr2 pkts. (dma_fill ops cfg memf)\<^sup>*\<^sup>* (s, ctr) (s1, ctr1)
    \<and> scheduleWritesFromBuffer ops cfg ctr1 s1 = Inr (s2, ctr2)
    \<and> wordsTransferred s2 = wordsTransferred s + min 256 (totalWords s - wordsTransferred s)
    \<and> mset (sent (m_req s2) @ req_Q s2) = mset (sent (m_req s1) @ req_Q s1 @ map WriteReq pkts)
    \<and> (\<forall>p \<in> set pkts. legal_burst p)
    \<and> map write_key (concat (map payloadList pkts)) =
        map (\<lambda>g. (SW, word_addr s (dstAddr s) (Dest_stride s) g, src_word memf s g))
          [wordsTransferred s..<wordsTransferred s2]"
proof -
  have "0 < words_to_read s" using assms by (simp add: words_to_read_inv fill_inv_def)
  from dma_fill_completes [OF assms(1,2) this, of cfg ctr] obtain s1 ctr1 where
    run: "(dma_fill ops cfg memf)\<^sup>*\<^sup>* (s, ctr) (s1, ctr1)" and inv: "fill_inv memf s1"
    and same: "same_transfer s s1" and w0: "words_to_read s1 = 0" by blast
  let ?n = "bufferIndex s1" and ?t = "wordsTransferred s"
  have n: "?n = min 256 (totalWords s - ?t)" "0 < ?n"
    using inv same w0 assms(4) words_to_read_inv [OF inv] by (auto simp: fill_inv_def same_transfer_def)
  let ?s0 = "s1\<lparr>pendingBusWriteResponses := 0\<rparr>"
  have "0 < true_width ?s0" "?n \<le> length (bufferMemory ?s0)" using inv by (simp_all add: fill_inv_def)
  from write_bursts_spec [OF assms(1) this, of 0 cfg ctr1] obtain r q k pkts ctr2 where
    wb: "write_bursts ops cfg ?n 0 ctr1 ?s0 = Inr (?s0\<lparr>m_req := r, req_Q := q, pendingBusWriteResponses := int k\<rparr>, ctr2)"
      "mset (sent r @ q) = mset (sent (m_req s1) @ req_Q s1 @ map WriteReq pkts)"
      "map write_key (concat (map payloadList pkts)) = map (write_key \<circ> buffer_write ?s0) [0..<?n]"
      "\<forall>p \<in> set pkts. legal_burst p"
    by auto
  have "map (write_key \<circ> buffer_write ?s0) [0..<?n] =
      map (\<lambda>g. (SW, word_addr s (dstAddr s) (Dest_stride s) g, src_word memf s g)) [?t..<?t + ?n]"
    using buffer_write_keys [OF inv] same
    by (simp add: buffer_write_cong src_word_def word_addr_def words_per_row_def same_transfer_def cong: map_cong)
  with wb(3) have keys: "map write_key (concat (map payloadList pkts)) =
      map (\<lambda>g. (SW, word_addr s (dstAddr s) (Dest_stride s) g, src_word memf s g)) [?t..<?t + ?n]"
    by simp
  define s2 where "s2 = ?s0\<lparr>m_req := r, req_Q := q, pendingBusWriteResponses := int k,
    wordsTransferred := wordsTransferred s1 + ?n\<rparr>"
  have "scheduleWritesFromBuffer ops cfg ctr1 s1 = Inr (s2, ctr2)"
    using wb(1) n(2) by (simp add: scheduleWritesFromBuffer.simps s2_def)
  moreover have s2: "wordsTransferred s2 = ?t + ?n" "m_req s2 = r" "req_Q s2 = q"
    using same by (simp_all add: s2_def same_transfer_def)
  moreover have "wordsTransferred s2 = ?t + min 256 (totalWords s - ?t)"
    using s2(1) n(1) by simp
  ultimately show ?thesis
    using run wb(2,4) keys
    by (intro exI [of _ s1] exI [of _ ctr1] exI [of _ s2] exI [of _ ctr2] exI [of _ pkts]) simp
qed

text \<open>A concrete controller: a transfer of two words of one row.\<close>

definition ex_dma :: "sim_packet list dma" where
  "ex_dma = \<lparr>m_req = [], m_resp = [], enabled = False, dma_done = False, srcAddr = 0x2000, dstAddr = 0x3000,
     dmaSizeCfg = 0x08080700, true_width = 8, true_height = 1, Source_stride = 8, Dest_stride = 8,
     totalElements = 8, wordsToBuffer = 0, wordsTransferred = 0, totalWords = 2, bufferIndex = 0,
     pendingBusReadResponses = 0, pendingBusWriteResponses = 0, bufferMemory = replicate 256 0,
     currentState = IDLE, req_Q = [], resp_Q = [], dma_events = []\<rparr>"

theorem dma_phase_copies_witness:
  "\<exists>s1 ctr1 s2 ctr2 (pkts :: write_req_payload xbar_packet list).
      scheduleWritesFromBuffer slot_ops default_config ctr1 s1 = Inr (s2, ctr2)
    \<and> wordsTransferred s2 = 2
    \<and> map write_key (concat (map payloadList pkts)) = [(SW, 0x3000, 0x2001), (SW, 0x3004, 0x2005)]"
proof -
  let ?f = "\<lambda>a. a + 1"
  have "fill_inv ?f ex_dma" "bufferIndex ex_dma = 0" "wordsTransferred ex_dma < totalWords ex_dma"
    by (simp_all add: fill_inv_def ex_dma_def)
  from dma_phase_copies [OF slot_ops_contract this, of default_config 0]
  obtain s1 ctr1 s2 ctr2 and pkts :: "write_req_payload xbar_packet list"
    where r: "scheduleWritesFromBuffer slot_ops default_config ctr1 s1 = Inr (s2, ctr2)"
    and w: "wordsTransferred s2 = wordsTransferred ex_dma + min 256 (totalWords ex_dma - wordsTransferred ex_dma)"
    and k: "map write_key (concat (map payloadList pkts)) =
      map (\<lambda>g. (SW, word_addr ex_dma (dstAddr ex_dma) (Dest_stride ex_dma) g, src_word ?f ex_dma g))
        [wordsTransferred ex_dma..<wordsTransferred s2]"
    by blast
  have "wordsTransferred s2 = 2" using w by (simp add: ex_dma_def)
  moreover have "wordsTransferred ex_dma = 0" by (simp add: ex_dma_def)
  moreover have "map (\<lambda>g. (SW, word_addr ex_dma (dstAddr ex_dma) (Dest_stride ex_dma) g, src_word ?f ex_dma g)) [0..<2]
      = [(SW, 0x3000, 0x2001), (SW, 0x3004, 0x2005)]"
  proof -
    have "words_per_row ex_dma = 2" "[0..<2] = [0, 1 :: nat]"
      by (simp_all add: words_per_row_def ex_dma_def upt_conv_Cons)
    moreover have "srcAddr ex_dma = 0x2000" "dstAddr ex_dma = 0x3000" "Source_stride ex_dma = 8"
      by (simp_all add: ex_dma_def)
    ultimately show ?thesis by (simp add: word_addr_def src_word_def)
  qed
  ultimately have "scheduleWritesFromBuffer slot_ops default_config ctr1 s1 = Inr (s2, ctr2)
    \<and> wordsTransferred s2 = 2
    \<and> map write_key (concat (map payloadList pkts)) = [(SW, 0x3000, 0x2001), (SW, 0x3004, 0x2005)]"
    using r k by simp
  then show ?thesis by (intro exI)
qed

text \<open>
  C25: a driver that stores to the source, destination and size registers, in any order and any
  number of times, is always served, and afterwards a read of a register over the bus returns
  the last value stored to it.
\<close>

theorem dma_driver_readback:
  assumes "fst ` set avs \<subseteq> dma_cfg_regs" "map_of (rev avs) b = Some v"
    and "rq_caller q = ''cpu''" "rq_addr q = b"
  shows "\<exists>s' p. foldl (\<lambda>r (a, v). bindE r (\<lambda>s. bindE (dma_writeMMIO ops cfg ctr (dma_store a v) s)
        (\<lambda>(s', ctr'). Inr s'))) (Inr s) avs = Inr s'
    \<and> dma_readMMIO cfg q s' = Inr (s'\<lparr>resp_Q := resp_Q s' @ [ReadResp p]\<rparr>) \<and> map rr_data (payloadList p) = [v]"
proof -
  from dma_regs.driver_readback [OF assms(1,2), of ops cfg ctr s] obtain s' where
    s': "foldl (\<lambda>r (a, v). bindE r (\<lambda>s. bindE (dma_writeMMIO ops cfg ctr (dma_store a v) s)
        (\<lambda>(s', ctr'). Inr s'))) (Inr s) avs = Inr s'" "dma_reg_read s' (b AND 0x3F) = Some v"
    by blast
  then show ?thesis
    using assms(3,4)
    by (intro exI [of _ s'] exI [of _ "Construct_MemReadRespPkt [\<lparr>rr_tid = rq_tid q, rr_instr = rq_instr q,
          rr_op = rq_op q, rr_data = v, rr_a1 = rq_a1 q\<rparr>] ''dma'' ''cpu''"])
      (simp add: dma_readMMIO_def dma_caller_ok_def, simp add: packet_defs)
qed

theorem dma_driver_readback_witness:
  "\<exists>s' p. foldl (\<lambda>r (a, v). bindE r (\<lambda>s. bindE (dma_writeMMIO slot_ops default_config 0 (dma_store a v) s)
        (\<lambda>(s', ctr'). Inr s'))) (Inr ex_dma) [(0xF004, 7), (0xF008, 9), (0xF004, 8)] = Inr s'
    \<and> dma_readMMIO default_config \<lparr>rq_caller = ''cpu'', rq_tid = 3, rq_instr = blank_instr, rq_op = LW,
        rq_addr = 0xF004, rq_a1 = blank_operand\<rparr> s' = Inr (s'\<lparr>resp_Q := resp_Q s' @ [ReadResp p]\<rparr>)
    \<and> map rr_data (payloadList p) = [8]"
  by (rule dma_driver_readback) (simp_all add: dma_cfg_regs_def)

text \<open>The state in which the first burst of a transfer is requested.\<close>

definition transfer_begun :: "'r dma \<Rightarrow> 'r dma" where
  "transfer_begun s =
     (let w = cfg_byte (dmaSizeCfg s) 8 + 1; h = cfg_byte (dmaSizeCfg s) 0 + 1
      in s\<lparr>enabled := True, dma_done := False, true_width := w, true_height := h,
           Source_stride := cfg_byte (dmaSizeCfg s) 24, Dest_stride := cfg_byte (dmaSizeCfg s) 16,
           totalElements := w * h, totalWords := (w + 3) div 4 * h, wordsTransferred := 0, bufferIndex := 0,
           wordsToBuffer := 0, currentState := READING\<rparr>)"

lemma enable_begins:
  assumes "length (bufferMemory s) = 256" "bit data 0"
  shows "dma_reg_write ops cfg ctr 0 data s = scheduleReadsForBuffer ops cfg ctr (transfer_begun s)"
    "fill_inv memf (transfer_begun s)" "0 < words_to_read (transfer_begun s)" "0 < true_width (transfer_begun s)"
proof -
  have words: "w div 4 + (if w mod 4 \<noteq> 0 then 1 else 0) = (w + 3) div 4" for w :: nat
    by presburger
  have "data AND 1 \<noteq> 0" using assms(2) by (simp add: and_one_eq odd_iff_mod_2_eq_one bit_0)
  then show "dma_reg_write ops cfg ctr 0 data s = scheduleReadsForBuffer ops cfg ctr (transfer_begun s)"
    unfolding dma_reg_write_def initialized_transaction_def transfer_begun_def Let_def words startTransfer_def by simp
  show inv: "fill_inv memf (transfer_begun s)" for memf using assms(1) by (simp add: fill_inv_def transfer_begun_def Let_def)
  show "0 < words_to_read (transfer_begun s)"
    unfolding words_to_read_inv [OF inv] by (simp add: transfer_begun_def Let_def div_greater_zero_iff)
  show "0 < true_width (transfer_begun s)" by (simp add: transfer_begun_def Let_def)
qed

lemma dma_enable_spec:
  assumes "reg_contract ops sent" "length (bufferMemory s) = 256" "bit data 0"
  defines "w \<equiv> cfg_byte (dmaSizeCfg s) 8 + 1" and "h \<equiv> cfg_byte (dmaSizeCfg s) 0 + 1"
  shows "\<exists>s'. dma_reg_write ops cfg ctr 0 data s = Inr (s', ctr + 1)
    \<and> enabled s' \<and> \<not> dma_done s' \<and> currentState s' = READING \<and> pendingBusReadResponses s' = 1
    \<and> true_width s' = w \<and> true_height s' = h \<and> totalWords s' = (w + 3) div 4 * h
    \<and> Source_stride s' = cfg_byte (dmaSizeCfg s) 24 \<and> Dest_stride s' = cfg_byte (dmaSizeCfg s) 16
    \<and> fill_inv memf s' \<and> bufferIndex s' = 0 \<and> wordsTransferred s' = 0
    \<and> mset (sent (m_req s') @ req_Q s') = mset (sent (m_req s) @ req_Q s @ [ReadReq (read_pkt ctr s')])
    \<and> srcAddr s' = srcAddr s \<and> dstAddr s' = dstAddr s
    \<and> (reg_ready ops \<longrightarrow> req_Q s' = req_Q s \<and> sent (m_req s') = sent (m_req s) @ [ReadReq (read_pkt ctr s')])
    \<and> m_resp s' = m_resp s \<and> resp_Q s' = resp_Q s \<and> dma_events s' = dma_events s"
proof -
  let ?s = "transfer_begun s"
  note begun = enable_begins [OF assms(2,3)]
  from send_read_burst_spec [OF assms(1) begun(3,4), of cfg ctr] obtain r q where
    sch: "scheduleReadsForBuffer ops cfg ctr ?s = Inr (?s\<lparr>m_req := r, req_Q := q, pendingBusReadResponses := 1\<rparr>, ctr + 1)"
      "mset (sent r @ q) = mset (sent (m_req s) @ req_Q s @ [ReadReq (read_pkt ctr ?s)])"
      "reg_ready ops \<Longrightarrow> q = req_Q s \<and> sent r = sent (m_req s) @ [ReadReq (read_pkt ctr ?s)]"
    by (auto simp: transfer_begun_def Let_def)
  let ?s' = "?s\<lparr>m_req := r, req_Q := q, pendingBusReadResponses := 1\<rparr>"
  have "dma_reg_write ops cfg ctr 0 data s = Inr (?s', ctr + 1)" using begun(1) sch(1) by simp
  moreover have "read_pkt ctr ?s' = read_pkt ctr ?s"
    by (simp add: read_pkt_def read_chunk_def words_to_read_def dma_read_req_def word_addr_def words_per_row_def fun_eq_iff cong: map_cong)
  moreover have "fill_inv memf ?s'"
    using begun(2) [of memf] by (simp add: fill_inv_def src_word_def word_addr_def words_per_row_def)
  ultimately show ?thesis
    using sch(2,3) by (intro exI [of _ ?s'] conjI impI) (simp_all add: transfer_begun_def Let_def w_def h_def)
qed

text \<open>
  Setting the enable bit decodes the size register (width and height minus one, and the two
  strides, one byte each), resets the progress counters and requests the first burst of the
  source rows.
\<close>

lemma dma_enable_starts:
  assumes "reg_contract ops sent" "length (bufferMemory s) = 256" "bit data 0"
  defines "w \<equiv> cfg_byte (dmaSizeCfg s) 8 + 1" and "h \<equiv> cfg_byte (dmaSizeCfg s) 0 + 1"
  shows "\<exists>s'. dma_reg_write ops cfg ctr 0 data s = Inr (s', ctr + 1)
    \<and> enabled s' \<and> \<not> dma_done s' \<and> currentState s' = READING \<and> pendingBusReadResponses s' = 1
    \<and> true_width s' = w \<and> true_height s' = h \<and> totalWords s' = (w + 3) div 4 * h
    \<and> Source_stride s' = cfg_byte (dmaSizeCfg s) 24 \<and> Dest_stride s' = cfg_byte (dmaSizeCfg s) 16
    \<and> fill_inv memf s' \<and> bufferIndex s' = 0 \<and> wordsTransferred s' = 0
    \<and> mset (sent (m_req s') @ req_Q s') = mset (sent (m_req s) @ req_Q s @ [ReadReq (read_pkt ctr s')])"
  unfolding w_def h_def using dma_enable_spec [OF assms(1-3), of cfg ctr memf] by blast

text \<open>
  With \<open>k\<close> write responses pending and all words written, the transfer is reported done by the
  \<open>k\<close>-th response and not before: then the buffer is cleared, \<open>done\<close> is set and the controller is
  disabled and idle.
\<close>

lemma completions_done:
  assumes "pendingBusWriteResponses s = int k" "0 < k" "totalWords s \<le> wordsTransferred s"
    and "bufferIndex s \<le> length (bufferMemory s)" "n < k"
  shows "completions ops cfg n (s, ctr) = Inr (s\<lparr>pendingBusWriteResponses := int (k - n)\<rparr>, ctr)
    \<and> completions ops cfg k (s, ctr) = Inr (s\<lparr>pendingBusWriteResponses := 0,
        bufferMemory := replicate (bufferIndex s) 0 @ drop (bufferIndex s) (bufferMemory s), bufferIndex := 0,
        currentState := IDLE, dma_done := True, enabled := False\<rparr>, ctr)"
proof -
  have run: "completions ops cfg m (s, ctr) = Inr (s\<lparr>pendingBusWriteResponses := int (k - m)\<rparr>, ctr)" if "m < k" for m
    using completions_early [of m s ops cfg ctr] that assms(1) by (simp add: of_nat_diff)
  obtain m where k: "k = Suc m" using assms(2) by (cases k) auto
  have "completions ops cfg k (s, ctr) = dma_handleWriteCompletion ops cfg ctr (s\<lparr>pendingBusWriteResponses := 1\<rparr>)"
    unfolding k completions_snoc using run [of m] k by simp
  with run [OF assms(5)] assms(3,4) show ?thesis
    by (simp add: dma_handleWriteCompletion_def clear_buffer_def transaction_complete_def Let_def)
qed

text \<open>
  C26: the pending counter counts only the bursts that had to be queued. If the register took all
  of them, the counter is 0 when the first response arrives, becomes negative and stays so: no
  number of write responses completes the transfer.
\<close>

theorem dma_unqueued_never_done:
  assumes "reg_contract ops sent" "0 < true_width s" "0 < bufferIndex s" "bufferIndex s \<le> length (bufferMemory s)"
    and "scheduleWritesFromBuffer ops cfg ctr s = Inr (s', ctr')" "req_Q s' = req_Q s"
  shows "completions ops cfg n (s', ctr') = Inr (s'\<lparr>pendingBusWriteResponses := - int n\<rparr>, ctr')"
proof -
  obtain r q k where "write_bursts ops cfg (bufferIndex s) 0 ctr (s\<lparr>pendingBusWriteResponses := 0\<rparr>) =
      Inr (s\<lparr>m_req := r, req_Q := q, pendingBusWriteResponses := int k\<rparr>, ctr')"
    "length q = length (req_Q s) + k" "req_Q s' = q" "pendingBusWriteResponses s' = int k"
    using write_bursts_spec [OF assms(1), of "s\<lparr>pendingBusWriteResponses := 0\<rparr>" "bufferIndex s" 0 cfg ctr] assms(2-5)
    by (auto simp: scheduleWritesFromBuffer.simps)
  with assms(6) have "pendingBusWriteResponses s' = 0" by simp
  then show ?thesis using completions_early [of n s' ops cfg ctr'] by simp
qed

theorem dma_unqueued_never_done_witness:
  "\<exists>s' ctr'. scheduleWritesFromBuffer free_ops default_config 0 (ex_dma\<lparr>bufferIndex := 2\<rparr>) = Inr (s', ctr')
     \<and> completions free_ops default_config 9 (s', ctr') = Inr (s'\<lparr>pendingBusWriteResponses := - int 9\<rparr>, ctr')"
proof -
  let ?s = "ex_dma\<lparr>bufferIndex := 2\<rparr>" and ?z = "ex_dma\<lparr>bufferIndex := 2, pendingBusWriteResponses := 0\<rparr>"
  have ex: "true_width ex_dma = 8" "length (bufferMemory ex_dma) = 256" "req_Q ex_dma = []"
    by (simp_all add: ex_dma_def)
  have two: "0 < true_width ?z" by (simp add: ex)
  define ws where "ws = [buffer_write ?z 0, buffer_write ?z 1]"
  have "ws \<noteq> []" by (simp add: ws_def)
  have "write_bursts free_ops default_config 2 2 1 s = Inr (s, 1)" for s
    by (simp add: write_bursts.simps)
  moreover have "createWriteRequestsForChunk default_config ?z 0 0 2 [] = Inr ws"
    using createWriteRequests_full [OF two, of 0 0 2 default_config "[]"] by (simp add: ws_def ex)
  ultimately have "write_bursts free_ops default_config 2 0 0 ?z =
      Inr (?z\<lparr>m_req := m_req ex_dma @ [WriteReq (burst_of 0 ws)], req_Q := []\<rparr>, 1)"
    using Construct_write_burst [OF \<open>ws \<noteq> []\<close>, of 0]
    by (subst write_bursts.simps)
      (simp add: writeChunkCalculation_greedy two burst_chunk_def ex dma_send_def send_or_queue_def Let_def)
  then obtain s' ctr' where s': "scheduleWritesFromBuffer free_ops default_config 0 ?s = Inr (s', ctr')" "req_Q s' = req_Q ?s"
    by (auto simp: scheduleWritesFromBuffer.simps ex)
  have "0 < true_width ?s" "0 < bufferIndex ?s" "bufferIndex ?s \<le> length (bufferMemory ?s)"
    by (simp_all add: ex)
  from dma_unqueued_never_done [OF free_ops_contract this s', of 9] s'(1) show ?thesis by blast
qed

text \<open>
  Packets leave each of the two queues in order, and none is lost or duplicated, whatever the
  registers decide.
\<close>

lemma dma_send_fifo:
  assumes "reg_contract ops sent"
  shows "sent (m_req (dma_trySendPacket ops s)) @ req_Q (dma_trySendPacket ops s) = sent (m_req s) @ req_Q s
    \<and> sent (m_resp (dma_trySendPacket ops s)) @ resp_Q (dma_trySendPacket ops s) = sent (m_resp s) @ resp_Q s"
  using try_send_conserves [OF assms, of "m_req s" "req_Q s"] try_send_conserves [OF assms, of "m_resp s" "resp_Q s"]
  by (auto simp: dma_trySendPacket_def split: prod.splits)

end
