(* ===== verification/SystolicCore.thy ===== *)
theory SystolicCore
  imports Prelude
begin

text \<open>
  The compute part of the systolic array (\<open>soc/include/SystolicArray.hh\<close>,
  \<open>soc/libs/SystolicArray.cc\<close>): the 2x2 grid of processing elements, the cycle functions
  \<open>Preload_Weight\<close>, \<open>PropagateA_And_MAC\<close> and \<open>FlushAndEmit\<close>, the tile loads and the queue of tiles
  that makes up a matrix product. The grid, \<open>Result\<close> and \<open>emitRow\<close> are shared objects of one
  tile; a new tile starts with fresh ones and is only started when the previous one is done.

  \<open>FlushAndEmit\<close> reads \<open>pe[i][-1].fwdIn\<close>, an element before the start of a vector. Its value is the
  parameter \<open>junk\<close>, a function of the tick and the row; the results below hold for every
  \<open>junk\<close>.
\<close>

section \<open>Processing elements\<close>

definition SASIZE :: nat where
  "SASIZE = 2"

record Valid8 =
  v8_valid :: bool
  v8_data :: u8

record Valid16 =
  v16_valid :: bool
  v16_sum :: u16

record PE =
  weightReg :: Valid8
  inReg :: Valid8
  fwdIn :: Valid8
  psumReg :: Valid16
  fwdPsum :: Valid16

type_synonym grid = "PE list list"

definition new_pe :: PE where
  "new_pe = \<lparr>weightReg = \<lparr>v8_valid = False, v8_data = 0\<rparr>, inReg = \<lparr>v8_valid = False, v8_data = 0\<rparr>,
     fwdIn = \<lparr>v8_valid = False, v8_data = 0\<rparr>, psumReg = \<lparr>v16_valid = False, v16_sum = 0\<rparr>,
     fwdPsum = \<lparr>v16_valid = False, v16_sum = 0\<rparr>\<rparr>"

definition Construct_PE :: "nat \<Rightarrow> grid" where
  "Construct_PE n = replicate n (replicate n new_pe)"

definition upd2 :: "'a list list \<Rightarrow> nat \<Rightarrow> nat \<Rightarrow> ('a \<Rightarrow> 'a) \<Rightarrow> 'a list list" where
  "upd2 m i j f = m[i := (m ! i)[j := f (m ! i ! j)]]"

text \<open>The index pairs of the nested loops, in the order the code visits them.\<close>

definition up_up :: "(nat \<times> nat) list" where
  "up_up = [(i, j). i \<leftarrow> [0..<SASIZE], j \<leftarrow> [0..<SASIZE]]"

definition up_down :: "(nat \<times> nat) list" where
  "up_down = [(i, j). i \<leftarrow> [0..<SASIZE], j \<leftarrow> rev [0..<SASIZE]]"

definition down_up :: "(nat \<times> nat) list" where
  "down_up = [(i, j). i \<leftarrow> rev [0..<SASIZE], j \<leftarrow> [0..<SASIZE]]"

section \<open>One cycle\<close>

definition Preload_Weight :: "u8 list list \<Rightarrow> nat \<Rightarrow> grid \<Rightarrow> grid" where
  "Preload_Weight B_Tile cycle_cnt pe0 =
     (let pe1 = foldl (\<lambda>pe (i, j). upd2 pe i j (\<lambda>p. p\<lparr>weightReg := weightReg (pe ! (i - 1) ! j)\<rparr>)) pe0
                  [(i, j). i \<leftarrow> rev [1..<SASIZE], j \<leftarrow> [0..<SASIZE]]
      in foldl (\<lambda>pe j. upd2 pe 0 j (\<lambda>p. p\<lparr>weightReg :=
           \<lparr>v8_valid = True, v8_data = B_Tile ! (SASIZE - 1 - cycle_cnt) ! j\<rparr>\<rparr>)) pe1 [0..<SASIZE])"

text \<open>Injecting a column of the A tile at the left edge, or shifting what the left neighbour forwards.\<close>

definition inject_A :: "u8 list list \<Rightarrow> nat \<Rightarrow> grid \<Rightarrow> grid" where
  "inject_A A_Tile cycle pe0 =
     foldl (\<lambda>pe (i, j). upd2 pe i j (\<lambda>p. p\<lparr>inReg :=
       (if j = 0 then
          (let aCol = int cycle - int i; ok = (0 \<le> aCol \<and> aCol < int SASIZE)
           in \<lparr>v8_valid = ok, v8_data = (if ok then A_Tile ! nat aCol ! i else 0)\<rparr>)
        else fwdIn (pe ! i ! (j - 1)))\<rparr>)) pe0 up_down"

text \<open>Multiply and accumulate, from the bottom row up.\<close>

definition mac :: "grid \<Rightarrow> grid" where
  "mac pe0 =
     foldl (\<lambda>pe (i, j). upd2 pe i j (\<lambda>P. P\<lparr>psumReg :=
       (if v8_valid (weightReg P) \<and> v8_valid (inReg P) then
          \<lparr>v16_valid = True,
           v16_sum = (if i > 0 \<and> v16_valid (fwdPsum (pe ! (i - 1) ! j)) then v16_sum (fwdPsum (pe ! (i - 1) ! j)) else 0)
             + ucast (v8_data (inReg P)) * ucast (v8_data (weightReg P))\<rparr>
        else (psumReg P)\<lparr>v16_valid := False\<rparr>)\<rparr>)) pe0 down_up"

definition forward :: "grid \<Rightarrow> grid" where
  "forward pe0 = foldl (\<lambda>pe (i, j). upd2 pe i j (\<lambda>p. p\<lparr>fwdIn := inReg p, fwdPsum := psumReg p\<rparr>)) pe0 down_up"

text \<open>A valid sum in the bottom row goes to the next free row of its column of \<open>Result\<close>.\<close>

definition emit_col :: "nat \<Rightarrow> grid \<times> u16 list list \<times> u16 list \<Rightarrow> grid \<times> u16 list list \<times> u16 list" where
  "emit_col j st = (case st of (pe, Result, emitRow) \<Rightarrow>
     (let bot = psumReg (pe ! (SASIZE - 1) ! j)
      in if v16_valid bot \<and> emitRow ! j < of_nat SASIZE
         then (upd2 pe (SASIZE - 1) j (\<lambda>p. p\<lparr>psumReg := bot\<lparr>v16_valid := False\<rparr>,
                 fwdPsum := (fwdPsum p)\<lparr>v16_valid := False\<rparr>\<rparr>),
               upd2 Result (unat (emitRow ! j)) j (\<lambda>_. v16_sum bot),
               emitRow[j := emitRow ! j + 1])
         else (pe, Result, emitRow)))"

definition emit :: "grid \<times> u16 list list \<times> u16 list \<Rightarrow> grid \<times> u16 list list \<times> u16 list" where
  "emit st = foldl (\<lambda>st j. emit_col j st) st [0..<SASIZE]"

definition PropagateA_And_MAC ::
  "u8 list list \<Rightarrow> nat \<Rightarrow> grid \<times> u16 list list \<times> u16 list \<Rightarrow> grid \<times> u16 list list \<times> u16 list" where
  "PropagateA_And_MAC A_Tile cycle st = (case st of (pe, Result, emitRow) \<Rightarrow>
     emit (forward (mac (inject_A A_Tile cycle pe)), Result, emitRow))"

definition shift_in :: "(nat \<Rightarrow> Valid8) \<Rightarrow> grid \<Rightarrow> grid" where
  "shift_in junk pe0 =
     foldl (\<lambda>pe (i, j). upd2 pe i j (\<lambda>p. p\<lparr>inReg := (if j = 0 then junk i else fwdIn (pe ! i ! (j - 1)))\<rparr>)) pe0 up_down"

definition FlushAndEmit ::
  "(nat \<Rightarrow> Valid8) \<Rightarrow> grid \<times> u16 list list \<times> u16 list \<Rightarrow> grid \<times> u16 list list \<times> u16 list" where
  "FlushAndEmit junk st = (case st of (pe, Result, emitRow) \<Rightarrow>
     emit (forward (mac (shift_in junk pe)), Result, emitRow))"

section \<open>The product of a tile\<close>

text \<open>The seven cycles of a tile, in the order of their ticks.\<close>

definition tile_cycles ::
  "(nat \<Rightarrow> Valid8) \<Rightarrow> (nat \<Rightarrow> Valid8) \<Rightarrow> u8 list list \<Rightarrow> u8 list list \<Rightarrow> grid \<times> u16 list list \<times> u16 list" where
  "tile_cycles junk1 junk2 A B =
     (let pe = Preload_Weight B 1 (Preload_Weight B 0 (Construct_PE SASIZE));
          st = (pe, replicate SASIZE (replicate SASIZE 0), replicate SASIZE 0);
          st = PropagateA_And_MAC A 2 (PropagateA_And_MAC A 1 (PropagateA_And_MAC A 0 st))
      in FlushAndEmit junk2 (FlushAndEmit junk1 st))"

lemmas loop_defs = up_up_def up_down_def down_up_def SASIZE_def

lemma upd2_grid:
  "upd2 [[a, b], [c, d]] 0 0 f = [[f a, b], [c, d]]" "upd2 [[a, b], [c, d]] 0 (Suc 0) f = [[a, f b], [c, d]]"
  "upd2 [[a, b], [c, d]] (Suc 0) 0 f = [[a, b], [f c, d]]" "upd2 [[a, b], [c, d]] (Suc 0) (Suc 0) f = [[a, b], [c, f d]]"
  by (simp_all add: upd2_def)

lemma loops_eval:
  "up_up = [(0, 0), (0, Suc 0), (Suc 0, 0), (Suc 0, Suc 0)]"
  "up_down = [(0, Suc 0), (0, 0), (Suc 0, Suc 0), (Suc 0, 0)]"
  "down_up = [(Suc 0, 0), (Suc 0, Suc 0), (0, 0), (0, Suc 0)]"
  by (simp_all add: loop_defs upt_rec)

text \<open>Each stage on an explicit grid.\<close>

lemma preload_grid:
  "Preload_Weight [[b00, b01], [b10, b11]] 0 [[a, b], [c, d]] =
     [[a\<lparr>weightReg := \<lparr>v8_valid = True, v8_data = b10\<rparr>\<rparr>, b\<lparr>weightReg := \<lparr>v8_valid = True, v8_data = b11\<rparr>\<rparr>],
      [c\<lparr>weightReg := weightReg a\<rparr>, d\<lparr>weightReg := weightReg b\<rparr>]]"
  "Preload_Weight [[b00, b01], [b10, b11]] (Suc 0) [[a, b], [c, d]] =
     [[a\<lparr>weightReg := \<lparr>v8_valid = True, v8_data = b00\<rparr>\<rparr>, b\<lparr>weightReg := \<lparr>v8_valid = True, v8_data = b01\<rparr>\<rparr>],
      [c\<lparr>weightReg := weightReg a\<rparr>, d\<lparr>weightReg := weightReg b\<rparr>]]"
  by (simp_all add: Preload_Weight_def SASIZE_def upd2_grid upt_rec numeral_2_eq_2)

lemma inject_grid:
  "inject_A A c [[a, b], [x, y]] =
     [[a\<lparr>inReg := (if c < 2 then \<lparr>v8_valid = True, v8_data = A ! c ! 0\<rparr> else \<lparr>v8_valid = False, v8_data = 0\<rparr>)\<rparr>,
       b\<lparr>inReg := fwdIn a\<rparr>],
      [x\<lparr>inReg := (if c \<in> {1, 2} then \<lparr>v8_valid = True, v8_data = A ! (c - 1) ! 1\<rparr>
                   else \<lparr>v8_valid = False, v8_data = 0\<rparr>)\<rparr>,
       y\<lparr>inReg := fwdIn x\<rparr>]]"
  by (auto simp: inject_A_def loops_eval upd2_grid SASIZE_def Let_def nat_diff_distrib)

lemma shift_grid:
  "shift_in junk [[a, b], [x, y]] =
     [[a\<lparr>inReg := junk 0\<rparr>, b\<lparr>inReg := fwdIn a\<rparr>], [x\<lparr>inReg := junk (Suc 0)\<rparr>, y\<lparr>inReg := fwdIn x\<rparr>]]"
  by (simp add: shift_in_def loops_eval upd2_grid)

definition mac_pe :: "Valid16 \<Rightarrow> PE \<Rightarrow> PE" where
  "mac_pe up P = P\<lparr>psumReg :=
     (if v8_valid (weightReg P) \<and> v8_valid (inReg P)
      then \<lparr>v16_valid = True, v16_sum = (if v16_valid up then v16_sum up else 0)
             + ucast (v8_data (inReg P)) * ucast (v8_data (weightReg P))\<rparr>
      else (psumReg P)\<lparr>v16_valid := False\<rparr>)\<rparr>"

definition fwd_pe :: "PE \<Rightarrow> PE" where
  "fwd_pe p = p\<lparr>fwdIn := inReg p, fwdPsum := psumReg p\<rparr>"

definition no_sum :: Valid16 where
  "no_sum = \<lparr>v16_valid = False, v16_sum = 0\<rparr>"

lemma mac_forward_grid:
  "forward (mac [[a, b], [x, y]]) =
     [[fwd_pe (mac_pe no_sum a), fwd_pe (mac_pe no_sum b)], [fwd_pe (mac_pe (fwdPsum a) x), fwd_pe (mac_pe (fwdPsum b) y)]]"
  by (simp add: forward_def mac_def loops_eval upd2_grid mac_pe_def fwd_pe_def no_sum_def)

lemma emit_grid:
  "emit ([[a, b], [x, y]], R, [e, f]) =
    (let ex = v16_valid (psumReg x) \<and> e < 2; ey = v16_valid (psumReg y) \<and> f < 2;
         drop = (\<lambda>p. p\<lparr>psumReg := (psumReg p)\<lparr>v16_valid := False\<rparr>, fwdPsum := (fwdPsum p)\<lparr>v16_valid := False\<rparr>\<rparr>);
         R1 = (if ex then upd2 R (unat e) 0 (\<lambda>_. v16_sum (psumReg x)) else R)
     in ([[a, b], [if ex then drop x else x, if ey then drop y else y]],
         if ey then upd2 R1 (unat f) (Suc 0) (\<lambda>_. v16_sum (psumReg y)) else R1,
         [if ex then e + 1 else e, if ey then f + 1 else f]))"
  by (simp add: emit_def emit_col_def SASIZE_def upt_rec numeral_2_eq_2 upd2_grid Let_def)

definition prod16 :: "u8 \<Rightarrow> u8 \<Rightarrow> u16" where
  "prod16 x y = ucast x * ucast y"

lemma tile_cycles_result:
  "fst (snd (tile_cycles junk1 junk2 [[a00, a01], [a10, a11]] [[b00, b01], [b10, b11]])) =
     [[prod16 a00 b00 + prod16 a01 b10, prod16 a00 b01 + prod16 a01 b11],
      [prod16 a10 b00 + prod16 a11 b10, prod16 a10 b01 + prod16 a11 b11]]"
proof -
  let ?B = "[[b00, b01], [b10, b11]]" and ?A = "[[a00, a01], [a10, a11]]"
  have g: "Construct_PE SASIZE = [[new_pe, new_pe], [new_pe, new_pe]]"
    "replicate SASIZE [0, 0 :: u16] = [[0, 0], [0, 0]]" "replicate SASIZE (0 :: u16) = [0, 0]"
    by (simp_all add: Construct_PE_def SASIZE_def numeral_2_eq_2)
  show ?thesis
    unfolding tile_cycles_def g
    by (simp add: preload_grid PropagateA_And_MAC_def FlushAndEmit_def inject_grid shift_grid mac_forward_grid
        emit_grid mac_pe_def fwd_pe_def no_sum_def new_pe_def upd2_grid Let_def prod16_def)
qed

section \<open>Tiles and matrices\<close>

record TileTask =
  rowBlk :: nat
  colBlk :: nat
  tileRows :: nat
  tileCols :: nat
  kBlk :: nat
  kCols :: nat

datatype tile_event =
    PreloadEvent nat
  | PropagateEvent nat
  | FlushEvent nat
  | DepositEvent

record sa_core =
  A_matrix :: "u8 list list"
  B_matrix :: "u8 list list"
  C_matrix :: "u16 list list"
  tileQ :: "TileTask list"
  current_tile :: TileTask
  Tile_Result :: "u16 list list"
  A_Tile :: "u8 list list"
  B_Tile :: "u8 list list"
  TileFinish :: bool
  sa_pe :: grid
  sa_Result :: "u16 list list"
  sa_emitRow :: "u16 list"
  sa_done :: bool
  strideA :: u32
  strideB :: u32
  strideC :: u32
  tile_events :: "(nat \<times> tile_event) list"

definition mat_get :: "string \<Rightarrow> 'a list list \<Rightarrow> nat \<Rightarrow> nat \<Rightarrow> 'a result" where
  "mat_get name m i j = bindE (array_get name m (int i)) (\<lambda>row. array_get name row (int j))"

definition mat_set :: "string \<Rightarrow> 'a list list \<Rightarrow> nat \<Rightarrow> nat \<Rightarrow> 'a \<Rightarrow> 'a list list result" where
  "mat_set name m i j v =
     bindE (array_get name m (int i)) (\<lambda>row. bindE (array_set name row (int j) v) (\<lambda>row'.
       array_set name m (int i) row'))"

definition loop2 :: "nat \<Rightarrow> nat \<Rightarrow> nat \<Rightarrow> nat \<Rightarrow> (nat \<times> nat) list" where
  "loop2 i0 i1 j0 j1 = [(i, j). i \<leftarrow> [i0..<i1], j \<leftarrow> [j0..<j1]]"

text \<open>Copying a sub-block into a tile and padding it with zeros: the loops of both tile loads.\<close>

definition load_tile ::
  "string \<Rightarrow> u8 list list \<Rightarrow> nat \<Rightarrow> nat \<Rightarrow> nat \<Rightarrow> nat \<Rightarrow> u8 list list \<Rightarrow> u8 list list result" where
  "load_tile name m r k rows cols tile =
     bindE (foldE (\<lambda>t (i, j). bindE (mat_get name m (r + i) (k + j)) (\<lambda>v. mat_set ''tile'' t i j v))
       tile (loop2 0 rows 0 cols)) (\<lambda>t1.
     bindE (foldE (\<lambda>t (i, j). mat_set ''tile'' t i j 0) t1 (loop2 0 rows cols SASIZE)) (\<lambda>t2.
       foldE (\<lambda>t (i, j). mat_set ''tile'' t i j 0) t2 (loop2 rows SASIZE 0 SASIZE)))"

definition LoadATile :: "nat \<Rightarrow> nat \<Rightarrow> nat \<Rightarrow> nat \<Rightarrow> 'z sa_core_scheme \<Rightarrow> 'z sa_core_scheme result" where
  "LoadATile r k rows kcols s =
     bindE (load_tile ''A_matrix'' (A_matrix s) r k rows kcols (A_Tile s)) (\<lambda>t. Inr (s\<lparr>A_Tile := t\<rparr>))"

definition LoadBTile :: "nat \<Rightarrow> nat \<Rightarrow> nat \<Rightarrow> nat \<Rightarrow> 'z sa_core_scheme \<Rightarrow> 'z sa_core_scheme result" where
  "LoadBTile k c kcols cols s =
     bindE (load_tile ''B_matrix'' (B_matrix s) k c kcols cols (B_Tile s)) (\<lambda>t. Inr (s\<lparr>B_Tile := t\<rparr>))"

definition zero_tile :: "u16 list list" where
  "zero_tile = replicate SASIZE (replicate SASIZE 0)"

text \<open>\<open>ComputeTile\<close> makes fresh shared objects and schedules the cycles and the deposit.\<close>

definition ComputeTile :: "nat \<Rightarrow> 'z sa_core_scheme \<Rightarrow> 'z sa_core_scheme" where
  "ComputeTile now s =
     s\<lparr>TileFinish := False, sa_pe := Construct_PE SASIZE, sa_emitRow := replicate SASIZE 0, sa_Result := zero_tile,
       tile_events := tile_events s
         @ map (\<lambda>c. (now + 1 + c, PreloadEvent c)) [0..<SASIZE]
         @ map (\<lambda>c. (now + 1 + SASIZE + c, PropagateEvent c)) [0..<SASIZE * 2 - 1]
         @ map (\<lambda>c. (now + 1 + SASIZE + (SASIZE * 2 - 1) + c, FlushEvent c)) [0..<SASIZE]
         @ [(now + (SASIZE + (SASIZE * 2 - 1) + SASIZE) + 2, DepositEvent)]\<rparr>"

text \<open>\<open>writeOutputs\<close> prints \<open>strideC\<close> rows and columns of the result: the values in print order.\<close>

definition writeOutputs :: "'z sa_core_scheme \<Rightarrow> u16 list result" where
  "writeOutputs s =
     (let n = unat (strideC s)
      in foldE (\<lambda>out (i, j). bindE (mat_get ''C_matrix'' (C_matrix s) i j) (\<lambda>v. Inr (out @ [v]))) [] (loop2 0 n 0 n))"

definition launchNextTile :: "nat \<Rightarrow> 'z sa_core_scheme \<Rightarrow> 'z sa_core_scheme result" where
  "launchNextTile now s =
     (case tileQ s of
        [] \<Rightarrow> (let s' = s\<lparr>sa_done := True\<rparr> in bindE (writeOutputs s') (\<lambda>_. Inr s'))
      | t # q \<Rightarrow>
          bindE (LoadATile (rowBlk t) (kBlk t) (tileRows t) (kCols t)
                   (s\<lparr>current_tile := t, tileQ := q, Tile_Result := zero_tile\<rparr>)) (\<lambda>s1.
          bindE (LoadBTile (kBlk t) (colBlk t) (kCols t) (tileCols t) s1) (\<lambda>s2.
            Inr (ComputeTile now s2))))"

definition deposit :: "'z sa_core_scheme \<Rightarrow> 'z sa_core_scheme result" where
  "deposit s =
     (let t = current_tile s
      in bindE (foldE (\<lambda>C (i, j).
             bindE (mat_get ''C_matrix'' C (rowBlk t + i) (colBlk t + j)) (\<lambda>c.
             bindE (mat_get ''Tile_Result'' (Tile_Result s) i j) (\<lambda>v.
               mat_set ''C_matrix'' C (rowBlk t + i) (colBlk t + j) (c + v))))
           (C_matrix s) (loop2 0 (tileRows t) 0 (tileCols t))) (\<lambda>C. Inr (s\<lparr>C_matrix := C\<rparr>)))"

fun exec_tile_event ::
  "(nat \<Rightarrow> nat \<Rightarrow> Valid8) \<Rightarrow> nat \<Rightarrow> tile_event \<Rightarrow> 'z sa_core_scheme \<Rightarrow> 'z sa_core_scheme result" where
  "exec_tile_event junk now (PreloadEvent c) s = Inr (s\<lparr>sa_pe := Preload_Weight (B_Tile s) c (sa_pe s)\<rparr>)"
| "exec_tile_event junk now (PropagateEvent c) s =
     (case PropagateA_And_MAC (A_Tile s) c (sa_pe s, sa_Result s, sa_emitRow s) of (pe, R, e) \<Rightarrow>
        Inr (s\<lparr>sa_pe := pe, sa_Result := R, sa_emitRow := e\<rparr>))"
| "exec_tile_event junk now (FlushEvent c) s =
     (case FlushAndEmit (junk now) (sa_pe s, sa_Result s, sa_emitRow s) of (pe, R, e) \<Rightarrow>
        (let s' = s\<lparr>sa_pe := pe, sa_Result := R, sa_emitRow := e\<rparr>
         in Inr (if c = SASIZE - 1 then s'\<lparr>TileFinish := True, Tile_Result := R\<rparr> else s')))"
| "exec_tile_event junk now DepositEvent s = bindE (deposit s) (launchNextTile now)"

text \<open>\<open>for (r = 0; r < n; r += SASIZE)\<close>.\<close>

function blocks :: "nat \<Rightarrow> nat \<Rightarrow> nat list" where
  "blocks n r = (if r < n then r # blocks n (r + SASIZE) else [])"
  by pat_completeness auto
termination by (relation "measure (\<lambda>(n, r). n - r)") (auto simp: SASIZE_def)

declare blocks.simps [simp del]

definition tiles :: "nat \<Rightarrow> nat \<Rightarrow> TileTask list" where
  "tiles nA nB =
     [\<lparr>rowBlk = r, colBlk = c, tileRows = min SASIZE (nA - r), tileCols = min SASIZE (nB - c),
       kBlk = k, kCols = min SASIZE (nB - k)\<rparr>. r \<leftarrow> blocks nA 0, c \<leftarrow> blocks nB 0, k \<leftarrow> blocks nB 0]"

definition ComputeMatrix :: "nat \<Rightarrow> 'z sa_core_scheme \<Rightarrow> 'z sa_core_scheme result" where
  "ComputeMatrix now s =
     launchNextTile now (s\<lparr>tileQ := tileQ s @ tiles (unat (strideA s)) (unat (strideB s))\<rparr>)"

text \<open>Running the scheduled events in order; the first argument after \<open>junk\<close> bounds their number.\<close>

fun run_events :: "(nat \<Rightarrow> nat \<Rightarrow> Valid8) \<Rightarrow> nat \<Rightarrow> 'z sa_core_scheme \<Rightarrow> 'z sa_core_scheme result" where
  "run_events junk 0 s = Inr s"
| "run_events junk (Suc n) s =
     (case tile_events s of
        [] \<Rightarrow> Inr s
      | (t, e) # es \<Rightarrow> bindE (exec_tile_event junk t e (s\<lparr>tile_events := es\<rparr>)) (run_events junk n))"

section \<open>What the parts compute\<close>

definition is_mat :: "nat \<Rightarrow> nat \<Rightarrow> 'a list list \<Rightarrow> bool" where
  "is_mat n k m \<longleftrightarrow> length m = n \<and> (\<forall>i<n. length (m ! i) = k)"

lemma mat_get_in [simp]: "is_mat n k m \<Longrightarrow> i < n \<Longrightarrow> j < k \<Longrightarrow> mat_get name m i j = Inr (m ! i ! j)"
  by (simp add: is_mat_def mat_get_def)

lemma mat_set_in [simp]:
  "is_mat n k m \<Longrightarrow> i < n \<Longrightarrow> j < k \<Longrightarrow> mat_set name m i j v = Inr (upd2 m i j (\<lambda>_. v))"
  by (simp add: is_mat_def mat_set_def upd2_def)

lemma is_mat_upd2 [simp]: "is_mat n k m \<Longrightarrow> is_mat n k (upd2 m i j f)"
  by (cases "i < length m") (auto simp: is_mat_def upd2_def nth_list_update)

lemma nth_upd2:
  "is_mat n k m \<Longrightarrow> i < n \<Longrightarrow> j < k \<Longrightarrow> a < n \<Longrightarrow>
   upd2 m i j f ! a ! b = (if a = i \<and> b = j then f (m ! i ! j) else m ! a ! b)"
  by (auto simp: is_mat_def upd2_def nth_list_update)

lemma is_mat_replicate [simp]: "is_mat n k (replicate n (replicate k x))"
  by (simp add: is_mat_def)

lemma is_mat_2: "is_mat 2 2 m \<longleftrightarrow> (\<exists>a b c d. m = [[a, b], [c, d]])"
proof
  assume m: "is_mat 2 2 m"
  then obtain r0 r1 where "m = [r0, r1]" by (auto simp: is_mat_def length_Suc_conv numeral_2_eq_2)
  with m show "\<exists>a b c d. m = [[a, b], [c, d]]"
    by (auto simp: is_mat_def length_Suc_conv numeral_2_eq_2 All_less_Suc)
qed (auto simp: is_mat_def numeral_2_eq_2 less_Suc_eq)

text \<open>The tile of a matrix at a position: the block, padded with zeros.\<close>

definition block :: "u8 list list \<Rightarrow> nat \<Rightarrow> nat \<Rightarrow> nat \<Rightarrow> nat \<Rightarrow> nat \<Rightarrow> nat \<Rightarrow> u8" where
  "block m r k rows cols i j = (if i < rows \<and> j < cols then m ! (r + i) ! (k + j) else 0)"

definition tile_of :: "(nat \<Rightarrow> nat \<Rightarrow> 'a) \<Rightarrow> 'a list list" where
  "tile_of f = [[f 0 0, f 0 1], [f 1 0, f 1 1]]"

lemma loop2_eval:
  "loop2 0 (Suc 0) 0 (Suc 0) = [(0, 0)]" "loop2 0 (Suc 0) 0 2 = [(0, 0), (0, Suc 0)]"
  "loop2 0 2 0 (Suc 0) = [(0, 0), (Suc 0, 0)]" "loop2 0 2 0 2 = [(0, 0), (0, Suc 0), (Suc 0, 0), (Suc 0, Suc 0)]"
  "loop2 0 (Suc 0) (Suc 0) 2 = [(0, Suc 0)]" "loop2 0 2 (Suc 0) 2 = [(0, Suc 0), (Suc 0, Suc 0)]"
  "loop2 (Suc 0) 2 0 2 = [(Suc 0, 0), (Suc 0, Suc 0)]" "loop2 i0 i1 2 2 = []" "loop2 2 2 j0 j1 = []"
  by (simp_all add: loop2_def numeral_2_eq_2)

lemma load_tile_block:
  assumes "is_mat 64 64 m" "is_mat 2 2 tile" "0 < rows" "rows \<le> 2" "0 < cols" "cols \<le> 2"
    and "r + rows \<le> 64" "k + cols \<le> 64"
  shows "load_tile name m r k rows cols tile = Inr (tile_of (block m r k rows cols))"
proof -
  obtain a b c d where tile: "tile = [[a, b], [c, d]]" using assms(2) unfolding is_mat_2 by blast
  have get: "mat_get name m (r + i) (k + j) = Inr (m ! (r + i) ! (k + j))" if "i < rows" "j < cols" for i j
    using assms that by simp
  have set: "mat_set ''tile'' [[a, b], [c, d]] i j v = Inr (upd2 [[a, b], [c, d]] i j (\<lambda>_. v))"
    if "i < 2" "j < 2" for a b c d v :: u8 and i j
    using that by (intro mat_set_in) (auto simp: is_mat_2)
  consider "rows = 1" "cols = 1" | "rows = 1" "cols = 2" | "rows = 2" "cols = 1" | "rows = 2" "cols = 2"
    using assms by linarith
  then show ?thesis
    by cases (use get [of 0 0] get [of 0 "Suc 0"] get [of "Suc 0" 0] get [of "Suc 0" "Suc 0"] in
      \<open>simp_all add: load_tile_def loop2_eval SASIZE_def tile set upd2_grid tile_of_def block_def\<close>)
qed

text \<open>The product of two tiles of the matrices, as the tile computes it.\<close>

definition tile_prod :: "u8 list list \<Rightarrow> u8 list list \<Rightarrow> TileTask \<Rightarrow> nat \<Rightarrow> nat \<Rightarrow> u16" where
  "tile_prod A B t i j =
     (\<Sum>kk<2. prod16 (block A (rowBlk t) (kBlk t) (tileRows t) (kCols t) i kk)
                  (block B (kBlk t) (colBlk t) (kCols t) (tileCols t) kk j))"

definition tile_ok :: "TileTask \<Rightarrow> bool" where
  "tile_ok t \<longleftrightarrow> 0 < tileRows t \<and> tileRows t \<le> 2 \<and> 0 < tileCols t \<and> tileCols t \<le> 2 \<and> 0 < kCols t \<and> kCols t \<le> 2
     \<and> rowBlk t + tileRows t \<le> 64 \<and> colBlk t + tileCols t \<le> 64 \<and> kBlk t + kCols t \<le> 64"

definition core_ok :: "'z sa_core_scheme \<Rightarrow> bool" where
  "core_ok s \<longleftrightarrow> is_mat 64 64 (A_matrix s) \<and> is_mat 64 64 (B_matrix s) \<and> is_mat 64 64 (C_matrix s)
     \<and> is_mat 2 2 (A_Tile s) \<and> is_mat 2 2 (B_Tile s)"

lemma tile_of_is_mat [simp]: "is_mat 2 2 (tile_of f)"
  by (auto simp: is_mat_2 tile_of_def)

lemma tile_cycles_prod:
  "fst (snd (tile_cycles junk1 junk2 (tile_of f) (tile_of g))) = tile_of (\<lambda>i j. \<Sum>kk<2. prod16 (f i kk) (g kk j))"
  by (simp add: tile_of_def tile_cycles_result lessThan_Suc numeral_2_eq_2 add.commute)

text \<open>A launched tile: its two tiles are loaded and its eight events are scheduled.\<close>

definition launched :: "nat \<Rightarrow> TileTask \<Rightarrow> TileTask list \<Rightarrow> 'z sa_core_scheme \<Rightarrow> 'z sa_core_scheme" where
  "launched now t q s = ComputeTile now (s\<lparr>current_tile := t, tileQ := q, Tile_Result := zero_tile,
     A_Tile := tile_of (block (A_matrix s) (rowBlk t) (kBlk t) (tileRows t) (kCols t)),
     B_Tile := tile_of (block (B_matrix s) (kBlk t) (colBlk t) (kCols t) (tileCols t))\<rparr>)"

lemma launchNextTile_launched:
  assumes "core_ok s" "tileQ s = t # q" "tile_ok t"
  shows "launchNextTile now s = Inr (launched now t q s)"
  using assms
  by (simp add: launchNextTile_def LoadATile_def LoadBTile_def load_tile_block core_ok_def tile_ok_def launched_def)

lemma run_events_0: "run_events junk 0 = Inr"
  by (rule ext) simp

lemma run_events_add:
  fixes s :: "'z sa_core_scheme"
  shows "run_events junk (m + n) s = bindE (run_events junk m s) (run_events junk n)"
proof (induction m arbitrary: s)
  case (Suc m)
  show ?case
  proof (cases "tile_events s")
    case Nil
    then show ?thesis by (cases n) simp_all
  next
    case (Cons te es)
    have "run_events junk (m + n) = (\<lambda>x :: 'z sa_core_scheme. bindE (run_events junk m x) (run_events junk n))"
      by (simp add: fun_eq_iff Suc.IH)
    then show ?thesis using Cons by (cases te) (simp add: bindE_assoc)
  qed
qed simp

text \<open>The seven cycles of a launched tile leave the product of its tiles in \<open>Tile_Result\<close>.\<close>

lemma launched_cycles:
  assumes "tile_events s = []"
  shows "\<exists>pe R e. run_events junk 7 (launched now t q s) = Inr ((launched now t q s)\<lparr>tile_events := [(now + 9, DepositEvent)],
      sa_pe := pe, sa_Result := R, sa_emitRow := e, TileFinish := True,
      Tile_Result := tile_of (tile_prod (A_matrix s) (B_matrix s) t)\<rparr>)"
proof -
  let ?s = "launched now t q s"
  have ev: "tile_events ?s = [(now + 1, PreloadEvent 0), (now + 2, PreloadEvent 1), (now + 3, PropagateEvent 0),
      (now + 4, PropagateEvent 1), (now + 5, PropagateEvent 2), (now + 6, FlushEvent 0), (now + 7, FlushEvent 1),
      (now + 9, DepositEvent)]"
    using assms by (simp add: launched_def ComputeTile_def SASIZE_def upt_rec)
  have st: "sa_pe ?s = Construct_PE SASIZE" "sa_Result ?s = replicate SASIZE (replicate SASIZE 0)"
    "sa_emitRow ?s = replicate SASIZE 0" "A_Tile ?s = tile_of (block (A_matrix s) (rowBlk t) (kBlk t) (tileRows t) (kCols t))"
    "B_Tile ?s = tile_of (block (B_matrix s) (kBlk t) (colBlk t) (kCols t) (tileCols t))"
    by (simp_all add: launched_def ComputeTile_def zero_tile_def)
  obtain pe R e where fin: "tile_cycles (junk (now + 6)) (junk (now + 7)) (A_Tile ?s) (B_Tile ?s) = (pe, R, e)"
    by (metis prod_cases3)
  then have "R = tile_of (tile_prod (A_matrix s) (B_matrix s) t)"
    using tile_cycles_prod [of "junk (now + 6)" "junk (now + 7)"] st(4,5) unfolding tile_prod_def by (metis fst_conv snd_conv)
  moreover have "run_events junk 7 ?s = Inr (?s\<lparr>tile_events := [(now + 9, DepositEvent)],
      sa_pe := pe, sa_Result := R, sa_emitRow := e, TileFinish := True, Tile_Result := R\<rparr>)"
    using fin ev st(1-3)
    by (auto simp: tile_cycles_def Let_def numeral_eq_Suc SASIZE_def split: prod.splits)
  ultimately show ?thesis by blast
qed

section \<open>Depositing a tile\<close>

lemma sum_loop2: "(\<Sum>p\<leftarrow>loop2 0 m 0 n. g p) = (\<Sum>i<m. \<Sum>j<n. g (i, j) :: 'a::comm_monoid_add)"
proof -
  have "(\<Sum>p\<leftarrow>loop2 0 m 0 n. g p) = (\<Sum>i\<leftarrow>[0..<m]. \<Sum>j\<leftarrow>[0..<n]. g (i, j))"
    unfolding loop2_def by (induction m) (simp_all add: comp_def)
  then show ?thesis
    by (simp add: interv_sum_list_conv_sum_set_nat atLeast0LessThan)
qed

lemma sum_shifted:
  fixes f :: "nat \<Rightarrow> 'a::comm_monoid_add"
  shows "(\<Sum>j<n. if b = c + j then f j else 0) = (if c \<le> b \<and> b < c + n then f (b - c) else 0)"
proof (cases "c \<le> b")
  case True
  then have "(b = c + j) = (j = b - c)" for j by auto
  with True show ?thesis by (auto simp: sum.delta)
next
  case False
  then show ?thesis by (auto intro!: sum.neutral)
qed

lemma sum_at_point:
  fixes f :: "nat \<Rightarrow> nat \<Rightarrow> 'a::comm_monoid_add"
  shows "(\<Sum>i<m. \<Sum>j<n. if a = r + i \<and> b = c + j then f i j else 0) =
    (if r \<le> a \<and> a < r + m \<and> c \<le> b \<and> b < c + n then f (a - r) (b - c) else 0)"
proof -
  have "(\<Sum>j<n. if a = r + i \<and> b = c + j then f i j else 0)
      = (if a = r + i then if c \<le> b \<and> b < c + n then f i (b - c) else 0 else 0)" for i
    using sum_shifted [of b c "f i" n] by simp
  then show ?thesis by (simp add: sum_shifted)
qed

lemma deposit_fold:
  assumes "is_mat 64 64 C" "is_mat 2 2 T" "\<And>i j. (i, j) \<in> set xs \<Longrightarrow> i < 2 \<and> j < 2 \<and> r + i < 64 \<and> c + j < 64"
  shows "\<exists>C'. foldE (\<lambda>C (i, j). bindE (mat_get ''C_matrix'' C (r + i) (c + j)) (\<lambda>x.
      bindE (mat_get ''Tile_Result'' T i j) (\<lambda>v. mat_set ''C_matrix'' C (r + i) (c + j) (x + v)))) C xs = Inr C'
    \<and> is_mat 64 64 C'
    \<and> (\<forall>a<64. \<forall>b<64. C' ! a ! b = C ! a ! b + (\<Sum>(i, j)\<leftarrow>xs. if a = r + i \<and> b = c + j then T ! i ! j else (0 :: u16)))"
  using assms(1,3)
proof (induction xs arbitrary: C)
  case (Cons p xs)
  obtain i j where p: "p = (i, j)" by fastforce
  with Cons.prems have ij: "i < 2" "j < 2" "r + i < 64" "c + j < 64" by auto
  let ?C = "upd2 C (r + i) (c + j) (\<lambda>_. C ! (r + i) ! (c + j) + T ! i ! j)"
  have "is_mat 64 64 ?C" using Cons.prems(1) by simp
  from Cons.IH [OF this Cons.prems(2)] obtain C' where
    "foldE (\<lambda>C (i, j). bindE (mat_get ''C_matrix'' C (r + i) (c + j)) (\<lambda>x.
      bindE (mat_get ''Tile_Result'' T i j) (\<lambda>v. mat_set ''C_matrix'' C (r + i) (c + j) (x + v)))) ?C xs = Inr C'"
    "is_mat 64 64 C'"
    "\<forall>a<64. \<forall>b<64. C' ! a ! b = ?C ! a ! b + (\<Sum>(i, j)\<leftarrow>xs. if a = r + i \<and> b = c + j then T ! i ! j else 0)"
    by auto
  then show ?case
    using p ij Cons.prems(1) assms(2) by (auto simp: nth_upd2 add.assoc)
qed auto

definition covers :: "TileTask \<Rightarrow> nat \<Rightarrow> nat \<Rightarrow> bool" where
  "covers t a b \<longleftrightarrow> rowBlk t \<le> a \<and> a < rowBlk t + tileRows t \<and> colBlk t \<le> b \<and> b < colBlk t + tileCols t"

lemma deposit_spec:
  assumes "is_mat 64 64 (C_matrix s)" "Tile_Result s = tile_of f" "tile_ok (current_tile s)"
  defines "t \<equiv> current_tile s"
  shows "\<exists>C'. deposit s = Inr (s\<lparr>C_matrix := C'\<rparr>) \<and> is_mat 64 64 C'
    \<and> (\<forall>a<64. \<forall>b<64. C' ! a ! b = C_matrix s ! a ! b + (if covers t a b then f (a - rowBlk t) (b - colBlk t) else 0))"
proof -
  have T: "tile_of f ! i ! j = f i j" if "i < 2" "j < 2" for i j
    using that by (auto simp: tile_of_def less_2_cases_iff)
  have ok: "tileRows t \<le> 2" "tileCols t \<le> 2" "rowBlk t + tileRows t \<le> 64" "colBlk t + tileCols t \<le> 64"
    using assms(3) by (simp_all add: tile_ok_def t_def)
  let ?xs = "loop2 0 (tileRows t) 0 (tileCols t)"
  have "(\<Sum>(i, j)\<leftarrow>?xs. if a = rowBlk t + i \<and> b = colBlk t + j then tile_of f ! i ! j else 0)
      = (if covers t a b then f (a - rowBlk t) (b - colBlk t) else 0)" for a b
  proof -
    have "(\<Sum>(i, j)\<leftarrow>?xs. if a = rowBlk t + i \<and> b = colBlk t + j then tile_of f ! i ! j else 0)
        = (\<Sum>(i, j)\<leftarrow>?xs. if a = rowBlk t + i \<and> b = colBlk t + j then f i j else 0)"
      using ok T by (intro arg_cong [where f = sum_list] map_cong) (auto simp: loop2_def)
    then show ?thesis by (simp add: sum_loop2 sum_at_point covers_def)
  qed
  moreover have "\<And>i j. (i, j) \<in> set ?xs \<Longrightarrow> i < 2 \<and> j < 2 \<and> rowBlk t + i < 64 \<and> colBlk t + j < 64"
    using ok by (auto simp: loop2_def)
  ultimately show ?thesis
    using deposit_fold [OF assms(1) tile_of_is_mat [of f], of ?xs "rowBlk t" "colBlk t"]
    by (auto simp: deposit_def Let_def assms(2) t_def)
qed

section \<open>The whole product\<close>

text \<open>What a tile adds to an entry it covers: a slice of the inner product.\<close>

definition inner :: "u8 list list \<Rightarrow> u8 list list \<Rightarrow> nat \<Rightarrow> nat \<Rightarrow> nat \<Rightarrow> nat \<Rightarrow> u16" where
  "inner A B a b k0 k1 = (\<Sum>k = k0..<k1. prod16 (A ! a ! k) (B ! k ! b))"

definition contrib :: "u8 list list \<Rightarrow> u8 list list \<Rightarrow> nat \<Rightarrow> nat \<Rightarrow> TileTask \<Rightarrow> u16" where
  "contrib A B a b t = (if covers t a b then inner A B a b (kBlk t) (kBlk t + kCols t) else 0)"

lemma tile_prod_inner:
  assumes "covers t a b" "0 < kCols t" "kCols t \<le> 2"
  shows "tile_prod A B t (a - rowBlk t) (b - colBlk t) = inner A B a b (kBlk t) (kBlk t + kCols t)"
proof -
  have "a - rowBlk t < tileRows t" "rowBlk t + (a - rowBlk t) = a" "b - colBlk t < tileCols t" "colBlk t + (b - colBlk t) = b"
    using assms(1) by (auto simp: covers_def)
  moreover have "kCols t = 1 \<or> kCols t = 2" using assms(2,3) by linarith
  ultimately show ?thesis
    by (auto simp: tile_prod_def inner_def block_def prod16_def lessThan_Suc numeral_2_eq_2 add.commute)
qed

text \<open>One tile, from its launch to the launch of the next.\<close>

lemma tile_round:
  assumes "core_ok s" "tile_ok t" "tile_events s = []"
  shows "\<exists>s'. run_events junk 8 (launched now t q s) = launchNextTile (now + 9) s' \<and> core_ok s' \<and> tile_events s' = []
    \<and> tileQ s' = q \<and> A_matrix s' = A_matrix s \<and> B_matrix s' = B_matrix s \<and> strideC s' = strideC s
    \<and> (\<forall>a<64. \<forall>b<64. C_matrix s' ! a ! b = C_matrix s ! a ! b + contrib (A_matrix s) (B_matrix s) a b t)"
proof -
  from launched_cycles [OF assms(3), of junk now t q] obtain pe R e where
    run: "run_events junk 7 (launched now t q s) = Inr ((launched now t q s)\<lparr>tile_events := [(now + 9, DepositEvent)],
      sa_pe := pe, sa_Result := R, sa_emitRow := e, TileFinish := True,
      Tile_Result := tile_of (tile_prod (A_matrix s) (B_matrix s) t)\<rparr>)" by blast
  let ?d = "(launched now t q s)\<lparr>sa_pe := pe, sa_Result := R, sa_emitRow := e, TileFinish := True,
      Tile_Result := tile_of (tile_prod (A_matrix s) (B_matrix s) t), tile_events := []\<rparr>"
  have d: "current_tile ?d = t" "C_matrix ?d = C_matrix s" "A_matrix ?d = A_matrix s" "B_matrix ?d = B_matrix s"
    "tileQ ?d = q" "strideC ?d = strideC s" "is_mat 2 2 (A_Tile ?d)" "is_mat 2 2 (B_Tile ?d)"
    by (simp_all add: launched_def ComputeTile_def)
  have "is_mat 64 64 (C_matrix ?d)" "tile_ok (current_tile ?d)" using assms(1,2) d by (simp_all add: core_ok_def)
  from deposit_spec [OF this(1) _ this(2), of "tile_prod (A_matrix s) (B_matrix s) t"] obtain C' where
    dep: "deposit ?d = Inr (?d\<lparr>C_matrix := C'\<rparr>)" "is_mat 64 64 C'"
      "\<forall>a<64. \<forall>b<64. C' ! a ! b = C_matrix s ! a ! b
        + (if covers t a b then tile_prod (A_matrix s) (B_matrix s) t (a - rowBlk t) (b - colBlk t) else 0)"
    using d by auto
  have "run_events junk (7 + 1) (launched now t q s) = bindE (launchNextTile (now + 9) (?d\<lparr>C_matrix := C'\<rparr>)) Inr"
    unfolding run_events_add run using dep(1) by (simp add: run_events_0)
  then have "run_events junk 8 (launched now t q s) = launchNextTile (now + 9) (?d\<lparr>C_matrix := C'\<rparr>)"
    by (cases "launchNextTile (now + 9) (?d\<lparr>C_matrix := C'\<rparr>)") simp_all
  moreover have "core_ok (?d\<lparr>C_matrix := C'\<rparr>)" using assms(1) d dep(2) by (simp add: core_ok_def)
  moreover have "\<forall>a<64. \<forall>b<64. C' ! a ! b = C_matrix s ! a ! b + contrib (A_matrix s) (B_matrix s) a b t"
    using dep(3) assms(2) by (auto simp: contrib_def tile_prod_inner tile_ok_def)
  ultimately show ?thesis
    using d by (intro exI [of _ "?d\<lparr>C_matrix := C'\<rparr>"]) simp
qed

lemma writeOutputs_ok:
  assumes "is_mat 64 64 (C_matrix s)" "unat (strideC s) \<le> 64"
  shows "\<exists>out. writeOutputs s = Inr out"
proof -
  have "\<exists>out'. foldE (\<lambda>out (i, j). bindE (mat_get ''C_matrix'' (C_matrix s) i j) (\<lambda>v. Inr (out @ [v]))) out xs = Inr out'"
    if "\<forall>(i, j) \<in> set xs. i < 64 \<and> j < 64" for out xs
    using that
  proof (induction xs arbitrary: out)
    case (Cons p xs)
    then show ?case using assms(1) by (cases p) auto
  qed simp
  moreover have "\<forall>(i, j) \<in> set (loop2 0 (unat (strideC s)) 0 (unat (strideC s))). i < 64 \<and> j < 64"
    using assms(2) by (auto simp: loop2_def)
  ultimately show ?thesis by (simp add: writeOutputs_def Let_def)
qed

lemma run_queue:
  assumes "core_ok s" "tile_events s = []" "tileQ s = q" "\<forall>t \<in> set q. tile_ok t" "unat (strideC s) \<le> 64"
  shows "\<exists>s'. bindE (launchNextTile now s) (run_events junk (8 * length q)) = Inr s'
    \<and> core_ok s' \<and> sa_done s' \<and> tile_events s' = [] \<and> tileQ s' = []
    \<and> (\<forall>a<64. \<forall>b<64. C_matrix s' ! a ! b = C_matrix s ! a ! b + (\<Sum>t\<leftarrow>q. contrib (A_matrix s) (B_matrix s) a b t))"
  using assms
proof (induction q arbitrary: s now)
  case Nil
  then obtain out where "writeOutputs (s\<lparr>sa_done := True\<rparr>) = Inr out"
    using writeOutputs_ok [of "s\<lparr>sa_done := True\<rparr>"] by (auto simp: core_ok_def)
  with Nil show ?case by (simp add: launchNextTile_def Let_def core_ok_def)
next
  case (Cons t q)
  from tile_round [OF Cons.prems(1) _ Cons.prems(2), of t junk now q] Cons.prems(4) obtain s1 where
    s1: "run_events junk 8 (launched now t q s) = launchNextTile (now + 9) s1" "core_ok s1" "tile_events s1 = []"
      "tileQ s1 = q" "A_matrix s1 = A_matrix s" "B_matrix s1 = B_matrix s" "strideC s1 = strideC s"
      "\<forall>a<64. \<forall>b<64. C_matrix s1 ! a ! b = C_matrix s ! a ! b + contrib (A_matrix s) (B_matrix s) a b t"
    by auto
  have "bindE (launchNextTile now s) (run_events junk (8 * length (t # q)))
      = run_events junk (8 + 8 * length q) (launched now t q s)"
    using launchNextTile_launched [OF Cons.prems(1,3)] Cons.prems(4) by simp
  also have "\<dots> = bindE (launchNextTile (now + 9) s1) (run_events junk (8 * length q))"
    unfolding run_events_add s1(1) ..
  finally have eq: "bindE (launchNextTile now s) (run_events junk (8 * length (t # q)))
      = bindE (launchNextTile (now + 9) s1) (run_events junk (8 * length q))" .
  have "\<forall>t \<in> set q. tile_ok t" "unat (strideC s1) \<le> 64" using Cons.prems(4,5) s1(7) by auto
  from Cons.IH [OF s1(2-4) this, of "now + 9"] obtain s' where
    "bindE (launchNextTile (now + 9) s1) (run_events junk (8 * length q)) = Inr s'"
    "core_ok s'" "sa_done s'" "tile_events s' = []" "tileQ s' = []"
    "\<forall>a<64. \<forall>b<64. C_matrix s' ! a ! b = C_matrix s1 ! a ! b + (\<Sum>t\<leftarrow>q. contrib (A_matrix s) (B_matrix s) a b t)"
    using s1(5,6) by auto
  with eq s1(8) show ?case by (intro exI [of _ s']) (simp add: add.assoc)
qed

lemma blocks_bounds: "r' \<in> set (blocks n r) \<Longrightarrow> r \<le> r' \<and> r' < n"
proof (induction n r rule: blocks.induct)
  case (1 n r)
  then show ?case by (subst (asm) (2) blocks.simps) (auto split: if_splits)
qed

lemma blocks_cover:
  "(\<Sum>r\<leftarrow>blocks n r0. if r \<le> x \<and> x < r + min SASIZE (n - r) then v else 0) = (if r0 \<le> x \<and> x < n then v else (0 :: 'a::comm_monoid_add))"
proof (induction n r0 rule: blocks.induct)
  case (1 n r)
  show ?case
  proof (cases "r < n")
    case True
    then have "(\<Sum>r\<leftarrow>blocks n r. if r \<le> x \<and> x < r + min SASIZE (n - r) then v else 0)
        = (if r \<le> x \<and> x < r + min SASIZE (n - r) then v else 0) + (if r + SASIZE \<le> x \<and> x < n then v else 0)"
      using 1 by (subst blocks.simps) simp
    also have "\<dots> = (if r \<le> x \<and> x < n then v else 0)"
      using True by (auto simp: min_def SASIZE_def)
    finally show ?thesis .
  next
    case False
    then show ?thesis by (subst blocks.simps) auto
  qed
qed

lemma blocks_inner:
  "r \<le> n \<Longrightarrow> (\<Sum>k\<leftarrow>blocks n r. inner A B a b k (k + min SASIZE (n - k))) = inner A B a b r n"
proof (induction n r rule: blocks.induct)
  case (1 n r)
  show ?case
  proof (cases "r < n")
    case True
    let ?m = "min SASIZE (n - r)"
    have "(\<Sum>k\<leftarrow>blocks n (r + SASIZE). inner A B a b k (k + min SASIZE (n - k))) = inner A B a b (r + ?m) n"
    proof (cases "r + SASIZE \<le> n")
      case False
      then show ?thesis by (subst blocks.simps) (simp add: inner_def)
    next
      case True
      then have "?m = SASIZE" by simp
      with 1(1) [OF \<open>r < n\<close> True] show ?thesis by simp
    qed
    moreover have "inner A B a b r (r + ?m) + inner A B a b (r + ?m) n = inner A B a b r n"
      unfolding inner_def by (rule sum.atLeastLessThan_concat) (use True in auto)
    ultimately show ?thesis using True by (subst blocks.simps) simp
  next
    case False
    with 1(2) show ?thesis by (subst blocks.simps) (simp add: inner_def)
  qed
qed

lemma tiles_ok: "nA \<le> 64 \<Longrightarrow> nB \<le> 64 \<Longrightarrow> t \<in> set (tiles nA nB) \<Longrightarrow> tile_ok t"
  by (auto simp: tiles_def tile_ok_def SASIZE_def min_def dest!: blocks_bounds)

lemma sum_tiles:
  assumes "a < nA" "b < nB"
  shows "(\<Sum>t\<leftarrow>tiles nA nB. contrib A B a b t) = inner A B a b 0 nB"
proof -
  let ?P = "\<lambda>r. r \<le> a \<and> a < r + min SASIZE (nA - r)" and ?Q = "\<lambda>c. c \<le> b \<and> b < c + min SASIZE (nB - c)"
  let ?H = "\<lambda>k. inner A B a b k (k + min SASIZE (nB - k))"
  have "(\<Sum>t\<leftarrow>tiles nA nB. contrib A B a b t)
      = (\<Sum>r\<leftarrow>blocks nA 0. \<Sum>c\<leftarrow>blocks nB 0. \<Sum>k\<leftarrow>blocks nB 0. if ?P r \<and> ?Q c then ?H k else 0)"
    by (simp add: tiles_def sum_list_concat comp_def contrib_def covers_def conj_assoc cong: if_cong)
  also have "\<dots> = (\<Sum>r\<leftarrow>blocks nA 0. if ?P r then \<Sum>c\<leftarrow>blocks nB 0. if ?Q c then \<Sum>k\<leftarrow>blocks nB 0. ?H k else 0 else 0)"
  proof -
    have if_sum: "(\<Sum>x\<leftarrow>xs. if p then f x else 0) = (if p then \<Sum>x\<leftarrow>xs. f x else 0)"
      for p and xs :: "nat list" and f :: "nat \<Rightarrow> u16" by simp
    show ?thesis
      by (intro arg_cong [where f = sum_list] map_cong refl) (auto simp: if_sum)
  qed
  also have "\<dots> = inner A B a b 0 nB"
    using assms by (simp add: blocks_cover blocks_inner)
  finally show ?thesis .
qed

section \<open>Properties\<close>

text \<open>
  C9: the pipelined grid multiplies. For every pair of 2x2 tiles and whatever the reads before
  the start of a row return in the flush phase, the seven cycles of a tile leave in \<open>Result\<close> the
  matrix product of the two tiles, in 16-bit arithmetic.
\<close>

theorem sa_tile_product:
  "fst (snd (tile_cycles junk1 junk2 [[a00, a01], [a10, a11]] [[b00, b01], [b10, b11]])) =
     [[ucast a00 * ucast b00 + ucast a01 * ucast b10, ucast a00 * ucast b01 + ucast a01 * ucast b11],
      [ucast a10 * ucast b00 + ucast a11 * ucast b10, ucast a10 * ucast b01 + ucast a11 * ucast b11]]"
  using tile_cycles_result [of junk1 junk2 a00 a01 a10 a11 b00 b01 b10 b11] by (simp add: prod16_def)

lemma matrix_product_run:
  assumes "core_ok s" "tile_events s = []" "tileQ s = []"
    and "unat (strideA s) \<le> 64" "unat (strideB s) \<le> 64" "unat (strideC s) \<le> 64"
  shows "\<exists>s'. bindE (ComputeMatrix now s)
      (run_events junk (8 * length (tiles (unat (strideA s)) (unat (strideB s))))) = Inr s'
    \<and> sa_done s' \<and> tile_events s' = [] \<and> tileQ s' = []
    \<and> (\<forall>a < unat (strideA s). \<forall>b < unat (strideB s). C_matrix s' ! a ! b = C_matrix s ! a ! b
          + (\<Sum>k = 0..<unat (strideB s). ucast (A_matrix s ! a ! k) * ucast (B_matrix s ! k ! b)))"
proof -
  let ?q = "tiles (unat (strideA s)) (unat (strideB s))" and ?s = "s\<lparr>tileQ := tiles (unat (strideA s)) (unat (strideB s))\<rparr>"
  have "core_ok ?s" "\<forall>t \<in> set ?q. tile_ok t" using assms tiles_ok by (auto simp: core_ok_def)
  with run_queue [of ?s ?q now junk] assms obtain s' where
    "bindE (launchNextTile now ?s) (run_events junk (8 * length ?q)) = Inr s'"
    "sa_done s'" "tile_events s' = []" "tileQ s' = []"
    "\<forall>a<64. \<forall>b<64. C_matrix s' ! a ! b = C_matrix s ! a ! b + (\<Sum>t\<leftarrow>?q. contrib (A_matrix s) (B_matrix s) a b t)"
    by auto
  with assms show ?thesis
    by (intro exI [of _ s']) (auto simp: ComputeMatrix_def sum_tiles inner_def prod16_def)
qed

text \<open>
  C8: \<open>ComputeMatrix\<close> computes the matrix product. With strides of at most 64 and nothing else
  scheduled, running the events it schedules (eight per tile) terminates with \<open>done\<close> set, no event
  and no tile left, and every entry of C in the first \<open>strideA\<close> rows and \<open>strideB\<close> columns increased
  by the inner product of the row of A and the column of B over the first \<open>strideB\<close> positions,
  modulo \<open>2 ^ 16\<close>.
\<close>

theorem sa_matrix_product:
  assumes "core_ok s" "tile_events s = []" "tileQ s = []"
    and "unat (strideA s) \<le> 64" "unat (strideB s) \<le> 64" "unat (strideC s) \<le> 64"
  shows "\<exists>s'. bindE (ComputeMatrix now s)
      (run_events junk (8 * length (tiles (unat (strideA s)) (unat (strideB s))))) = Inr s'
    \<and> sa_done s' \<and> tile_events s' = [] \<and> tileQ s' = []
    \<and> (\<forall>a < unat (strideA s). \<forall>b < unat (strideB s). C_matrix s' ! a ! b = C_matrix s ! a ! b
          + (\<Sum>k = 0..<unat (strideB s). ucast (A_matrix s ! a ! k) * ucast (B_matrix s ! k ! b)))"
  by (rule matrix_product_run [OF assms])

definition ex_core :: sa_core where
  "ex_core = \<lparr>A_matrix = replicate 64 (replicate 64 2), B_matrix = replicate 64 (replicate 64 3),
     C_matrix = replicate 64 (replicate 64 0), tileQ = [],
     current_tile = \<lparr>rowBlk = 0, colBlk = 0, tileRows = 0, tileCols = 0, kBlk = 0, kCols = 0\<rparr>,
     Tile_Result = zero_tile, A_Tile = [[0, 0], [0, 0]], B_Tile = [[0, 0], [0, 0]], TileFinish = False,
     sa_pe = [], sa_Result = [], sa_emitRow = [], sa_done = False, strideA = 3, strideB = 3, strideC = 3,
     tile_events = []\<rparr>"

theorem sa_matrix_product_witness:
  "\<exists>s'. bindE (ComputeMatrix 5 ex_core) (run_events (\<lambda>_ _. \<lparr>v8_valid = True, v8_data = 7\<rparr>) (8 * length (tiles 3 3))) = Inr s'
    \<and> sa_done s' \<and> C_matrix s' ! 2 ! 1 = 18"
proof -
  have "is_mat 2 2 [[0, 0], [0, 0 :: u8]]" by (simp add: is_mat_2)
  then have ex: "core_ok ex_core" "tile_events ex_core = []" "tileQ ex_core = []" "unat (strideA ex_core) = 3"
    "unat (strideB ex_core) = 3" "unat (strideC ex_core) = 3" "C_matrix ex_core ! 2 ! 1 = 0"
    "A_matrix ex_core ! 2 = replicate 64 2" "\<And>k. k < 64 \<Longrightarrow> B_matrix ex_core ! k = replicate 64 3"
    by (simp_all add: ex_core_def core_ok_def)
  from sa_matrix_product [of ex_core 5 "\<lambda>_ _. \<lparr>v8_valid = True, v8_data = 7\<rparr>"] ex(1-6) obtain s' where
    s': "bindE (ComputeMatrix 5 ex_core) (run_events (\<lambda>_ _. \<lparr>v8_valid = True, v8_data = 7\<rparr>) (8 * length (tiles 3 3))) = Inr s'"
      "sa_done s'" "\<forall>a<3. \<forall>b<3. C_matrix s' ! a ! b = C_matrix ex_core ! a ! b
          + (\<Sum>k = 0..<3. ucast (A_matrix ex_core ! a ! k) * ucast (B_matrix ex_core ! k ! b))"
    by auto
  then have "C_matrix s' ! 2 ! 1 = 0 + (\<Sum>k = 0..<3 :: nat. ucast (2 :: u8) * ucast (3 :: u8))"
    using ex(7-9) by simp
  with s'(1,2) show ?thesis by (intro exI [of _ s']) simp
qed

end
