(* ===== verification/SystolicArray.thy ===== *)
theory SystolicArray
  imports SystolicCore BaseMemory BurstTracker MMIO
begin

text \<open>
  The bus side of the systolic array (\<open>soc/include/SystolicArray.hh\<close>,
  \<open>soc/libs/SystolicArray.cc\<close>): the on-chip SRAM with its beat handlers and burst trackers, the
  memory-mapped registers, the program the array sends to the DMA controller, the phases of a
  multiplication and the step function. The state extends the state of the compute part. The
  SRAM is the byte view of the \<open>uint32_t\<close> array, 32000 bytes.
\<close>

section \<open>State\<close>

datatype Phase = READ_MAT_A | READ_MAT_B | COMPUTE

datatype sa_event =
    SaReadMMIO read_req_payload
  | SaWriteMMIO write_req_payload
  | SaSRAMRead read_req_payload
  | SaSRAMWrite write_req_payload
  | SaPoll

record 'r sa = sa_core +
  sa_enabled :: bool
  sa_M :: u32
  sa_K :: u32
  sa_N :: u32
  A_addr :: u32
  B_addr :: u32
  C_addr :: u32
  A_addr_dm :: u32
  B_addr_dm :: u32
  C_addr_dm :: u32
  expected_MatA_size :: int
  expected_MatB_size :: int
  read_MatA_size :: int
  read_MatB_size :: int
  sram :: "u8 list"
  sa_pending :: pending_map
  phase :: Phase
  sa_m_req :: 'r
  sa_m_resp :: 'r
  sa_req_Q :: "sim_packet list"
  sa_resp_Q :: "sim_packet list"
  sa_events :: "(nat \<times> sa_event) list"

definition SA_SRAM_SIZE :: nat where
  "SA_SRAM_SIZE = 8000"

definition sram_bytes :: nat where
  "sram_bytes = SA_SRAM_SIZE * 4"

definition sa_schedule :: "(nat \<times> sa_event) list \<Rightarrow> 'r sa \<Rightarrow> 'r sa" where
  "sa_schedule evs s = s\<lparr>sa_events := sa_events s @ evs\<rparr>"

section \<open>Sending\<close>

text \<open>The result of \<open>push\<close> is ignored: the front of a queue is popped even if it was refused.\<close>

definition push_and_pop :: "'r reg_ops \<Rightarrow> 'r \<Rightarrow> sim_packet list \<Rightarrow> 'r \<times> sim_packet list" where
  "push_and_pop ops r q =
     (case q of
        [] \<Rightarrow> (r, q)
      | p # ps \<Rightarrow> if isStalled ops r then (r, q) else (fst (push ops r p), ps))"

definition sa_trySendPacket :: "'r reg_ops \<Rightarrow> 'r sa \<Rightarrow> 'r sa" where
  "sa_trySendPacket ops s =
     (case push_and_pop ops (sa_m_req s) (sa_req_Q s) of (r, q) \<Rightarrow>
      case push_and_pop ops (sa_m_resp s) (sa_resp_Q s) of (r', q') \<Rightarrow>
        s\<lparr>sa_m_req := r, sa_req_Q := q, sa_m_resp := r', sa_resp_Q := q'\<rparr>)"

definition sa_masterPortRetry :: "'r reg_ops \<Rightarrow> 'r sa \<Rightarrow> 'r sa" where
  "sa_masterPortRetry ops s = sa_trySendPacket ops s"

section \<open>SRAM beats\<close>

definition sram_in_range :: "u32 \<Rightarrow> bool" where
  "sram_in_range a \<longleftrightarrow> SA_MEMORY_BASE \<le> a \<and> a < SA_MEMORY_BASE + of_nat sram_bytes"

definition sram_offset :: "u32 \<Rightarrow> nat" where
  "sram_offset a = unat (a - SA_MEMORY_BASE)"

text \<open>The switch of \<open>SRAMReadReqHandler\<close>; \<open>None\<close> is a branch that logs an error and returns.\<close>

definition sram_read :: "u8 list \<Rightarrow> instr_type \<Rightarrow> u32 \<Rightarrow> u32 option" where
  "sram_read m oper addr =
     (if \<not> sram_in_range addr then None
      else if oper \<in> {LB, LBU} then Some (load_ext oper (segment m (sram_offset addr) 1))
      else if oper \<in> {LH, LHU} then
        (if sram_offset addr + 1 \<ge> sram_bytes then None else Some (load_ext oper (segment m (sram_offset addr) 2)))
      else if oper = LW then
        (if sram_offset addr + 3 \<ge> sram_bytes then None else Some (load_ext oper (segment m (sram_offset addr) 4)))
      else None)"

definition sa_collect_read :: "'r sa \<Rightarrow> read_req_payload \<Rightarrow> read_resp_payload \<Rightarrow> 'r sa" where
  "sa_collect_read s p rsp =
     (let tk0 = tracker_at (sa_pending s) (rq_tid p);
          tk = tk0\<lparr>rbeats := rbeats tk0 @ [rsp]\<rparr>
      in if int (length (rbeats tk)) = expected tk
         then s\<lparr>sa_pending := (sa_pending s)(rq_tid p := None),
                sa_resp_Q := sa_resp_Q s @
                  [ReadResp (setTID (rq_tid p) (Construct_MemReadRespPkt (rbeats tk) ''sa'' (rq_caller p)))]\<rparr>
         else s\<lparr>sa_pending := (sa_pending s)(rq_tid p \<mapsto> tk)\<rparr>)"

definition SRAMReadReqHandler :: "sim_config \<Rightarrow> 'r sa \<Rightarrow> read_req_payload \<Rightarrow> 'r sa result" where
  "SRAMReadReqHandler cfg s p =
     (case sram_read (sram s) (rq_op p) (rq_addr p) of
        None \<Rightarrow> log_error cfg ''SRAM read'' (Inr s)
      | Some ret \<Rightarrow> Inr (sa_collect_read s p
          \<lparr>rr_tid = rq_tid p, rr_instr = rq_instr p, rr_op = rq_op p, rr_data = ret, rr_a1 = rq_a1 p\<rparr>))"

text \<open>The range checks, the switch and the \<open>memcpy\<close> of \<open>SRAMWriteReqHandler\<close>.\<close>

definition sram_write :: "u8 list \<Rightarrow> instr_type \<Rightarrow> u32 \<Rightarrow> u32 \<Rightarrow> u8 list option" where
  "sram_write m oper addr dat =
     (if \<not> sram_in_range addr then None
      else if oper \<in> {SB, SH, SW} then
        (if sram_offset addr + store_bytes oper > sram_bytes then None
         else Some (blit m (sram_offset addr) (bytes_of (store_bytes oper) dat)))
      else None)"

definition sa_collect_write :: "'r sa \<Rightarrow> write_req_payload \<Rightarrow> write_resp_payload \<Rightarrow> 'r sa" where
  "sa_collect_write s p rsp =
     (let tk0 = tracker_at (sa_pending s) (wq_tid p);
          tk = tk0\<lparr>wbeats := wbeats tk0 @ [rsp]\<rparr>
      in if int (length (wbeats tk)) = expected tk
         then s\<lparr>sa_pending := (sa_pending s)(wq_tid p := None),
                sa_resp_Q := sa_resp_Q s @
                  [WriteResp (setTID (wq_tid p) (Construct_MemWriteRespPkt (wbeats tk) ''sa'' (wq_caller p)))]\<rparr>
         else s\<lparr>sa_pending := (sa_pending s)(wq_tid p \<mapsto> tk)\<rparr>)"

definition SRAMWriteReqHandler :: "sim_config \<Rightarrow> 'r sa \<Rightarrow> write_req_payload \<Rightarrow> 'r sa result" where
  "SRAMWriteReqHandler cfg s p =
     assertE (SA_MEMORY_BASE \<le> wq_addr p) ''addr >= SA_MEMORY_BASE''
       (case sram_write (sram s) (wq_op p) (wq_addr p) (wq_data p) of
          None \<Rightarrow> log_error cfg ''SRAM write'' (Inr s)
        | Some m \<Rightarrow> Inr (sa_collect_write (s\<lparr>sram := m\<rparr>) p \<lparr>wr_tid = wq_tid p, wr_instr = wq_instr p\<rparr>))"

section \<open>Programming the DMA controller\<close>

definition sa_queue_write :: "u32 \<Rightarrow> u32 \<Rightarrow> 'r sa \<times> int \<Rightarrow> 'r sa \<times> int" where
  "sa_queue_write addr v sc =
     (case Construct_MemWritepkt_non_burst (snd sc) blank_instr SW addr v ''sa'' of (pkt, ctr') \<Rightarrow>
        ((fst sc)\<lparr>sa_req_Q := sa_req_Q (fst sc) @ [pkt]\<rparr>, ctr'))"

definition PokeDMAReady :: "sim_config \<Rightarrow> nat \<Rightarrow> 'r sa \<Rightarrow> 'r sa" where
  "PokeDMAReady cfg now s = sa_schedule [(now + memory_read_latency cfg, SaPoll)] s"

text \<open>The body of the scheduled poll: a read of the DMA's \<open>DONE\<close> register with a tracking tag.\<close>

definition poll_tag :: u32 where
  "poll_tag = 114154"

definition poll_event :: "int \<Rightarrow> 'r sa \<Rightarrow> 'r sa \<times> int" where
  "poll_event ctr s =
     (case Construct_MemReadpkt_non_burst ctr blank_instr LW 0x0000F014 (blank_operand\<lparr>o_imm := poll_tag\<rparr>) ''sa'' of
        (pkt, ctr') \<Rightarrow> (s\<lparr>sa_req_Q := sa_req_Q s @ [pkt]\<rparr>, ctr'))"

definition sa_dma_program :: "u32 \<Rightarrow> u32 \<Rightarrow> u32 \<Rightarrow> 'r sa \<times> int \<Rightarrow> 'r sa \<times> int" where
  "sa_dma_program src dst size_cfg sc =
     sa_queue_write 0xF000 1 (sa_queue_write 0xF00C size_cfg (sa_queue_write 0xF008 dst (sa_queue_write 0xF004 src sc)))"

definition AskDMAtoWrite_matA :: "sim_config \<Rightarrow> nat \<Rightarrow> int \<Rightarrow> 'r sa \<Rightarrow> 'r sa \<times> int" where
  "AskDMAtoWrite_matA cfg now ctr s =
     (let TW = ucast ((sa_K s - 1) AND 0xFF) :: u8; TH = ucast ((sa_M s - 1) AND 0xFF) :: u8;
          stride = ucast (strideA s AND 0xFF) :: u8;
          size_cfg = push_bit 24 (ucast stride) OR push_bit 16 (ucast stride) OR push_bit 8 (ucast TW) OR ucast TH
      in case sa_dma_program (A_addr_dm s) (A_addr s + SA_MEMORY_BASE) size_cfg (s, ctr) of (s', ctr') \<Rightarrow>
           (PokeDMAReady cfg now s', ctr'))"

definition AskDMAtoWrite_matB :: "sim_config \<Rightarrow> nat \<Rightarrow> int \<Rightarrow> 'r sa \<Rightarrow> 'r sa \<times> int" where
  "AskDMAtoWrite_matB cfg now ctr s =
     (let TW = sa_K s - 1; TH = sa_M s - 1;
          stride = ucast (strideB s AND 0xFF) :: u8;
          size_cfg = push_bit 24 (ucast stride) OR push_bit 16 (ucast stride) OR push_bit 8 TW OR TH
      in case sa_dma_program (B_addr_dm s) (B_addr s + SA_MEMORY_BASE) size_cfg (s, ctr) of (s', ctr') \<Rightarrow>
           (PokeDMAReady cfg now s', ctr'))"

definition sa_initialized_transaction :: "sim_config \<Rightarrow> nat \<Rightarrow> int \<Rightarrow> 'r sa \<Rightarrow> ('r sa \<times> int) result" where
  "sa_initialized_transaction cfg now ctr s0 =
     (let s = s0\<lparr>sa_done := False, sa_enabled := True\<rparr>
      in assertE (A_addr s mod 4 = 0 \<and> B_addr s mod 4 = 0 \<and> C_addr s mod 4 = 0)
           ''Current support the address be multiple of 4''
         (let s1 = s\<lparr>expected_MatA_size := sint (sa_M s * sa_K s), expected_MatB_size := sint (sa_K s * sa_N s),
                     phase := READ_MAT_A, read_MatA_size := 0, read_MatB_size := 0\<rparr>
          in assertE (expected_MatA_size s1 \<le> 2048 \<and> expected_MatB_size s1 \<le> 2048)
               ''We assumes that matrix size to be less than 2048''
               (Inr (AskDMAtoWrite_matA cfg now ctr
                 (s1\<lparr>A_matrix := replicate 64 (replicate 64 0), B_matrix := replicate 64 (replicate 64 0),
                      C_matrix := replicate 64 (replicate 64 0)\<rparr>)))))"

section \<open>Memory-mapped registers\<close>

definition sa_reg_read :: "'r sa \<Rightarrow> u32 \<Rightarrow> u32 option" where
  "sa_reg_read s a =
     (if a = 0x0 then Some (if sa_enabled s then 1 else 0)
      else if a = 0x4 then Some (if sa_done s then 1 else 0)
      else if a = 0x8 then Some (push_bit 16 (sa_M s) OR sa_K s)
      else if a = 0xC then Some (push_bit 16 (sa_K s) OR sa_N s)
      else if a = 0x10 then Some (push_bit 16 (sa_M s) OR sa_N s)
      else if a = 0x14 then Some (A_addr s)
      else if a = 0x18 then Some (B_addr s)
      else if a = 0x1C then Some (C_addr s)
      else if a = 0x20 then Some ((strideA s AND 0xFF) OR push_bit 8 (strideB s AND 0xFF) OR push_bit 16 (strideC s AND 0xFF))
      else None)"

definition sa_readMMIO :: "sim_config \<Rightarrow> read_req_payload \<Rightarrow> 'r sa \<Rightarrow> 'r sa result" where
  "sa_readMMIO cfg p s =
     (let respond = (\<lambda>data.
        Inr (s\<lparr>sa_resp_Q := sa_resp_Q s @ [ReadResp (Construct_MemReadRespPkt
          [\<lparr>rr_tid = rq_tid p, rr_instr = rq_instr p, rr_op = rq_op p, rr_data = data, rr_a1 = rq_a1 p\<rparr>]
          ''sa'' (rq_caller p))]\<rparr>))
      in case sa_reg_read s (rq_addr p AND 0x3F) of
           Some data \<Rightarrow> respond data
         | None \<Rightarrow> log_error cfg ''Invalid read addr'' (respond 0))"

definition sa_reg_write :: "sim_config \<Rightarrow> nat \<Rightarrow> int \<Rightarrow> u32 \<Rightarrow> u32 \<Rightarrow> 'r sa \<Rightarrow> ('r sa \<times> int) result" where
  "sa_reg_write cfg now ctr a data s =
     (let hi = (drop_bit 16 data AND 0xFFF) + 1; lo = (data AND 0xFFF) + 1
      in if a = 0x0 then if data AND 1 \<noteq> 0 then sa_initialized_transaction cfg now ctr s else Inr (s, ctr)
         else if a = 0x4 then Inr (s\<lparr>sa_done := False\<rparr>, ctr)
         else if a = 0x8 then Inr (s\<lparr>sa_M := hi, sa_K := lo\<rparr>, ctr)
         else if a = 0xC then Inr (s\<lparr>sa_K := hi, sa_N := lo\<rparr>, ctr)
         else if a = 0x10 then Inr (s\<lparr>sa_M := hi, sa_N := lo\<rparr>, ctr)
         else if a = 0x14 then Inr (s\<lparr>A_addr := data\<rparr>, ctr)
         else if a = 0x18 then Inr (s\<lparr>B_addr := data\<rparr>, ctr)
         else if a = 0x1C then Inr (s\<lparr>C_addr := data\<rparr>, ctr)
         else if a = 0x20 then Inr (s\<lparr>strideA := data AND 0xFF, strideB := drop_bit 8 data AND 0xFF,
                                     strideC := drop_bit 16 data AND 0xFF\<rparr>, ctr)
         else if a = 0x24 then Inr (s\<lparr>A_addr_dm := data\<rparr>, ctr)
         else if a = 0x28 then Inr (s\<lparr>B_addr_dm := data\<rparr>, ctr)
         else if a = 0x2C then Inr (s\<lparr>C_addr_dm := data\<rparr>, ctr)
         else log_error cfg ''Invalid write addr'' (Inr (s, ctr)))"

definition sa_writeMMIO :: "sim_config \<Rightarrow> nat \<Rightarrow> int \<Rightarrow> write_req_payload \<Rightarrow> 'r sa \<Rightarrow> ('r sa \<times> int) result" where
  "sa_writeMMIO cfg now ctr p s =
     bindE (sa_reg_write cfg now ctr (wq_addr p AND 0x3F) (wq_data p) s) (\<lambda>(s', ctr').
       Inr (s'\<lparr>sa_resp_Q := sa_resp_Q s' @ [WriteResp (Construct_MemWriteRespPkt
              [\<lparr>wr_tid = wq_tid p, wr_instr = wq_instr p\<rparr>] ''sa'' (wq_caller p))]\<rparr>, ctr'))"

section \<open>Responses\<close>

definition sram_word :: "u8 list \<Rightarrow> u32 \<Rightarrow> u32 result" where
  "sram_word m idx = (if unat idx < SA_SRAM_SIZE then Inr (word_of_bytes (segment m (4 * unat idx) 4)) else Inl (OutOfBounds ''sram''))"

text \<open>The nested loops that copy a matrix from the SRAM, one byte lane at a time.\<close>

definition load_matrix :: "string \<Rightarrow> u8 list \<Rightarrow> u32 \<Rightarrow> u32 \<Rightarrow> u8 list list \<Rightarrow> u8 list list result" where
  "load_matrix name m addr stride mat =
     foldE (\<lambda>mat (i, j).
       bindE (sram_word m (addr div 4 + of_nat i * ((stride + 3) div 4) + of_nat (j div 4))) (\<lambda>w.
         mat_set name mat i j (ucast (drop_bit (j mod 4 * 8) w AND 0xFF))))
       mat (loop2 0 (unat stride) 0 (unat stride))"

definition sa_load_matrices :: "'r sa \<Rightarrow> 'r sa result" where
  "sa_load_matrices s =
     bindE (load_matrix ''A_matrix'' (sram s) (A_addr s) (strideA s) (A_matrix s)) (\<lambda>A.
     bindE (load_matrix ''B_matrix'' (sram s) (B_addr s) (strideB s) (B_matrix s)) (\<lambda>B.
       Inr (s\<lparr>A_matrix := A, B_matrix := B\<rparr>)))"

definition sa_handleReadResponse ::
  "sim_config \<Rightarrow> nat \<Rightarrow> int \<Rightarrow> read_resp_payload xbar_packet \<Rightarrow> 'r sa \<Rightarrow> ('r sa \<times> int) result" where
  "sa_handleReadResponse cfg now ctr pkt s =
     assertE (src_idx pkt = 1) ''Should from DMA''
       (case payloadList pkt of
          [p] \<Rightarrow>
            if o_imm (rr_a1 p) = poll_tag then
              if rr_data p = 1 then
                (case phase s of
                   READ_MAT_A \<Rightarrow> Inr (AskDMAtoWrite_matB cfg now ctr (s\<lparr>phase := READ_MAT_B\<rparr>))
                 | READ_MAT_B \<Rightarrow>
                     bindE (sa_load_matrices s) (\<lambda>s1.
                       bindE (ComputeMatrix now (s1\<lparr>phase := COMPUTE\<rparr>)) (\<lambda>s2. Inr (s2, ctr)))
                 | COMPUTE \<Rightarrow> Inr (s, ctr))
              else Inr (PokeDMAReady cfg now s, ctr)
            else log_error cfg ''read respond other than the poke ready'' (Inr (s, ctr))
        | _ \<Rightarrow> log_error cfg ''read respond other than the poke ready'' (Inr (s, ctr)))"

text \<open>\<open>handleWriteCompletion\<close> only recycles its objects.\<close>

definition sa_handleWriteCompletion :: "write_resp_payload xbar_packet \<Rightarrow> 'r sa \<Rightarrow> 'r sa" where
  "sa_handleWriteCompletion pkt s = s"

section \<open>The step function\<close>

text \<open>\<open>SA_MEMORY_BASE + SA_SRAM_SIZE\<close> bounds the first address, in bytes, with the number of words.\<close>

definition to_sram :: "u32 \<Rightarrow> bool" where
  "to_sram addr0 \<longleftrightarrow> SA_MEMORY_BASE \<le> addr0 \<and> addr0 < SA_MEMORY_BASE + of_nat SA_SRAM_SIZE"

definition sa_accept ::
  "sim_config \<Rightarrow> nat \<Rightarrow> ('p \<Rightarrow> u32) \<Rightarrow> ('p \<Rightarrow> sa_event) \<Rightarrow> ('p \<Rightarrow> sa_event) \<Rightarrow> 'p xbar_packet \<Rightarrow> 'r sa \<Rightarrow> 'r sa result" where
  "sa_accept cfg now addr_of sram_ev mmio_ev pkt s =
     (let ps = payloadList pkt; lat = memory_read_latency cfg
      in assertE (int (length ps) = burstSize pkt) ''size''
         (case ps of
            [] \<Rightarrow> Inl (OutOfBounds ''payload'')
          | p # _ \<Rightarrow>
              bindE (getTID pkt) (\<lambda>t.
                (let s' = s\<lparr>sa_pending := expect_beats (sa_pending s) t (int (length ps))\<rparr>
                 in if to_sram (addr_of p)
                    then Inr (sa_schedule (map (\<lambda>i. (now + i + lat, sram_ev (ps ! i))) [0..<length ps]) s')
                    else assertE (length ps = 1) ''payload.size() == 1''
                           (Inr (sa_schedule [(now + lat, mmio_ev p)] s'))))))"

definition sa_step ::
  "'r reg_ops \<Rightarrow> sim_config \<Rightarrow> nat \<Rightarrow> int \<Rightarrow> sim_packet option \<Rightarrow> 'r sa \<Rightarrow> ('r sa \<times> int) result" where
  "sa_step ops cfg now ctr popped s0 =
     (let s = (if sa_req_Q s0 \<noteq> [] \<or> sa_resp_Q s0 \<noteq> [] then sa_trySendPacket ops s0 else s0)
      in case popped of
           None \<Rightarrow> Inr (s, ctr)
         | Some (ReadReq pkt) \<Rightarrow>
             bindE (sa_accept cfg now rq_addr SaSRAMRead SaReadMMIO pkt s) (\<lambda>s'. Inr (s', ctr))
         | Some (WriteReq pkt) \<Rightarrow>
             bindE (sa_accept cfg now wq_addr SaSRAMWrite SaWriteMMIO pkt s) (\<lambda>s'. Inr (s', ctr))
         | Some (ReadResp pkt) \<Rightarrow> sa_handleReadResponse cfg now ctr pkt s
         | Some (WriteResp pkt) \<Rightarrow> Inr (sa_handleWriteCompletion pkt s, ctr))"

fun sa_exec_event :: "sim_config \<Rightarrow> nat \<Rightarrow> int \<Rightarrow> sa_event \<Rightarrow> 'r sa \<Rightarrow> ('r sa \<times> int) result" where
  "sa_exec_event cfg now ctr (SaReadMMIO p) s = bindE (sa_readMMIO cfg p s) (\<lambda>s'. Inr (s', ctr))"
| "sa_exec_event cfg now ctr (SaWriteMMIO p) s = sa_writeMMIO cfg now ctr p s"
| "sa_exec_event cfg now ctr (SaSRAMRead p) s = bindE (SRAMReadReqHandler cfg s p) (\<lambda>s'. Inr (s', ctr))"
| "sa_exec_event cfg now ctr (SaSRAMWrite p) s = bindE (SRAMWriteReqHandler cfg s p) (\<lambda>s'. Inr (s', ctr))"
| "sa_exec_event cfg now ctr SaPoll s = Inr (poll_event ctr s)"

section \<open>The SRAM as a byte store\<close>

definition sram_ok :: "u8 list \<Rightarrow> bool" where
  "sram_ok m \<longleftrightarrow> length m = sram_bytes"

definition sram_run :: "u8 list \<Rightarrow> u32 \<Rightarrow> nat \<Rightarrow> bool" where
  "sram_run m a n \<longleftrightarrow> SA_MEMORY_BASE \<le> a \<and> sram_offset a + n \<le> sram_bytes"

definition sram_get :: "u8 list \<Rightarrow> u32 \<Rightarrow> nat \<Rightarrow> u8 list result" where
  "sram_get m a n = (if sram_run m a n then Inr (segment m (sram_offset a) n) else Inl (LoggedError ''SRAM read''))"

definition sram_put :: "u8 list \<Rightarrow> u32 \<Rightarrow> u8 list \<Rightarrow> u8 list result" where
  "sram_put m a bs = (if sram_run m a (length bs) then Inr (blit m (sram_offset a) bs) else Inl (LoggedError ''SRAM write''))"

lemma sram_offset_add: "SA_MEMORY_BASE \<le> a \<Longrightarrow> unat a = sram_offset a + 0x20000"
  using unat_sub [of SA_MEMORY_BASE a] by (simp add: sram_offset_def SA_MEMORY_BASE_def word_le_nat_alt)

interpretation sram: byte_store sram_get sram_put sram_run sram_ok
proof unfold_locales
  fix m a n bs b k and m' :: "u8 list"
  assume inv: "sram_ok m"
  show "sram_run m a n \<Longrightarrow> \<exists>bs. sram_get m a n = Inr bs \<and> length bs = n"
    using inv by (simp add: sram_get_def sram_run_def sram_ok_def)
  show "sram_run m a (length bs) \<Longrightarrow> \<exists>m'. sram_put m a bs = Inr m'"
    by (simp add: sram_put_def)
  show "sram_run m' b k = sram_run m b k" by (simp add: sram_run_def)
  assume "sram_put m a bs = Inr m'"
  then have run: "sram_run m a (length bs)" and m': "m' = blit m (sram_offset a) bs"
    by (auto simp: sram_put_def split: if_splits)
  then show "sram_ok m'" using inv by (simp add: sram_ok_def sram_run_def)
  show "sram_get m' a (length bs) = Inr bs"
    using run inv m' by (simp add: sram_get_def sram_run_def sram_ok_def)
  assume "sram_run m b k" "unat b + k \<le> unat a \<or> unat a + length bs \<le> unat b"
  then show "sram_get m' b k = sram_get m b k"
    using run inv m' by (simp add: sram_get_def sram_run_def sram_ok_def sram_offset_add segment_blit_disjoint)
qed

lemma sram_in_range_offset: "sram_in_range a \<longleftrightarrow> SA_MEMORY_BASE \<le> a \<and> sram_offset a < sram_bytes"
  using sram_offset_add [of a]
  by (auto simp: sram_in_range_def word_less_nat_alt sram_bytes_def SA_SRAM_SIZE_def SA_MEMORY_BASE_def)

lemma sram_read_eq:
  assumes "load_bytes ld \<noteq> 0"
  shows "sram_read m ld a = (case sram.load_at m ld a of Inl _ \<Rightarrow> None | Inr v \<Rightarrow> Some v)"
  using assms by (cases ld) (auto simp: sram_read_def sram.load_at_def sram_get_def sram_run_def sram_in_range_offset)

lemma sram_write_eq:
  assumes "st \<in> {SB, SH, SW}"
  shows "sram_write m st a v = (case sram.store_at m st a v of Inl _ \<Rightarrow> None | Inr m' \<Rightarrow> Some m')"
  using assms by (auto simp: sram_write_def sram.store_at_def sram_put_def sram_run_def sram_in_range_offset)

section \<open>Bursts\<close>

abbreviation fatal :: "sim_config \<Rightarrow> sim_config" where
  "fatal cfg \<equiv> cfg\<lparr>error_aborts := True\<rparr>"

definition sa_read_resp :: "'r sa \<Rightarrow> read_req_payload \<Rightarrow> read_resp_payload" where
  "sa_read_resp s p = \<lparr>rr_tid = rq_tid p, rr_instr = rq_instr p, rr_op = rq_op p,
     rr_data = (case sram_read (sram s) (rq_op p) (rq_addr p) of None \<Rightarrow> 0 | Some v \<Rightarrow> v), rr_a1 = rq_a1 p\<rparr>"

definition sa_read_packet :: "read_req_payload \<Rightarrow> read_resp_payload list \<Rightarrow> sim_packet" where
  "sa_read_packet p rs = ReadResp (setTID (rq_tid p) (Construct_MemReadRespPkt rs ''sa'' (rq_caller p)))"

definition sa_write_packet :: "write_req_payload \<Rightarrow> write_resp_payload list \<Rightarrow> sim_packet" where
  "sa_write_packet p rs = WriteResp (setTID (wq_tid p) (Construct_MemWriteRespPkt rs ''sa'' (wq_caller p)))"

lemma SRAMReadReqHandler_Inr:
  "SRAMReadReqHandler (fatal cfg) s p = Inr s' \<Longrightarrow> s' = sa_collect_read s p (sa_read_resp s p)"
  by (auto simp: SRAMReadReqHandler_def sa_read_resp_def log_error_def split: option.splits)

lemma SRAMWriteReqHandler_Inr:
  "SRAMWriteReqHandler (fatal cfg) s p = Inr s' \<Longrightarrow>
   \<exists>m. sram_write (sram s) (wq_op p) (wq_addr p) (wq_data p) = Some m
     \<and> s' = sa_collect_write (s\<lparr>sram := m\<rparr>) p \<lparr>wr_tid = wq_tid p, wr_instr = wq_instr p\<rparr>"
  by (auto simp: SRAMWriteReqHandler_def log_error_def result_simps split: option.splits)

interpretation sar: burst_collector "SRAMReadReqHandler (fatal cfg)" rq_tid sa_read_resp
  "\<lambda>s t. rbeats (tracker_at (sa_pending s) t)" "\<lambda>s t. expected (tracker_at (sa_pending s) t)" sa_resp_Q sa_read_packet
  for cfg
  by unfold_locales
    (auto dest!: SRAMReadReqHandler_Inr simp: sa_collect_read_def Let_def sa_read_packet_def empty_tracker_def)

interpretation saw: burst_collector "SRAMWriteReqHandler (fatal cfg)" wq_tid
  "\<lambda>s p. \<lparr>wr_tid = wq_tid p, wr_instr = wq_instr p\<rparr>"
  "\<lambda>s t. wbeats (tracker_at (sa_pending s) t)" "\<lambda>s t. expected (tracker_at (sa_pending s) t)" sa_resp_Q sa_write_packet
  for cfg
  by unfold_locales
    (auto dest!: SRAMWriteReqHandler_Inr simp: sa_collect_write_def Let_def sa_write_packet_def empty_tracker_def)

lemma sar_serve_fold:
  assumes "\<forall>p \<in> set ps. \<exists>v. sram_read (sram s) (rq_op p) (rq_addr p) = Some v"
  shows "\<exists>s' rs. sar.serve cfg s ps = Inr (s', rs) \<and> foldE (SRAMReadReqHandler cfg) s ps = Inr s'
    \<and> list_all2 (\<lambda>p r. sram_read (sram s) (rq_op p) (rq_addr p) = Some (rr_data r)) ps rs"
  using assms
proof (induction ps arbitrary: s)
  case (Cons p ps)
  then obtain v where v: "sram_read (sram s) (rq_op p) (rq_addr p) = Some v" by auto
  let ?s1 = "sa_collect_read s p (sa_read_resp s p)"
  have h: "SRAMReadReqHandler c s p = Inr ?s1" for c
    using v by (simp add: SRAMReadReqHandler_def sa_read_resp_def)
  have "sram ?s1 = sram s" by (simp add: sa_collect_read_def Let_def)
  with Cons.IH [of ?s1] Cons.prems obtain s' rs where "sar.serve cfg ?s1 ps = Inr (s', rs)"
    "foldE (SRAMReadReqHandler cfg) ?s1 ps = Inr s'"
    "list_all2 (\<lambda>p r. sram_read (sram s) (rq_op p) (rq_addr p) = Some (rr_data r)) ps rs" by auto
  moreover have "rr_data (sa_read_resp s p) = v" using v by (simp add: sa_read_resp_def)
  ultimately show ?case using v h by auto
qed simp

section \<open>Loading matrices\<close>

text \<open>Entry \<open>(i, j)\<close> of a square matrix of bytes whose rows are padded to words.\<close>

definition sram_entry :: "u8 list \<Rightarrow> u32 \<Rightarrow> nat \<Rightarrow> nat \<Rightarrow> nat \<Rightarrow> u8" where
  "sram_entry m addr n i j = m ! (4 * (unat addr div 4 + i * ((n + 3) div 4)) + j)"

lemma byte_of_word:
  assumes "length bs = 4" "l < 4"
  shows "(ucast (drop_bit (l * 8) (word_of_bytes bs) AND 0xFF) :: u8) = bs ! l"
proof -
  have "(ucast (drop_bit (8 * l) (word_of_bytes bs)) :: u8) = bs ! l"
    using bytes_of_word_of_bytes [of bs] nth_bytes_of [of l 4 "word_of_bytes bs"] assms by simp
  then show ?thesis
    by (simp add: bytes_simps ucast8_take_bit mult.commute)
qed

lemma sram_index:
  fixes addr stride :: u32
  assumes "unat stride \<le> 64" "i < unat stride" "j < unat stride"
  shows "unat (addr div 4 + of_nat i * ((stride + 3) div 4) + of_nat (j div 4))
    = unat addr div 4 + i * ((unat stride + 3) div 4) + j div 4"
proof -
  let ?w = "(unat stride + 3) div 4"
  have "?w \<le> 16" "j div 4 < 16" using assms by auto
  moreover have "i * ?w \<le> 63 * 16" using assms by (intro mult_le_mono) auto
  moreover have "unat addr div 4 < 2 ^ 30" using unat_u32_bound [of addr] by simp
  moreover have "unat (stride + 3) = unat stride + 3" using assms(1) by (simp add: unat_word_ariths)
  then have "unat ((stride + 3) div 4) = ?w" "unat (addr div 4) = unat addr div 4"
    by (simp_all add: unat_div_distrib)
  moreover have "unat (of_nat i :: u32) = i" "unat (of_nat (j div 4) :: u32) = j div 4"
    using assms by (simp_all add: unat_of_nat_u32)
  ultimately show ?thesis
    by (simp add: unat_word_ariths)
qed

lemma foldE_set:
  assumes "is_mat 64 64 mat" "\<And>i j. (i, j) \<in> set xs \<Longrightarrow> i < 64 \<and> j < 64 \<and> g i j = Inr (w i j)"
  shows "\<exists>mat'. foldE (\<lambda>mat (i, j). bindE (g i j) (\<lambda>x. mat_set name mat i j (h j x))) mat xs = Inr mat' \<and> is_mat 64 64 mat'
    \<and> (\<forall>a<64. \<forall>b<64. mat' ! a ! b = (if (a, b) \<in> set xs then h b (w a b) else mat ! a ! b))"
  using assms
proof (induction xs arbitrary: mat)
  case (Cons p xs)
  obtain i j where p: "p = (i, j)" by fastforce
  with Cons.prems have ij: "i < 64" "j < 64" "g i j = Inr (w i j)" by auto
  let ?m = "upd2 mat i j (\<lambda>_. h j (w i j))"
  have "is_mat 64 64 ?m" using Cons.prems(1) by simp
  from Cons.IH [OF this] Cons.prems(2) obtain mat' where
    "foldE (\<lambda>mat (i, j). bindE (g i j) (\<lambda>x. mat_set name mat i j (h j x))) ?m xs = Inr mat'" "is_mat 64 64 mat'"
    "\<forall>a<64. \<forall>b<64. mat' ! a ! b = (if (a, b) \<in> set xs then h b (w a b) else ?m ! a ! b)" by auto
  then show ?case
    using p ij Cons.prems(1) by (auto simp: nth_upd2)
qed auto

lemma load_matrix_spec:
  assumes "is_mat 64 64 mat" "sram_ok m" "unat stride = n" "n \<le> 64"
    and fit: "unat addr div 4 + n * ((n + 3) div 4) \<le> SA_SRAM_SIZE"
  shows "\<exists>mat'. load_matrix name m addr stride mat = Inr mat' \<and> is_mat 64 64 mat'
    \<and> (\<forall>a<64. \<forall>b<64. mat' ! a ! b = (if a < n \<and> b < n then sram_entry m addr n a b else mat ! a ! b))"
proof -
  let ?w = "(n + 3) div 4"
  let ?idx = "\<lambda>i j. addr div 4 + of_nat i * ((stride + 3) div 4) + of_nat (j div 4)"
  let ?word = "\<lambda>i j. word_of_bytes (segment m (4 * unat (?idx i j)) 4)"
  have idx: "unat (?idx i j) = unat addr div 4 + i * ?w + j div 4" "unat (?idx i j) < SA_SRAM_SIZE" if "i < n" "j < n" for i j
  proof -
    show eq: "unat (?idx i j) = unat addr div 4 + i * ?w + j div 4"
      using sram_index [of stride i j addr] that assms(3,4) by simp
    have "Suc i * ?w \<le> n * ?w" using that by (intro mult_le_mono1) simp
    moreover have "j div 4 < ?w" using that by (simp add: less_eq_div_iff_mult_less_eq div_less_iff_less_mult Suc_le_eq [symmetric])
    ultimately show "unat (?idx i j) < SA_SRAM_SIZE" using eq fit by simp
  qed
  have g: "i < 64 \<and> j < 64 \<and> sram_word m (?idx i j) = Inr (?word i j)" if "(i, j) \<in> set (loop2 0 n 0 n)" for i j
    using that idx assms(4) by (auto simp: loop2_def sram_word_def)
  have val: "(ucast (drop_bit (b mod 4 * 8) (?word a b) AND 0xFF) :: u8) = sram_entry m addr n a b" if "a < n" "b < n" for a b
  proof -
    have "4 * unat (?idx a b) + 4 \<le> length m"
      using idx(2) [OF that] assms(2) by (simp add: sram_ok_def sram_bytes_def)
    then have "(ucast (drop_bit (b mod 4 * 8) (?word a b) AND 0xFF) :: u8) = m ! (4 * unat (?idx a b) + b mod 4)"
      by (subst byte_of_word) (simp_all add: nth_segment)
    also have "4 * unat (?idx a b) + b mod 4 = 4 * (unat addr div 4 + a * ?w) + b"
      using idx(1) [OF that] by simp
    finally show ?thesis by (simp add: sram_entry_def)
  qed
  have "(a, b) \<in> set (loop2 0 n 0 n) \<longleftrightarrow> a < n \<and> b < n" for a b by (force simp: loop2_def)
  with foldE_set [where xs = "loop2 0 n 0 n" and name = name and h = "\<lambda>j w. ucast (drop_bit (j mod 4 * 8) w AND 0xFF)", OF assms(1) g] val
  show ?thesis unfolding load_matrix_def assms(3) by auto
qed

section \<open>Properties\<close>

text \<open>
  The on-chip SRAM behaves as a memory. A store inside it succeeds; a load of the same width
  and address then returns the stored value, sign- or zero-extended, and a load that does not
  overlap it returns what it returned before.
\<close>

lemma sa_sram_store_load:
  assumes "sram_ok (sram s)" "wq_op w \<in> {SB, SH, SW}" "sram_run (sram s) (wq_addr w) (store_bytes (wq_op w))"
    and "load_bytes ld = store_bytes (wq_op w)"
  shows "\<exists>s'. SRAMWriteReqHandler cfg s w = Inr s'
    \<and> sram_read (sram s') ld (wq_addr w) = Some (reload ld (wq_data w))
    \<and> (load_bytes ld' \<noteq> 0 \<and> sram_run (sram s) b (load_bytes ld')
        \<and> (unat b + load_bytes ld' \<le> unat (wq_addr w) \<or> unat (wq_addr w) + store_bytes (wq_op w) \<le> unat b)
       \<longrightarrow> sram_read (sram s') ld' b = sram_read (sram s) ld' b)"
proof -
  obtain m where m: "sram.store_at (sram s) (wq_op w) (wq_addr w) (wq_data w) = Inr m"
    using sram.store_total [OF assms(1,3)] by blast
  then have "SRAMWriteReqHandler cfg s w =
      Inr (sa_collect_write (s\<lparr>sram := m\<rparr>) w \<lparr>wr_tid = wq_tid w, wr_instr = wq_instr w\<rparr>)"
    using assms(2,3) by (simp add: SRAMWriteReqHandler_def sram_write_eq sram_run_def)
  moreover have "sram (sa_collect_write (s\<lparr>sram := m\<rparr>) w r) = m" for r
    by (simp add: sa_collect_write_def Let_def)
  moreover have "sram_read m ld (wq_addr w) = Some (reload ld (wq_data w))"
    using sram.load_store_reload [OF assms(1) m assms(2,4)] assms(2,4) by (subst sram_read_eq) auto
  ultimately show ?thesis
    using sram.load_store_disjoint [OF assms(1) m] by (auto simp: sram_read_eq)
qed

definition ex_sa :: "sim_packet list sa" where
  "ex_sa = sa_core.extend
     (ex_core\<lparr>A_matrix := replicate 64 (replicate 64 0), B_matrix := replicate 64 (replicate 64 0), strideA := 2, strideB := 2\<rparr>)
     (sa.fields False 1 1 1 0 8 16 0x2000 0x2100 0x2200 0 0 0 0 (map of_nat [0..<sram_bytes]) Map.empty READ_MAT_B [] [] [] [] [])"

lemma ex_sa_simps [simp]:
  "sram ex_sa = map of_nat [0..<sram_bytes]" "sa_pending ex_sa = Map.empty" "sa_resp_Q ex_sa = []" "sa_req_Q ex_sa = []"
  "phase ex_sa = READ_MAT_B" "A_addr ex_sa = 0" "B_addr ex_sa = 8" "C_addr ex_sa = 16" "A_addr_dm ex_sa = 0x2000"
  "tile_events ex_sa = []" "tileQ ex_sa = []" "strideA ex_sa = 2" "strideB ex_sa = 2" "strideC ex_sa = 3"
  "sa_M ex_sa = 1" "sa_K ex_sa = 1" "sa_N ex_sa = 1"
  by (simp_all add: ex_sa_def sa_core.extend_def sa.fields_def ex_core_def)

lemma sram_ok_map [simp]: "sram_ok (map f [0..<sram_bytes])"
  by (simp add: sram_ok_def)

lemma ex_sa_ok [simp]: "sram_ok (sram ex_sa)" "core_ok ex_sa" "C_matrix ex_sa = replicate 64 (replicate 64 0)"
proof -
  have "is_mat 2 2 [[0, 0], [0, 0 :: u8]]" by (simp add: is_mat_2)
  then show "core_ok ex_sa"
    by (simp add: core_ok_def ex_sa_def sa_core.extend_def sa.fields_def ex_core_def)
qed (simp_all add: sram_ok_def, simp add: ex_sa_def sa_core.extend_def sa.fields_def ex_core_def)

text \<open>
  A read burst into the SRAM is announced with its length and served by one event per beat;
  when all beats are served, exactly one response packet has been queued, with the burst's
  transaction identifier, addressed to the caller, and one beat per request, in order, holding
  the loaded values.
\<close>

lemma sa_sram_read_burst:
  assumes "payloadList pkt = ps" "ps \<noteq> []" "burstSize pkt = int (length ps)" "TransactionID pkt = Some t"
    and "\<forall>p \<in> set ps. rq_tid p = t" "to_sram (rq_addr (hd ps))" "sa_pending s t = None"
    and "\<forall>p \<in> set ps. \<exists>v. sram_read (sram s) (rq_op p) (rq_addr p) = Some v"
  shows "\<exists>s1 s2 rs. sa_accept cfg now rq_addr SaSRAMRead SaReadMMIO pkt s = Inr s1
    \<and> sa_events s1 = sa_events s @ map (\<lambda>i. (now + i + memory_read_latency cfg, SaSRAMRead (ps ! i))) [0..<length ps]
    \<and> foldE (SRAMReadReqHandler cfg) s1 ps = Inr s2
    \<and> sa_resp_Q s2 = sa_resp_Q s @ [ReadResp (setTID t (Construct_MemReadRespPkt rs ''sa'' (rq_caller (last ps))))]
    \<and> list_all2 (\<lambda>p r. sram_read (sram s) (rq_op p) (rq_addr p) = Some (rr_data r)) ps rs"
proof -
  let ?s1 = "sa_schedule (map (\<lambda>i. (now + i + memory_read_latency cfg, SaSRAMRead (ps ! i))) [0..<length ps])
    (s\<lparr>sa_pending := expect_beats (sa_pending s) t (int (length ps))\<rparr>)"
  have acc: "sa_accept cfg now rq_addr SaSRAMRead SaReadMMIO pkt s = Inr ?s1"
    using assms(1-4,6) by (cases ps) (simp_all add: sa_accept_def Let_def getTID_def)
  obtain s2 rs where serve: "sar.serve cfg ?s1 ps = Inr (s2, rs)" "foldE (SRAMReadReqHandler cfg) ?s1 ps = Inr s2"
    "list_all2 (\<lambda>p r. sram_read (sram s) (rq_op p) (rq_addr p) = Some (rr_data r)) ps rs"
    using sar_serve_fold [of ps ?s1 cfg] assms(8) by (auto simp: sa_schedule_def)
  have "sa_resp_Q s2 = sa_resp_Q ?s1 @ [sa_read_packet (last ps) rs]"
    using sar.serve_burst(1) [OF serve(1) assms(5,2)] assms(7)
    by (simp add: sa_schedule_def tracker_at_def empty_tracker_def expect_beats_def)
  with acc serve(2,3) show ?thesis
    using assms(2,5) by (intro exI [of _ ?s1] exI [of _ s2] exI [of _ rs]) (simp add: sa_schedule_def sa_read_packet_def)
qed

text \<open>
  C30: when the DMA controller reports the end of the second transfer, the array reads both square
  matrices of bytes from its SRAM (rows padded to words) and multiplies them: running the
  scheduled tile events ends with \<open>done\<close> set and C the matrix product modulo \<open>2 ^ 16\<close>.
\<close>

theorem sa_multiplies_sram:
  assumes "core_ok s" "sram_ok (sram s)" "tile_events s = []" "tileQ s = []" "phase s = READ_MAT_B"
    and "C_matrix s = replicate 64 (replicate 64 0)"
    and "unat (strideA s) = n" "unat (strideB s) = n" "n \<le> 64" "unat (strideC s) \<le> 64"
    and "unat (A_addr s) div 4 + n * ((n + 3) div 4) \<le> SA_SRAM_SIZE"
    and "unat (B_addr s) div 4 + n * ((n + 3) div 4) \<le> SA_SRAM_SIZE"
    and "src_idx pkt = 1" "payloadList pkt = [p]" "o_imm (rr_a1 p) = poll_tag" "rr_data p = 1"
  shows "\<exists>s1 s2. sa_handleReadResponse cfg now ctr pkt s = Inr (s1, ctr)
    \<and> run_events junk (8 * length (tiles n n)) s1 = Inr s2 \<and> sa_done s2 \<and> tile_events s2 = []
    \<and> (\<forall>a<n. \<forall>b<n. C_matrix s2 ! a ! b =
          (\<Sum>k = 0..<n. ucast (sram_entry (sram s) (A_addr s) n a k) * ucast (sram_entry (sram s) (B_addr s) n k b)))"
proof -
  have mats: "is_mat 64 64 (A_matrix s)" "is_mat 64 64 (B_matrix s)" using assms(1) by (simp_all add: core_ok_def)
  obtain A where A: "load_matrix ''A_matrix'' (sram s) (A_addr s) (strideA s) (A_matrix s) = Inr A" "is_mat 64 64 A"
    "\<forall>a<64. \<forall>b<64. A ! a ! b = (if a < n \<and> b < n then sram_entry (sram s) (A_addr s) n a b else A_matrix s ! a ! b)"
    using load_matrix_spec [OF mats(1) assms(2,7,9,11)] by blast
  obtain B where B: "load_matrix ''B_matrix'' (sram s) (B_addr s) (strideB s) (B_matrix s) = Inr B" "is_mat 64 64 B"
    "\<forall>a<64. \<forall>b<64. B ! a ! b = (if a < n \<and> b < n then sram_entry (sram s) (B_addr s) n a b else B_matrix s ! a ! b)"
    using load_matrix_spec [OF mats(2) assms(2,8,9,12)] by blast
  let ?s = "s\<lparr>A_matrix := A, B_matrix := B, phase := COMPUTE\<rparr>"
  have "core_ok ?s" using assms(1) A(2) B(2) by (simp add: core_ok_def)
  then obtain s2 where run: "bindE (ComputeMatrix now ?s) (run_events junk (8 * length (tiles n n))) = Inr s2"
    "sa_done s2" "tile_events s2 = []"
    "\<forall>a<n. \<forall>b<n. C_matrix s2 ! a ! b = C_matrix s ! a ! b + (\<Sum>k = 0..<n. ucast (A ! a ! k) * ucast (B ! k ! b))"
    using matrix_product_run [of ?s now junk] assms(3,4,7-10) by auto
  then obtain s1 where "ComputeMatrix now ?s = Inr s1" "run_events junk (8 * length (tiles n n)) s1 = Inr s2"
    by (auto simp: result_simps)
  moreover have "sa_handleReadResponse cfg now ctr pkt s = bindE (ComputeMatrix now ?s) (\<lambda>s2. Inr (s2, ctr))"
    using assms(5,13-16) A(1) B(1) by (simp add: sa_handleReadResponse_def sa_load_matrices_def)
  moreover have "C_matrix s2 ! a ! b =
      (\<Sum>k = 0..<n. ucast (sram_entry (sram s) (A_addr s) n a k) * ucast (sram_entry (sram s) (B_addr s) n k b))"
    if "a < n" "b < n" for a b
    using run(4) that A(3) B(3) assms(6,9) by simp
  ultimately show ?thesis using run(2,3) by auto
qed

theorem sa_multiplies_sram_witness:
  "\<exists>s1 s2. sa_handleReadResponse default_config 5 0 \<lparr>src_idx = 1, dst_idx = 2, burstLength = 0, burstSize = 1,
        TransactionID = None, payloadList = [\<lparr>rr_tid = 0, rr_instr = blank_instr, rr_op = LW, rr_data = 1,
          rr_a1 = blank_operand\<lparr>o_imm := poll_tag\<rparr>\<rparr>]\<rparr> ex_sa = Inr (s1, 0)
    \<and> run_events (\<lambda>_ _. \<lparr>v8_valid = True, v8_data = 7\<rparr>) (8 * length (tiles 2 2)) s1 = Inr s2 \<and> sa_done s2
    \<and> C_matrix s2 ! 1 ! 0 = 4 * 8 + 5 * 12"
proof -
  let ?pkt = "\<lparr>src_idx = 1, dst_idx = 2, burstLength = 0, burstSize = 1,
        TransactionID = None, payloadList = [\<lparr>rr_tid = 0, rr_instr = blank_instr, rr_op = LW, rr_data = 1,
          rr_a1 = blank_operand\<lparr>o_imm := poll_tag\<rparr>\<rparr>]\<rparr> :: read_resp_payload xbar_packet"
  from sa_multiplies_sram [of ex_sa 2 ?pkt "\<lparr>rr_tid = 0, rr_instr = blank_instr, rr_op = LW, rr_data = 1,
      rr_a1 = blank_operand\<lparr>o_imm := poll_tag\<rparr>\<rparr>" default_config 5 0 "\<lambda>_ _. \<lparr>v8_valid = True, v8_data = 7\<rparr>"] obtain s1 s2 where
    "sa_handleReadResponse default_config 5 0 ?pkt ex_sa = Inr (s1, 0)"
    "run_events (\<lambda>_ _. \<lparr>v8_valid = True, v8_data = 7\<rparr>) (8 * length (tiles 2 2)) s1 = Inr s2" "sa_done s2"
    and C: "\<forall>a<2. \<forall>b<2. C_matrix s2 ! a ! b = (\<Sum>k = 0..<2. ucast (sram_entry (sram ex_sa) (A_addr ex_sa) 2 a k)
      * ucast (sram_entry (sram ex_sa) (B_addr ex_sa) 2 k b))"
    by (auto simp: SA_SRAM_SIZE_def)
  moreover have "C_matrix s2 ! 1 ! 0 = 4 * 8 + 5 * 12"
  proof -
    have "(map of_nat [0..<sram_bytes] :: u8 list) ! k = of_nat k" if "k < 100" for k
    proof -
      have "k < sram_bytes" using that by (simp add: sram_bytes_def SA_SRAM_SIZE_def)
      then show ?thesis by (rule nth_map_upt_0)
    qed
    note byte = this
    have e: "sram_entry (map of_nat [0..<sram_bytes]) 0 2 1 0 = 4" "sram_entry (map of_nat [0..<sram_bytes]) 0 2 1 1 = 5"
      "sram_entry (map of_nat [0..<sram_bytes]) 8 2 0 0 = 8" "sram_entry (map of_nat [0..<sram_bytes]) 8 2 1 0 = 12"
      unfolding sram_entry_def by (subst byte; simp)+
    have "C_matrix s2 ! 1 ! 0 = (\<Sum>k = 0..<2. ucast (sram_entry (sram ex_sa) (A_addr ex_sa) 2 1 k)
      * ucast (sram_entry (sram ex_sa) (B_addr ex_sa) 2 k 0))" using C by simp
    also have "\<dots> = 4 * 8 + 5 * 12"
    proof -
      have two: "{0..<2} = {0, 1::nat}" by auto
      show ?thesis unfolding ex_sa_simps two by (simp add: e del: One_nat_def)
    qed
    finally show ?thesis .
  qed
  ultimately show ?thesis by blast
qed

section \<open>Configuration registers\<close>

definition sa_cfg_regs :: "u32 set" where
  "sa_cfg_regs = {0x12014, 0x12018, 0x1201C, 0x12020}"

text \<open>The stride register keeps the low 24 bits, the address registers keep all.\<close>

definition sa_reg_view :: "u32 \<Rightarrow> u32 \<Rightarrow> u32" where
  "sa_reg_view a v = (if a = 0x12020 then v AND 0xFFFFFF else v)"

definition sa_store :: "u32 \<Rightarrow> u32 \<Rightarrow> write_req_payload" where
  "sa_store a v = \<lparr>wq_caller = ''cpu'', wq_tid = 0, wq_instr = blank_instr, wq_op = SW, wq_addr = a, wq_data = v\<rparr>"

definition sa_set_reg :: "u32 \<Rightarrow> u32 \<Rightarrow> 'r sa \<Rightarrow> 'r sa" where
  "sa_set_reg a v s =
     (if a = 0x12014 then s\<lparr>A_addr := v\<rparr> else if a = 0x12018 then s\<lparr>B_addr := v\<rparr>
      else if a = 0x1201C then s\<lparr>C_addr := v\<rparr>
      else s\<lparr>strideA := v AND 0xFF, strideB := drop_bit 8 v AND 0xFF, strideC := drop_bit 16 v AND 0xFF\<rparr>)"

lemma stride_fields: "(v AND 0xFF) OR push_bit 8 (drop_bit 8 v AND 0xFF) OR push_bit 16 (drop_bit 16 v AND 0xFF)
    = v AND (0xFFFFFF :: u32)"
proof -
  have m: "(0xFF :: u32) = mask 8" "(0xFFFFFF :: u32) = mask 24" by (simp_all add: mask_eq_exp_minus_1)
  show ?thesis unfolding m
  proof (rule bit_word_eqI)
    fix n
    assume "n < LENGTH(32)"
    then consider "n < 8" | "8 \<le> n" "n < 16" | "16 \<le> n" "n < 24" | "24 \<le> n" "n < 32" by fastforce
    then show "bit ((v AND mask 8) OR push_bit 8 (drop_bit 8 v AND mask 8) OR push_bit 16 (drop_bit 16 v AND mask 8)) n
        = bit (v AND mask 24) n"
      by cases (auto simp: bit_simps)
  qed
qed

lemma sa_store_effect:
  assumes "a \<in> sa_cfg_regs"
  shows "\<exists>q. sa_writeMMIO cfg now ctr (sa_store a v) s = Inr ((sa_set_reg a v s)\<lparr>sa_resp_Q := q\<rparr>, ctr)"
proof -
  have "sa_reg_write cfg now ctr (a AND 0x3F) v s = Inr (sa_set_reg a v s, ctr)"
    using assms unfolding sa_cfg_regs_def
    by (elim insertE emptyE; hypsubst; simp add: sa_reg_write_def sa_set_reg_def)
  then show ?thesis by (auto simp: sa_writeMMIO_def sa_store_def)
qed

lemma sa_set_reg_read:
  "a \<in> sa_cfg_regs \<Longrightarrow> sa_reg_read ((sa_set_reg a v s)\<lparr>sa_resp_Q := q\<rparr>) (a AND 0x3F) = Some (sa_reg_view a v)"
  "a \<in> sa_cfg_regs \<Longrightarrow> b \<in> sa_cfg_regs \<Longrightarrow> b \<noteq> a \<Longrightarrow>
   sa_reg_read ((sa_set_reg a v s)\<lparr>sa_resp_Q := q\<rparr>) (b AND 0x3F) = sa_reg_read s (b AND 0x3F)"
  unfolding sa_cfg_regs_def
  by ((elim insertE emptyE; hypsubst; simp add: sa_set_reg_def sa_reg_read_def sa_reg_view_def stride_fields [simplified])+)

interpretation sa_regs: mmio "\<lambda>s a. sa_reg_read s (a AND 0x3F)"
  "\<lambda>s a v. bindE (sa_writeMMIO cfg now ctr (sa_store a v) s) (\<lambda>(s', ctr'). Inr s')" sa_cfg_regs sa_reg_view
  for cfg now ctr
proof unfold_locales
  fix a b v :: u32 and s s' :: "'a sa"
  assume a: "a \<in> sa_cfg_regs"
  then obtain q where eff: "sa_writeMMIO cfg now ctr (sa_store a v) s = Inr ((sa_set_reg a v s)\<lparr>sa_resp_Q := q\<rparr>, ctr)"
    using sa_store_effect by blast
  let ?wr = "bindE (sa_writeMMIO cfg now ctr (sa_store a v) s) (\<lambda>(s', ctr'). Inr s')"
  show "\<exists>s'. ?wr = Inr s'" using eff by simp
  show "sa_reg_read s' (a AND 0x3F) = Some (sa_reg_view a v)" if "?wr = Inr s'"
    using that eff sa_set_reg_read(1) [OF a] by auto
  show "sa_reg_read s' (b AND 0x3F) = sa_reg_read s (b AND 0x3F)"
    if "b \<in> sa_cfg_regs" "b \<noteq> a" "?wr = Inr s'"
    using that eff sa_set_reg_read(2) [OF a] by auto
qed

text \<open>
  C31: a driver that stores to the address and stride registers of the array, in any order, is
  always served; afterwards a read over the bus returns the last value stored, cut to 24 bits
  for the stride register.
\<close>

theorem sa_driver_readback:
  assumes "fst ` set avs \<subseteq> sa_cfg_regs" "map_of (rev avs) b = Some v" "rq_addr q = b"
  shows "\<exists>s' p. foldl (\<lambda>r (a, v). bindE r (\<lambda>s. bindE (sa_writeMMIO cfg now ctr (sa_store a v) s)
        (\<lambda>(s', ctr'). Inr s'))) (Inr s) avs = Inr s'
    \<and> sa_readMMIO cfg q s' = Inr (s'\<lparr>sa_resp_Q := sa_resp_Q s' @ [ReadResp p]\<rparr>)
    \<and> map rr_data (payloadList p) = [if b = 0x12020 then v AND 0xFFFFFF else v]"
proof -
  from sa_regs.driver_readback [OF assms(1,2), of cfg now ctr s] obtain s' where
    s': "foldl (\<lambda>r (a, v). bindE r (\<lambda>s. bindE (sa_writeMMIO cfg now ctr (sa_store a v) s)
        (\<lambda>(s', ctr'). Inr s'))) (Inr s) avs = Inr s'" "sa_reg_read s' (b AND 0x3F) = Some (sa_reg_view b v)"
    by blast
  then show ?thesis
    using assms(3)
    by (intro exI [of _ s'] exI [of _ "Construct_MemReadRespPkt [\<lparr>rr_tid = rq_tid q, rr_instr = rq_instr q,
          rr_op = rq_op q, rr_data = sa_reg_view b v, rr_a1 = rq_a1 q\<rparr>] ''sa'' (rq_caller q)"])
      (simp add: sa_readMMIO_def, simp add: packet_defs sa_reg_view_def)
qed

theorem sa_driver_readback_witness:
  "\<exists>s' p. foldl (\<lambda>r (a, v). bindE r (\<lambda>s. bindE (sa_writeMMIO default_config 3 0 (sa_store a v) s)
        (\<lambda>(s', ctr'). Inr s'))) (Inr ex_sa) [(0x12020, 7), (0x12014, 9), (0x12020, 0xAB010203)] = Inr s'
    \<and> sa_readMMIO default_config \<lparr>rq_caller = ''cpu'', rq_tid = 3, rq_instr = blank_instr, rq_op = LW,
        rq_addr = 0x12020, rq_a1 = blank_operand\<rparr> s' = Inr (s'\<lparr>sa_resp_Q := sa_resp_Q s' @ [ReadResp p]\<rparr>)
    \<and> map rr_data (payloadList p) = [if (0x12020 :: u32) = 0x12020 then 0xAB010203 AND 0xFFFFFF else 0xAB010203]"
  by (rule sa_driver_readback) (simp_all add: sa_cfg_regs_def)

section \<open>Starting a multiplication\<close>

text \<open>What a queued packet stores: destination port, address and data of each beat.\<close>

fun stores_of :: "sim_packet \<Rightarrow> (nat \<times> u32 \<times> u32) list" where
  "stores_of (WriteReq p) = map (\<lambda>w. (dst_idx p, wq_addr w, wq_data w)) (payloadList p)"
| "stores_of _ = []"

text \<open>The size register the array writes: two equal strides, width minus one, height minus one.\<close>

definition dma_size_cfg :: "u32 \<Rightarrow> u32 \<Rightarrow> u32 \<Rightarrow> u32" where
  "dma_size_cfg stride w h = push_bit 24 (stride AND 0xFF) OR push_bit 16 (stride AND 0xFF)
     OR push_bit 8 ((w - 1) AND 0xFF) OR ((h - 1) AND 0xFF)"

lemma byte_mask_ucast: "ucast (ucast (x AND 0xFF) :: u8) = x AND (0xFF :: u32)"
proof -
  have m: "(0xFF :: u32) = mask 8" by (simp add: mask_eq_exp_minus_1)
  show ?thesis unfolding m by (rule bit_eqI) (auto simp: bit_simps)
qed

lemma sa_dma_program_queue:
  "sa_dma_program src dst c (s, ctr) = (s', ctr') \<Longrightarrow>
   ctr' = ctr + 4 \<and> (\<exists>ps. s' = s\<lparr>sa_req_Q := sa_req_Q s @ ps\<rparr>
     \<and> map stores_of ps = [[(1, 0xF004, src)], [(1, 0xF008, dst)], [(1, 0xF00C, c)], [(1, 0xF000, 1)]])"
  by (auto simp: sa_dma_program_def sa_queue_write_def packet_defs slaveIndex_def DMA_MMIO_BASE_def DMA_MMIO_END_def)

text \<open>
  Setting the enable bit of the array, with word-aligned addresses and matrices of at most
  2048 entries, clears the three matrices, enters \<open>READ_MAT_A\<close>, queues the four stores that
  program the DMA controller to copy matrix A from data memory into the SRAM (source,
  destination, size, enable, in this order) and schedules the poll of its \<open>DONE\<close> register.
\<close>

lemma sa_enable_programs_dma:
  assumes "bit data 0" "A_addr s mod 4 = 0" "B_addr s mod 4 = 0" "C_addr s mod 4 = 0"
    and "sint (sa_M s * sa_K s) \<le> 2048" "sint (sa_K s * sa_N s) \<le> 2048"
  shows "\<exists>s' ps. sa_reg_write cfg now ctr 0 data s = Inr (s', ctr + 4) \<and> sa_req_Q s' = sa_req_Q s @ ps
    \<and> map stores_of ps = [[(1, 0xF004, A_addr_dm s)], [(1, 0xF008, A_addr s + 0x20000)],
        [(1, 0xF00C, dma_size_cfg (strideA s) (sa_K s) (sa_M s))], [(1, 0xF000, 1)]]
    \<and> sa_events s' = sa_events s @ [(now + memory_read_latency cfg, SaPoll)]
    \<and> phase s' = READ_MAT_A \<and> sa_enabled s' \<and> \<not> sa_done s' \<and> sram s' = sram s
    \<and> C_matrix s' = replicate 64 (replicate 64 0)"
proof -
  let ?s = "s\<lparr>sa_done := False, sa_enabled := True, expected_MatA_size := sint (sa_M s * sa_K s),
    expected_MatB_size := sint (sa_K s * sa_N s), phase := READ_MAT_A, read_MatA_size := 0, read_MatB_size := 0,
    A_matrix := replicate 64 (replicate 64 0), B_matrix := replicate 64 (replicate 64 0), C_matrix := replicate 64 (replicate 64 0)\<rparr>"
  have "data AND 1 \<noteq> 0" using assms(1) by (simp add: and_one_eq odd_iff_mod_2_eq_one bit_0)
  then have start: "sa_reg_write cfg now ctr 0 data s = Inr (AskDMAtoWrite_matA cfg now ctr ?s)"
    using assms(2-) by (simp add: sa_reg_write_def sa_initialized_transaction_def)
  obtain s1 c1 where prog: "sa_dma_program (A_addr_dm s) (A_addr s + SA_MEMORY_BASE)
      (dma_size_cfg (strideA s) (sa_K s) (sa_M s)) (?s, ctr) = (s1, c1)" by fastforce
  have "AskDMAtoWrite_matA cfg now ctr ?s = (PokeDMAReady cfg now s1, c1)"
    using prog by (simp add: AskDMAtoWrite_matA_def dma_size_cfg_def byte_mask_ucast Let_def)
  then show ?thesis
    using start sa_dma_program_queue [OF prog] by (auto simp: PokeDMAReady_def sa_schedule_def SA_MEMORY_BASE_def)
qed

end
