(* ===== verification/CString.thy ===== *)
theory CString
  imports Prelude
begin

text \<open>
  What the assembler uses of the C library, on strings without the terminating zero: \<open>strtok\<close>
  with its saved position as an argument, \<open>strtol\<close> with base 0 or 10 on a 64-bit \<open>long\<close>, \<open>atoi\<close>,
  \<open>tolower\<close>, \<open>fgets\<close>, and the \<open>sprintf\<close> formats \<open>%02d\<close> and \<open>%08x\<close>.
\<close>

section \<open>Tokens\<close>

text \<open>The token (\<open>None\<close> for \<open>NULL\<close>) and the position after the delimiter that ends it.\<close>

definition strtok :: "string \<Rightarrow> string \<Rightarrow> string option \<times> string" where
  "strtok delims s =
     (let t = dropWhile (\<lambda>c. c \<in> set delims) s
      in if t = [] then (None, [])
         else (Some (takeWhile (\<lambda>c. c \<notin> set delims) t), tl (dropWhile (\<lambda>c. c \<notin> set delims) t)))"

lemma strtok_some:
  assumes "strtok d s = (Some t, r)"
  obtains u where "u = dropWhile (\<lambda>c. c \<in> set d) s" "u \<noteq> []" "t = takeWhile (\<lambda>c. c \<notin> set d) u"
    "r = tl (dropWhile (\<lambda>c. c \<notin> set d) u)"
  using assms unfolding strtok_def Let_def by (metis Pair_inject option.distinct(1) option.inject)

lemma strtok_shorter: "strtok d s = (Some t, r) \<Longrightarrow> length r < length s"
proof -
  assume "strtok d s = (Some t, r)"
  then obtain u where u: "u = dropWhile (\<lambda>c. c \<in> set d) s" "u \<noteq> []" "r = tl (dropWhile (\<lambda>c. c \<notin> set d) u)"
    by (rule strtok_some)
  have "length u \<le> length s" unfolding u(1) by (rule length_dropWhile_le)
  moreover have "length (dropWhile (\<lambda>c. c \<notin> set d) u) \<le> length u" by (rule length_dropWhile_le)
  moreover have "0 < length u" using u(2) by (cases u) simp_all
  ultimately show ?thesis unfolding u(3) length_tl by linarith
qed

lemma strtok_token:
  assumes "strtok d s = (Some t, r)"
  shows "t \<noteq> []" "set t \<inter> set d = {}"
proof -
  from assms obtain u where u: "u = dropWhile (\<lambda>c. c \<in> set d) s" "u \<noteq> []" "t = takeWhile (\<lambda>c. c \<notin> set d) u"
    by (rule strtok_some)
  have "hd u \<notin> set d" using hd_dropWhile [of "\<lambda>c. c \<in> set d" s] u(1,2) by blast
  then show "t \<noteq> []" using u(2,3) by (cases u) simp_all
  show "set t \<inter> set d = {}" unfolding u(3) by (auto dest: set_takeWhileD)
qed

text \<open>A token followed by a delimiter, or by the end.\<close>

lemma strtok_word:
  assumes "t \<noteq> []" "set t \<inter> set d = {}" "c \<in> set d"
  shows "strtok d (t @ c # r) = (Some t, r)" "strtok d t = (Some t, [])"
proof -
  have drop: "dropWhile (\<lambda>c. c \<in> set d) (t @ u) = t @ u" for u
    using assms(1,2) by (cases t) auto
  have all: "\<forall>x \<in> set t. x \<notin> set d" using assms(2) by auto
  have take: "takeWhile (\<lambda>c. c \<notin> set d) (t @ c # r) = t" "dropWhile (\<lambda>c. c \<notin> set d) (t @ c # r) = c # r"
    "takeWhile (\<lambda>c. c \<notin> set d) t = t" "dropWhile (\<lambda>c. c \<notin> set d) t = []"
    using all assms(3) by (simp_all add: takeWhile_tail dropWhile_append2)
  show "strtok d (t @ c # r) = (Some t, r)" using drop take assms(1) by (simp add: strtok_def)
  show "strtok d t = (Some t, [])"
    unfolding strtok_def Let_def using drop [of "[]"] take(3,4) assms(1) by (simp del: dropWhile_eq_Nil_conv takeWhile_eq_all_conv)
qed

section \<open>Numbers\<close>

definition digit_value :: "char \<Rightarrow> nat option" where
  "digit_value c =
     (let n = of_char c :: nat
      in if 48 \<le> n \<and> n \<le> 57 then Some (n - 48)
         else if 97 \<le> n \<and> n \<le> 122 then Some (n - 87)
         else if 65 \<le> n \<and> n \<le> 90 then Some (n - 55)
         else None)"

definition is_digit_of :: "nat \<Rightarrow> char \<Rightarrow> bool" where
  "is_digit_of base c = (case digit_value c of None \<Rightarrow> False | Some v \<Rightarrow> v < base)"

fun digits_value :: "nat \<Rightarrow> nat \<Rightarrow> string \<Rightarrow> nat" where
  "digits_value base acc [] = acc"
| "digits_value base acc (c # cs) =
     (if is_digit_of base c then digits_value base (acc * base + the (digit_value c)) cs else acc)"

definition is_space :: "char \<Rightarrow> bool" where
  "is_space c \<longleftrightarrow> (of_char c :: nat) \<in> {9, 10, 11, 12, 13, 32}"

text \<open>The optional sign.\<close>

definition split_sign :: "string \<Rightarrow> bool \<times> string" where
  "split_sign s = (case s of [] \<Rightarrow> (False, [])
     | c # cs \<Rightarrow> if c = CHR ''-'' then (True, cs) else if c = CHR ''+'' then (False, cs) else (False, s))"

text \<open>The base a prefix selects and the digits after it; \<open>0x\<close> counts only before a hexadecimal digit.\<close>

definition split_base :: "string \<Rightarrow> nat \<times> string" where
  "split_base s =
     (case s of
        c # d # e # r \<Rightarrow>
          if c = CHR ''0'' \<and> (d = CHR ''x'' \<or> d = CHR ''X'') \<and> is_digit_of 16 e then (16, e # r)
          else if c = CHR ''0'' then (8, s) else (10, s)
      | c # r \<Rightarrow> if c = CHR ''0'' then (8, s) else (10, s)
      | [] \<Rightarrow> (10, s))"

text \<open>\<open>strtol\<close> clamps to the range of \<open>long\<close>; the flag is \<open>errno == ERANGE\<close>.\<close>

definition LONG_MAX :: int where "LONG_MAX = 2 ^ 63 - 1"
definition LONG_MIN :: int where "LONG_MIN = - (2 ^ 63)"

definition clamp_long :: "int \<Rightarrow> int \<times> bool" where
  "clamp_long v = (if v > LONG_MAX then (LONG_MAX, True) else if v < LONG_MIN then (LONG_MIN, True) else (v, False))"

definition strtol_auto :: "string \<Rightarrow> int \<times> bool" where
  "strtol_auto s =
     (let (neg, t) = split_sign (dropWhile is_space s);
          (base, u) = split_base t;
          v = int (digits_value base 0 u)
      in clamp_long (if neg then - v else v))"

definition strtol_dec :: "string \<Rightarrow> int \<times> bool" where
  "strtol_dec s =
     (let (neg, t) = split_sign (dropWhile is_space s);
          v = int (digits_value 10 0 t)
      in clamp_long (if neg then - v else v))"

text \<open>\<open>atoi\<close> converts the \<open>long\<close> to \<open>int\<close>.\<close>

definition atoi :: "string \<Rightarrow> int" where
  "atoi s = sint (word_of_int (fst (strtol_dec s)) :: u32)"

section \<open>Formatting\<close>

definition digit_char :: "nat \<Rightarrow> char" where
  "digit_char n = char_of (if n < 10 then n + 48 else n + 87)"

fun nat_digits :: "nat \<Rightarrow> nat \<Rightarrow> string" where
  "nat_digits base n =
     (if n < base \<or> base \<le> 1 then [digit_char n] else nat_digits base (n div base) @ [digit_char (n mod base)])"

declare nat_digits.simps [simp del]

definition pad_zero :: "nat \<Rightarrow> string \<Rightarrow> string" where
  "pad_zero w s = replicate (w - length s) (CHR ''0'') @ s"

text \<open>\<open>x%02d\<close> and \<open>0x%08x\<close>.\<close>

definition fmt_reg :: "int \<Rightarrow> string" where
  "fmt_reg r = CHR ''x'' # (if r < 0 then CHR ''-'' # pad_zero 1 (nat_digits 10 (nat (- r))) else pad_zero 2 (nat_digits 10 (nat r)))"

definition fmt_hex :: "u32 \<Rightarrow> string" where
  "fmt_hex v = ''0x'' @ pad_zero 8 (nat_digits 16 (unat v))"

definition tolower_char :: "char \<Rightarrow> char" where
  "tolower_char c = (let n = of_char c :: nat in if 65 \<le> n \<and> n \<le> 90 then char_of (n + 32) else c)"

section \<open>Reading lines\<close>

text \<open>One call of \<open>fgets\<close> with a buffer of \<open>Suc n\<close> bytes: what it stores and the rest of the file.\<close>

fun fgets :: "nat \<Rightarrow> string \<Rightarrow> string \<times> string" where
  "fgets 0 cs = ([], cs)"
| "fgets (Suc n) [] = ([], [])"
| "fgets (Suc n) (c # cs) =
     (if c = CHR 0x0A then ([c], cs) else (case fgets n cs of (l, r) \<Rightarrow> (c # l, r)))"

lemma fgets_append: "fgets n cs = (l, r) \<Longrightarrow> l @ r = cs"
  by (induction n cs arbitrary: l r rule: fgets.induct) (auto split: if_splits prod.splits)

lemma fgets_progress: "0 < n \<Longrightarrow> cs \<noteq> [] \<Longrightarrow> fgets n cs = (l, r) \<Longrightarrow> length r < length cs"
proof -
  assume a: "0 < n" "cs \<noteq> []" "fgets n cs = (l, r)"
  then have "l \<noteq> []" by (cases n; cases cs) (auto split: if_splits prod.splits)
  with fgets_append [OF a(3)] show ?thesis by auto
qed

text \<open>The C string in the buffer ends at the first zero byte.\<close>

function read_lines :: "nat \<Rightarrow> string \<Rightarrow> string list" where
  "read_lines n cs =
     (if cs = [] \<or> n = 0 then []
      else (case fgets n cs of (l, r) \<Rightarrow> takeWhile (\<lambda>c. c \<noteq> CHR 0x00) l # read_lines n r))"
  by pat_completeness auto
termination
  by (relation "measure (length \<circ> snd)") (auto dest: fgets_progress [OF _ _ sym])

declare read_lines.simps [simp del]

lemma fgets_short: "CHR 0x0A \<notin> set cs \<Longrightarrow> length cs \<le> n \<Longrightarrow> fgets n cs = (cs, [])"
  by (induction n cs rule: fgets.induct) auto

lemma read_lines_one:
  assumes "cs \<noteq> []" "CHR 0x0A \<notin> set cs" "CHR 0x00 \<notin> set cs" "length cs \<le> n"
  shows "read_lines n cs = [cs]"
proof -
  have "takeWhile (\<lambda>c. c \<noteq> CHR 0x00) cs = cs" unfolding takeWhile_eq_all_conv using assms(3) by blast
  moreover have "read_lines n [] = []" by (subst read_lines.simps) simp
  ultimately show ?thesis using assms(1,4) fgets_short [OF assms(2,4)] by (subst read_lines.simps) (cases cs; simp)
qed

section \<open>Reading back a printed number\<close>

lemma digit_value_char: "d < 36 \<Longrightarrow> digit_value (digit_char d) = Some d"
  by (simp add: digit_value_def digit_char_def Let_def of_char_of)

lemma is_digit_of_char: "d < base \<Longrightarrow> base \<le> 36 \<Longrightarrow> is_digit_of base (digit_char d)"
  by (simp add: is_digit_of_def digit_value_char)

lemma digits_value_append:
  "\<forall>c \<in> set s. is_digit_of base c \<Longrightarrow> digits_value base acc (s @ t) = digits_value base (digits_value base acc s) t"
  by (induction s arbitrary: acc) simp_all

lemma nat_digits_are_digits: "2 \<le> base \<Longrightarrow> base \<le> 36 \<Longrightarrow> \<forall>c \<in> set (nat_digits base n). is_digit_of base c"
proof (induction base n rule: nat_digits.induct)
  case (1 base n)
  then show ?case by (subst nat_digits.simps) (auto simp: is_digit_of_char)
qed

lemma digits_value_nat_digits: "2 \<le> base \<Longrightarrow> base \<le> 36 \<Longrightarrow> digits_value base 0 (nat_digits base n) = n"
proof (induction base n rule: nat_digits.induct)
  case (1 base n)
  show ?case
  proof (cases "n < base")
    case True
    then show ?thesis using 1(3) by (subst nat_digits.simps) (simp add: is_digit_of_char digit_value_char)
  next
    case False
    have "n mod base < base" using 1(2) by simp
    moreover from this have "digit_value (digit_char (n mod base)) = Some (n mod base)"
      using 1(3) by (intro digit_value_char) simp
    ultimately show ?thesis
      using False 1 nat_digits_are_digits [OF 1(2,3)]
      by (subst nat_digits.simps) (simp add: digits_value_append is_digit_of_char)
  qed
qed

lemma is_digit_of_zero: "2 \<le> base \<Longrightarrow> is_digit_of base (CHR ''0'')"
  by (simp add: is_digit_of_def digit_value_def Let_def)

lemma digits_value_zeros: "2 \<le> base \<Longrightarrow> digits_value base 0 (replicate k (CHR ''0'') @ s) = digits_value base 0 s"
  by (induction k) (simp_all add: is_digit_of_def digit_value_def Let_def)

lemma length_nat_digits: "2 \<le> base \<Longrightarrow> n < base ^ k \<Longrightarrow> 0 < k \<Longrightarrow> length (nat_digits base n) \<le> k"
proof (induction k arbitrary: n)
  case (Suc k)
  show ?case
  proof (cases "n < base")
    case True
    then show ?thesis by (subst nat_digits.simps) simp
  next
    case False
    then have "0 < k" using Suc.prems by (cases k) simp_all
    moreover have "n div base < base ^ k"
      using Suc.prems(1,2) by (simp add: div_less_iff_less_mult mult.commute)
    ultimately show ?thesis using Suc.IH [of "n div base"] Suc.prems(1) False by (subst nat_digits.simps) simp
  qed
qed simp

lemma digit_not_sign: "is_digit_of base c \<Longrightarrow> \<not> is_space c \<and> c \<noteq> CHR ''-'' \<and> c \<noteq> CHR ''+''"
  by (auto simp: is_digit_of_def digit_value_def is_space_def Let_def split: if_splits option.splits)

lemma strtol_dec_digits:
  assumes "s \<noteq> []" "\<forall>c \<in> set s. is_digit_of 10 c"
  shows "strtol_dec s = clamp_long (int (digits_value 10 0 s))"
proof -
  obtain c cs where s: "s = c # cs" using assms(1) by (cases s) auto
  then have "dropWhile is_space s = s" "split_sign s = (False, s)"
    using digit_not_sign [of 10 c] assms(2) by (simp_all add: split_sign_def)
  then show ?thesis by (simp add: strtol_dec_def)
qed

text \<open>\<open>atoi\<close> reads back what \<open>%02d\<close> prints.\<close>

lemma atoi_padded:
  assumes "n < 2 ^ 31"
  shows "atoi (pad_zero 2 (nat_digits 10 n)) = int n"
proof -
  let ?s = "pad_zero 2 (nat_digits 10 n)"
  have "nat_digits 10 n \<noteq> []" by (subst nat_digits.simps) simp
  then have "?s \<noteq> []" by (simp add: pad_zero_def)
  moreover have "\<forall>c \<in> set ?s. is_digit_of 10 c"
    using nat_digits_are_digits [of 10 n] by (auto simp: pad_zero_def is_digit_of_zero)
  ultimately have "strtol_dec ?s = clamp_long (int (digits_value 10 0 ?s))" by (rule strtol_dec_digits)
  moreover have "digits_value 10 0 ?s = n"
    by (simp add: pad_zero_def digits_value_zeros digits_value_nat_digits)
  moreover have "clamp_long (int n) = (int n, False)"
    using assms by (simp add: clamp_long_def LONG_MAX_def LONG_MIN_def)
  ultimately show ?thesis using assms sint_word_of_int_id [of "int n", where 'a = 32] by (simp add: atoi_def)
qed

lemma fmt_lengths: "0 \<le> r \<Longrightarrow> r < 100 \<Longrightarrow> length (fmt_reg r) = 3" "length (fmt_hex v) = 10"
proof -
  show "length (fmt_hex v) = 10"
    using length_nat_digits [of 16 "unat v" 8] unat_u32_bound [of v] by (simp add: fmt_hex_def pad_zero_def)
  assume "0 \<le> r" "r < 100"
  then have "length (nat_digits 10 (nat r)) \<le> 2" by (intro length_nat_digits) auto
  then show "length (fmt_reg r) = 3" using \<open>0 \<le> r\<close> by (simp add: fmt_reg_def pad_zero_def)
qed

text \<open>The characters of a hexadecimal number, and reading it back with the prefix \<open>0x\<close>.\<close>

definition hex_char :: "char \<Rightarrow> bool" where
  "hex_char c \<longleftrightarrow> (let n = of_char c :: nat in 48 \<le> n \<and> n \<le> 57 \<or> 97 \<le> n \<and> n \<le> 102 \<or> n = 120)"

lemma hex_char_digit: "d < 16 \<Longrightarrow> hex_char (digit_char d)"
  by (auto simp: hex_char_def digit_char_def Let_def of_char_of)

lemma hex_char_nat_digits: "\<forall>c \<in> set (nat_digits base n). base = 16 \<longrightarrow> hex_char c"
proof (induction base n rule: nat_digits.induct)
  case (1 base n)
  then show ?case by (subst nat_digits.simps) (auto simp: hex_char_digit)
qed

lemma fmt_hex_chars: "c \<in> set (fmt_hex v) \<Longrightarrow> hex_char c"
proof -
  have "hex_char (CHR ''0'')" "hex_char (CHR ''x'')" by (simp_all add: hex_char_def)
  then show "c \<in> set (fmt_hex v) \<Longrightarrow> hex_char c"
    using hex_char_nat_digits [of 16 "unat v"] by (auto simp: fmt_hex_def pad_zero_def)
qed

lemma hex_char_plain: "hex_char c \<Longrightarrow> tolower_char c = c \<and> \<not> is_space c"
  by (auto simp: hex_char_def tolower_char_def is_space_def Let_def)

lemma strtol_auto_hex:
  assumes "s \<noteq> []" "\<forall>c \<in> set s. is_digit_of 16 c" "digits_value 16 0 s = unat (v :: u32)"
  shows "strtol_auto (''0x'' @ s) = (uint v, False)"
proof -
  obtain e r where s: "s = e # r" using assms(1) by (cases s) auto
  then have "split_base (''0x'' @ s) = (16, s)" using assms(2) by (simp add: split_base_def)
  moreover have "dropWhile is_space (''0x'' @ s) = ''0x'' @ s" "split_sign (''0x'' @ s) = (False, ''0x'' @ s)"
    by (simp_all add: is_space_def split_sign_def)
  moreover have "clamp_long (uint v) = (uint v, False)"
  proof -
    have "\<not> uint v < - (2 ^ 63)" using uint_ge_0 [of v] by (intro leD) (rule order_trans [of _ 0]; simp)
    then show ?thesis using uint_lt2p [of v] by (simp add: clamp_long_def LONG_MAX_def LONG_MIN_def)
  qed
  moreover have "int (unat v) = uint v" by simp
  ultimately show ?thesis using assms(3) by (simp add: strtol_auto_def)
qed

lemma strtol_auto_fmt_hex: "strtol_auto (fmt_hex v) = (uint v, False)"
proof -
  let ?s = "pad_zero 8 (nat_digits 16 (unat v))"
  have "nat_digits 16 (unat v) \<noteq> []" by (subst nat_digits.simps) simp
  then have "?s \<noteq> []" by (simp add: pad_zero_def)
  moreover have "\<forall>c \<in> set ?s. is_digit_of 16 c"
    using nat_digits_are_digits [of 16 "unat v"] by (auto simp: pad_zero_def is_digit_of_zero)
  moreover have "digits_value 16 0 ?s = unat v"
    by (simp add: pad_zero_def digits_value_zeros digits_value_nat_digits)
  ultimately show ?thesis unfolding fmt_hex_def by (rule strtol_auto_hex)
qed

end
