(* ===== verification/Emulator.thy ===== *)
theory Emulator
  imports CString CPU
begin

text \<open>
  The assembler of the simulator (\<open>soc/libs/Emulator.cc\<close>; the pipeline model has the same file
  without the SIMD mnemonics): it reads an assembly file into the instruction memory and the data
  memory and then replaces labels by addresses. The instruction memory, the memory image, the
  write offset, the label table and the buffer of source texts are one record. \<open>strtok\<close>'s saved
  position is passed explicitly. A null token that is dereferenced, a write outside an array and
  the \<open>exit\<close> calls are errors; \<open>print_syntax_error\<close> logs.
\<close>

section \<open>State\<close>

text \<open>\<open>malloc\<close> leaves the source buffer uninitialised: \<open>None\<close> cells.\<close>

record source =
  s_src :: "char option list"
  s_offset :: nat

record emulator =
  em_mem :: "u8 list"
  em_imem :: "instr list"
  em_memoff :: nat
  em_labels :: "label_loc list"
  em_src :: source

definition emulator_new :: "sim_config \<Rightarrow> u8 list \<Rightarrow> instr list \<Rightarrow> emulator" where
  "emulator_new cfg m im =
     \<lparr>em_mem = m, em_imem = im, em_memoff = 0, em_labels = [],
      em_src = \<lparr>s_src = replicate (max_src_len cfg) None, s_offset = 0\<rparr>\<rparr>"

definition print_syntax_error :: "sim_config \<Rightarrow> string \<Rightarrow> 'a result \<Rightarrow> 'a result" where
  "print_syntax_error cfg msg k = log_error cfg msg k"

text \<open>\<open>if (bad) print_syntax_error(...)\<close>, then go on.\<close>

definition format_check :: "sim_config \<Rightarrow> bool \<Rightarrow> 'a result \<Rightarrow> 'a result" where
  "format_check cfg bad k = (if bad then print_syntax_error cfg ''Invalid format'' k else k)"

text \<open>Using a token pointer.\<close>

definition tok_get :: "string option \<Rightarrow> (string \<Rightarrow> 'a result) \<Rightarrow> 'a result" where
  "tok_get t k = (case t of None \<Rightarrow> Inl (OutOfBounds ''null token'') | Some s \<Rightarrow> k s)"

definition streq :: "string \<Rightarrow> string \<Rightarrow> bool" where
  "streq s q \<longleftrightarrow> s = q"

section \<open>Source texts\<close>

definition source_line :: "string \<Rightarrow> string option \<Rightarrow> string option \<Rightarrow> string option \<Rightarrow> string option" where
  "source_line oper a1 a2 a3 =
     (case (a1, a2, a3) of
        (Some x, None, None) \<Rightarrow> Some (oper @ '' '' @ x)
      | (Some x, Some y, None) \<Rightarrow> Some (oper @ '' '' @ x @ '', '' @ y)
      | (Some x, Some y, Some z) \<Rightarrow> Some (oper @ '' '' @ x @ '', '' @ y @ '', '' @ z)
      | _ \<Rightarrow> None)"

text \<open>The text goes through a buffer of 128 bytes; it is copied without its terminating zero.\<close>

definition append_source ::
  "sim_config \<Rightarrow> string \<Rightarrow> string option \<Rightarrow> string option \<Rightarrow> string option \<Rightarrow> source \<Rightarrow> instr \<Rightarrow> (source \<times> instr) result" where
  "append_source cfg oper a1 a2 a3 s i =
     (case source_line oper a1 a2 a3 of
        None \<Rightarrow> Inr (s, i)
      | Some tbuf \<Rightarrow>
          if length tbuf \<ge> 128 then Inl (OutOfBounds ''tbuf'')
          else if length tbuf + s_offset s < max_src_len cfg
          then Inr (\<lparr>s_src = blit (s_src s) (s_offset s) (map Some tbuf), s_offset = s_offset s + length tbuf + 1\<rparr>,
                    i\<lparr>i_psrc := Some (s_offset s)\<rparr>)
          else Inr (s, i))"

section \<open>Operands\<close>

definition abi_names :: "(string \<times> int) list" where
  "abi_names = [(''zero'', 0), (''ra'', 1), (''sp'', 2), (''gp'', 3), (''tp'', 4), (''t0'', 5), (''t1'', 6), (''t2'', 7),
     (''s0'', 8), (''s1'', 9), (''a0'', 10), (''a1'', 11), (''a2'', 12), (''a3'', 13), (''a4'', 14), (''a5'', 15),
     (''a6'', 16), (''a7'', 17), (''s2'', 18), (''s3'', 19), (''s4'', 20), (''s5'', 21), (''s6'', 22), (''s7'', 23),
     (''s8'', 24), (''s9'', 25), (''s10'', 26), (''s11'', 27), (''t3'', 28), (''t4'', 29), (''t5'', 30), (''t6'', 31)]"

definition parse_reg :: "sim_config \<Rightarrow> string \<Rightarrow> int result" where
  "parse_reg cfg tok =
     (if tok \<noteq> [] \<and> hd tok = CHR ''x'' then
        (let ri = atoi (tl tok)
         in if ri < 0 \<or> ri > 32 then print_syntax_error cfg ''Malformed register name'' (Inr (- 1)) else Inr ri)
      else (case map_of abi_names tok of
          Some n \<Rightarrow> Inr n
        | None \<Rightarrow> print_syntax_error cfg ''Malformed register name'' (Inr (- 1))))"

definition parse_imm :: "sim_config \<Rightarrow> string \<Rightarrow> nat \<Rightarrow> u32 result" where
  "parse_imm cfg tok bits =
     (let imml = fst (strtol_auto tok);
          k = (if imml > 2 ^ bits - 1 \<or> imml < - (2 ^ (bits - 1)) then Inl (ProgramExit 1) else Inr (word_of_int imml))
      in if \<not> (tok \<noteq> [] \<and> is_digit_of 10 (hd tok)) \<and> \<not> (tok \<noteq> [] \<and> hd tok = CHR ''-'')
         then print_syntax_error cfg ''Malformed immediate value'' k else k)"

text \<open>The register and the offset of an operand \<open>imm(reg)\<close>.\<close>

definition parse_mem :: "sim_config \<Rightarrow> string \<Rightarrow> nat \<Rightarrow> (int \<times> u32) result" where
  "parse_mem cfg tok bits =
     (case strtok ''('' tok of (imms, rest) \<Rightarrow>
        tok_get imms (\<lambda>im. bindE (parse_imm cfg im bits) (\<lambda>imm.
          tok_get (fst (strtok '')'' rest)) (\<lambda>rg. bindE (parse_reg cfg rg) (\<lambda>reg. Inr (reg, imm))))))"

definition signextend :: "u32 \<Rightarrow> nat \<Rightarrow> u32" where
  "signextend v bits = (if bit v (bits - 1) then push_bit bits (-1) OR v else v)"

definition mnemonics :: "(string \<times> instr_type) list" where
  "mnemonics = [(''add'', ADD), (''sub'', SUB), (''slt'', SLT), (''sltu'', SLTU), (''and'', AND'), (''or'', OR'),
     (''xor'', XOR'), (''sll'', SLL), (''srl'', SRL), (''sra'', SRA),
     (''addi'', ADDI), (''slti'', SLTI), (''sltiu'', SLTIU), (''andi'', ANDI), (''ori'', ORI), (''xori'', XORI),
     (''slli'', SLLI), (''srli'', SRLI), (''srai'', SRAI),
     (''lb'', LB), (''lbu'', LBU), (''lh'', LH), (''lhu'', LHU), (''lw'', LW), (''sb'', SB), (''sh'', SH), (''sw'', SW),
     (''beq'', BEQ), (''bge'', BGE), (''bgeu'', BGEU), (''blt'', BLT), (''bltu'', BLTU), (''bne'', BNE),
     (''jal'', JAL), (''jalr'', JALR), (''auipc'', AUIPC), (''lui'', LUI),
     (''mul'', MUL), (''saddi8i8s.vv'', S_ADDI8I8S_VV), (''saddi16i16s.vv'', S_ADDI16I16S_VV),
     (''ssubi8i8s.vv'', S_SUBI8I8S_VV), (''ssubi16i16s.vv'', S_SUBI16I16S_VV),
     (''spmuli8i16s.vv.l'', S_PMULI8I16S_VV_L), (''spmuli8i16s.vv.h'', S_PMULI8I16S_VV_H),
     (''samuli8i8s.vv.nq'', S_AMULI8I8S_VV_NQ), (''samuli8i8s.vv.l'', S_AMULI8I8S_VV_L), (''hcf'', HCF)]"

text \<open>The chain of string comparisons: the first match, \<open>UNIMPL\<close> if there is none.\<close>

definition parse_mnemonic :: "string \<Rightarrow> instr_type" where
  "parse_mnemonic tok = (case map_of mnemonics tok of Some ty \<Rightarrow> ty | None \<Rightarrow> UNIMPL)"

text \<open>\<open>strncpy\<close> into the label field of an operand.\<close>

definition label_operand :: "string \<Rightarrow> operand \<Rightarrow> operand" where
  "label_operand s a = a\<lparr>o_type := OPTYPE_LABEL, o_label := take MAX_LABEL_LEN s\<rparr>"

definition reg_operand :: "int \<Rightarrow> operand \<Rightarrow> operand" where
  "reg_operand r a = a\<lparr>o_type := OPTYPE_REG, o_reg := r\<rparr>"

definition imm_operand :: "u32 \<Rightarrow> operand \<Rightarrow> operand" where
  "imm_operand v a = a\<lparr>o_type := OPTYPE_IMM, o_imm := v\<rparr>"

section \<open>One instruction\<close>

text \<open>The switch of \<open>parse_instr\<close> on an instruction whose operation and line are set.\<close>

definition parse_regs3 :: "sim_config \<Rightarrow> string option \<Rightarrow> string option \<Rightarrow> string option \<Rightarrow> string option \<Rightarrow> instr \<Rightarrow> instr result" where
  "parse_regs3 cfg o1 o2 o3 o4 i =
     format_check cfg (o1 = None \<or> o2 = None \<or> o3 = None \<or> o4 \<noteq> None)
       (tok_get o1 (\<lambda>t1. bindE (parse_reg cfg t1) (\<lambda>r1. tok_get o2 (\<lambda>t2. bindE (parse_reg cfg t2) (\<lambda>r2.
        tok_get o3 (\<lambda>t3. bindE (parse_reg cfg t3) (\<lambda>r3.
          Inr (i\<lparr>i_a1 := (i_a1 i)\<lparr>o_reg := r1\<rparr>, i_a2 := (i_a2 i)\<lparr>o_reg := r2\<rparr>, i_a3 := (i_a3 i)\<lparr>o_reg := r3\<rparr>\<rparr>))))))))"

definition parse_reg_mem :: "sim_config \<Rightarrow> string option \<Rightarrow> string option \<Rightarrow> string option \<Rightarrow> string option \<Rightarrow> instr \<Rightarrow> instr result" where
  "parse_reg_mem cfg o1 o2 o3 o4 i =
     format_check cfg (o1 = None \<or> o2 = None \<or> o3 \<noteq> None \<or> o4 \<noteq> None)
       (tok_get o1 (\<lambda>t1. bindE (parse_reg cfg t1) (\<lambda>r1. tok_get o2 (\<lambda>t2. bindE (parse_mem cfg t2 12) (\<lambda>(r2, imm).
          Inr (i\<lparr>i_a1 := (i_a1 i)\<lparr>o_reg := r1\<rparr>, i_a2 := (i_a2 i)\<lparr>o_reg := r2\<rparr>, i_a3 := (i_a3 i)\<lparr>o_imm := imm\<rparr>\<rparr>))))))"

definition parse_operands ::
  "sim_config \<Rightarrow> string option \<Rightarrow> string option \<Rightarrow> string option \<Rightarrow> string option \<Rightarrow> instr \<Rightarrow> instr result" where
  "parse_operands cfg o1 o2 o3 o4 i =
     (let oper = i_op i
      in if oper = JAL then
           (if o2 \<noteq> None then
              format_check cfg (o1 = None \<or> o2 = None \<or> o3 \<noteq> None \<or> o4 \<noteq> None)
                (tok_get o1 (\<lambda>t1. bindE (parse_reg cfg t1) (\<lambda>r. tok_get o2 (\<lambda>l.
                   Inr (i\<lparr>i_a1 := reg_operand r (i_a1 i), i_a2 := label_operand l (i_a2 i)\<rparr>)))))
            else
              format_check cfg (o1 = None \<or> o2 \<noteq> None \<or> o3 \<noteq> None \<or> o4 \<noteq> None)
                (tok_get o1 (\<lambda>l. Inr (i\<lparr>i_a1 := reg_operand 1 (i_a1 i), i_a2 := label_operand l (i_a2 i)\<rparr>))))
         else if oper = JALR \<or> is_load oper \<or> is_store oper then parse_reg_mem cfg o1 o2 o3 o4 i
         else if oper \<in> alu_rr \<or> is_simd oper then parse_regs3 cfg o1 o2 o3 o4 i
         else if oper \<in> alu_ri then
           format_check cfg (o1 = None \<or> o2 = None \<or> o3 = None \<or> o4 \<noteq> None)
             (tok_get o1 (\<lambda>t1. bindE (parse_reg cfg t1) (\<lambda>r1. tok_get o2 (\<lambda>t2. bindE (parse_reg cfg t2) (\<lambda>r2.
              tok_get o3 (\<lambda>t3. bindE (parse_imm cfg t3 12) (\<lambda>imm.
                Inr (i\<lparr>i_a1 := (i_a1 i)\<lparr>o_reg := r1\<rparr>, i_a2 := (i_a2 i)\<lparr>o_reg := r2\<rparr>,
                       i_a3 := (i_a3 i)\<lparr>o_imm := signextend imm 12\<rparr>\<rparr>))))))))
         else if oper \<in> branch_ops then
           format_check cfg (o1 = None \<or> o2 = None \<or> o3 = None \<or> o4 \<noteq> None)
             (tok_get o1 (\<lambda>t1. bindE (parse_reg cfg t1) (\<lambda>r1. tok_get o2 (\<lambda>t2. bindE (parse_reg cfg t2) (\<lambda>r2.
              tok_get o3 (\<lambda>l.
                Inr (i\<lparr>i_a1 := (i_a1 i)\<lparr>o_reg := r1\<rparr>, i_a2 := (i_a2 i)\<lparr>o_reg := r2\<rparr>, i_a3 := label_operand l (i_a3 i)\<rparr>)))))))
         else if oper \<in> {LUI, AUIPC} then
           format_check cfg (o1 = None \<or> o2 = None \<or> o3 \<noteq> None \<or> o4 \<noteq> None)
             (tok_get o1 (\<lambda>t1. bindE (parse_reg cfg t1) (\<lambda>r1. tok_get o2 (\<lambda>t2. bindE (parse_imm cfg t2 20) (\<lambda>imm.
                Inr (i\<lparr>i_a1 := (i_a1 i)\<lparr>o_reg := r1\<rparr>, i_a2 := (i_a2 i)\<lparr>o_imm := imm\<rparr>\<rparr>))))))
         else Inr i)"

text \<open>Writing back the instruction at index \<open>k\<close> and the source buffer.\<close>

definition put_instr :: "nat \<Rightarrow> (source \<times> instr) \<Rightarrow> emulator \<Rightarrow> emulator result" where
  "put_instr k si st =
     bindE (array_set ''imem'' (em_imem st) (int k) (snd si)) (\<lambda>im. Inr (st\<lparr>em_imem := im, em_src := fst si\<rparr>))"

definition get_instr :: "nat \<Rightarrow> emulator \<Rightarrow> instr result" where
  "get_instr k st = array_get ''imem'' (em_imem st) (int k)"

section \<open>Pseudo-instructions\<close>

text \<open>Each writes one or two instructions at \<open>ioff\<close> and returns how many.\<close>

definition pseudo_li :: "sim_config \<Rightarrow> int \<Rightarrow> nat \<Rightarrow> string option \<Rightarrow> string option \<Rightarrow> string option \<Rightarrow> emulator \<Rightarrow> (nat \<times> emulator) result" where
  "pseudo_li cfg line ioff o1 o2 o3 st =
     format_check cfg (o1 = None \<or> o2 = None \<or> o3 \<noteq> None)
       (tok_get o1 (\<lambda>t1. bindE (parse_reg cfg t1) (\<lambda>reg. tok_get o2 (\<lambda>t2.
          (let imml = fst (strtol_auto t2)
           in if reg < 0 \<or> imml > 2 ^ 32 - 1 \<or> imml < - (2 ^ 31) then Inl (ProgramExit 1)
              else (let hv = word_of_int imml :: u32; areg = fmt_reg reg; lo = hv AND 0xFFF
                    in bindE (get_instr ioff st) (\<lambda>i.
                       bindE (append_source cfg ''lui'' (Some areg) (Some (fmt_hex (drop_bit 12 hv))) None (em_src st)
                         (i\<lparr>i_op := LUI, i_a1 := reg_operand reg (i_a1 i), i_a2 := imm_operand (drop_bit 12 hv) (i_a2 i),
                            i_orig_line := line\<rparr>)) (\<lambda>si.
                       bindE (put_instr ioff si st) (\<lambda>st1.
                       bindE (get_instr (ioff + 1) st1) (\<lambda>i2.
                       bindE (append_source cfg ''addi'' (Some areg) (Some areg) (Some (fmt_hex lo)) (em_src st1)
                         (i2\<lparr>i_op := ADDI, i_a1 := reg_operand reg (i_a1 i2), i_a2 := reg_operand reg (i_a2 i2),
                             i_a3 := imm_operand lo (i_a3 i2), i_orig_line := line\<rparr>)) (\<lambda>si2.
                       bindE (put_instr (ioff + 1) si2 st1) (\<lambda>st2. Inr (2, st2)))))))))))))"

definition pseudo_la :: "sim_config \<Rightarrow> int \<Rightarrow> nat \<Rightarrow> string option \<Rightarrow> string option \<Rightarrow> string option \<Rightarrow> emulator \<Rightarrow> (nat \<times> emulator) result" where
  "pseudo_la cfg line ioff o1 o2 o3 st =
     format_check cfg (o1 = None \<or> o2 = None \<or> o3 \<noteq> None)
       (tok_get o1 (\<lambda>t1. bindE (parse_reg cfg t1) (\<lambda>reg. bindE (get_instr ioff st) (\<lambda>i. tok_get o2 (\<lambda>l.
          bindE (put_instr ioff (em_src st, i\<lparr>i_op := LUI, i_a1 := reg_operand reg (i_a1 i),
              i_a2 := label_operand l (i_a2 i), i_orig_line := line\<rparr>) st) (\<lambda>st1.
          bindE (get_instr (ioff + 1) st1) (\<lambda>i2.
          bindE (put_instr (ioff + 1) (em_src st1, i2\<lparr>i_op := ADDI, i_a1 := reg_operand reg (i_a1 i2),
              i_a2 := reg_operand reg (i_a2 i2), i_a3 := label_operand l (i_a3 i2), i_orig_line := line\<rparr>) st1) (\<lambda>st2.
            Inr (2, st2)))))))))"

text \<open>The pseudo-instructions that write one instruction: it is edited, its text appended, then stored.\<close>

definition one_instr ::
  "sim_config \<Rightarrow> int \<Rightarrow> nat \<Rightarrow> (instr \<Rightarrow> instr) \<Rightarrow> string \<Rightarrow> string option \<Rightarrow> string option \<Rightarrow> string option \<Rightarrow> emulator \<Rightarrow> (nat \<times> emulator) result" where
  "one_instr cfg line ioff f oper a1 a2 a3 st =
     bindE (get_instr ioff st) (\<lambda>i.
     bindE (append_source cfg oper a1 a2 a3 (em_src st) ((f i)\<lparr>i_orig_line := line\<rparr>)) (\<lambda>si.
     bindE (put_instr ioff si st) (\<lambda>st1. Inr (1, st1))))"

definition pseudo_branch ::
  "sim_config \<Rightarrow> int \<Rightarrow> nat \<Rightarrow> instr_type \<Rightarrow> string \<Rightarrow> string option \<Rightarrow> string option \<Rightarrow> string option \<Rightarrow> emulator \<Rightarrow> (nat \<times> emulator) result" where
  "pseudo_branch cfg line ioff ty name o1 o2 o3 st =
     format_check cfg (o1 = None \<or> o2 = None \<or> o3 \<noteq> None)
       (tok_get o1 (\<lambda>t1. bindE (parse_reg cfg t1) (\<lambda>r. tok_get o2 (\<lambda>l.
          one_instr cfg line ioff
            (\<lambda>i. i\<lparr>i_op := ty, i_a1 := reg_operand r (i_a1 i), i_a2 := reg_operand 0 (i_a2 i), i_a3 := label_operand l (i_a3 i)\<rparr>)
            name (Some ''x0'') (Some t1) (Some l) st))))"

definition parse_pseudoinstructions ::
  "sim_config \<Rightarrow> int \<Rightarrow> string \<Rightarrow> nat \<Rightarrow> string option \<Rightarrow> string option \<Rightarrow> string option \<Rightarrow> string option \<Rightarrow> emulator \<Rightarrow> (nat \<times> emulator) result" where
  "parse_pseudoinstructions cfg line ftok ioff o1 o2 o3 o4 st =
     (if streq ftok ''li'' then pseudo_li cfg line ioff o1 o2 o3 st
      else if streq ftok ''la'' then pseudo_la cfg line ioff o1 o2 o3 st
      else if streq ftok ''ret'' then
        format_check cfg (o1 \<noteq> None)
          (one_instr cfg line ioff
             (\<lambda>i. i\<lparr>i_op := JALR, i_a1 := reg_operand 0 (i_a1 i), i_a2 := reg_operand 1 (i_a2 i), i_a3 := imm_operand 0 (i_a3 i)\<rparr>)
             ''jalr'' (Some ''x0'') (Some ''x1'') (Some ''x0'') st)
      else if streq ftok ''j'' then
        format_check cfg (o1 = None \<or> o2 \<noteq> None)
          (tok_get o1 (\<lambda>l. one_instr cfg line ioff
             (\<lambda>i. i\<lparr>i_op := JAL, i_a1 := reg_operand 0 (i_a1 i), i_a2 := label_operand l (i_a2 i)\<rparr>)
             ''j'' (Some ''x0'') (Some l) None st))
      else if streq ftok ''mv'' then
        format_check cfg (o1 = None \<or> o2 = None \<or> o3 \<noteq> None)
          (tok_get o1 (\<lambda>t1. bindE (parse_reg cfg t1) (\<lambda>r1. tok_get o2 (\<lambda>t2. bindE (parse_reg cfg t2) (\<lambda>r2.
             one_instr cfg line ioff
               (\<lambda>i. i\<lparr>i_op := ADDI, i_a1 := reg_operand r1 (i_a1 i), i_a2 := reg_operand r2 (i_a2 i), i_a3 := imm_operand 0 (i_a3 i)\<rparr>)
               ''addi'' (Some t1) (Some t2) None st)))))
      else if streq ftok ''bnez'' then pseudo_branch cfg line ioff BNE ''bne'' o1 o2 o3 st
      else if streq ftok ''beqz'' then pseudo_branch cfg line ioff BEQ ''beq'' o1 o2 o3 st
      else Inr (0, st))"

section \<open>Lines\<close>

definition line_delims :: string where
  "line_delims = [CHR '' '', CHR 0x09, CHR 0x0D, CHR 0x0A]"

definition operand_delims :: string where
  "operand_delims = [CHR '' '', CHR 0x09, CHR 0x0D, CHR 0x0A, CHR '','']"

definition parse_instr :: "sim_config \<Rightarrow> int \<Rightarrow> string \<Rightarrow> string \<Rightarrow> emulator \<Rightarrow> (nat \<times> emulator) result" where
  "parse_instr cfg line ftok rest st =
     (if em_memoff st + 4 > data_offset cfg then Inl (ProgramExit 1)
      else (let (o1, r1) = strtok operand_delims rest; (o2, r2) = strtok operand_delims r1;
                (o3, r3) = strtok operand_delims r2; (o4, r4) = strtok operand_delims r3;
                ioff = em_memoff st div 4
            in bindE (parse_pseudoinstructions cfg line ftok ioff o1 o2 o3 o4 st) (\<lambda>(pscnt, st1).
                 if pscnt > 0 then Inr (pscnt, st1)
                 else
                   bindE (get_instr ioff st1) (\<lambda>i.
                   bindE (append_source cfg ftok o1 o2 o3 (em_src st1) (i\<lparr>i_op := parse_mnemonic ftok, i_orig_line := line\<rparr>)) (\<lambda>(s, i1).
                   bindE (parse_operands cfg o1 o2 o3 o4 i1) (\<lambda>i2.
                   bindE (put_instr ioff (s, i2) st1) (\<lambda>st2. Inr (1, st2))))))))"

text \<open>The loop of \<open>parse_data_element\<close>: every token is one value of \<open>size\<close> bytes.\<close>

definition data_value :: "nat \<Rightarrow> string \<Rightarrow> u8 list result" where
  "data_value sz t =
     (case strtol_auto t of (v, erange) \<Rightarrow>
        if erange \<or> v div 2 ^ (sz * 8) > 0 then Inl (ProgramExit 2)
        else Inr (map (\<lambda>k. word_of_int (v div 2 ^ (8 * k))) [0..<sz]))"

definition mem_write :: "nat \<Rightarrow> u8 list \<Rightarrow> u8 list \<Rightarrow> u8 list result" where
  "mem_write off bs m = (if off + length bs \<le> length m then Inr (blit m off bs) else Inl (OutOfBounds ''mem''))"

function parse_data_element :: "nat \<Rightarrow> string \<Rightarrow> u8 list \<times> nat \<Rightarrow> (u8 list \<times> nat) result" where
  "parse_data_element sz rest (m, off) =
     (case strtok line_delims rest of
        (None, _) \<Rightarrow> Inr (m, off)
      | (Some t, rest') \<Rightarrow>
          bindE (data_value sz t) (\<lambda>bs. bindE (mem_write off bs m) (\<lambda>m'. parse_data_element sz rest' (m', off + sz))))"
  by pat_completeness auto
termination
  by (relation "measure (\<lambda>(_, r, _). length r)") (auto dest: strtok_shorter [OF sym])

declare parse_data_element.simps [simp del]

text \<open>\<open>memcmp\<close> over the length of the token: any prefix of a directive selects it.\<close>

definition directive_is :: "string \<Rightarrow> string \<Rightarrow> bool" where
  "directive_is ftok d \<longleftrightarrow> ftok = take (length ftok) d"

definition parse_assembler_directive :: "sim_config \<Rightarrow> string \<Rightarrow> string \<Rightarrow> emulator \<Rightarrow> emulator result" where
  "parse_assembler_directive cfg ftok rest st =
     (let data = (\<lambda>sz. bindE (parse_data_element sz rest (em_mem st, em_memoff st)) (\<lambda>(m, off).
              Inr (st\<lparr>em_mem := m, em_memoff := off\<rparr>)))
      in if directive_is ftok ''.text'' then
           (let k = Inr (st\<lparr>em_memoff := text_offset cfg\<rparr>)
            in if fst (strtok line_delims rest) \<noteq> None then print_syntax_error cfg ''Tokens after assembler directive'' k else k)
         else if directive_is ftok ''.data'' then Inr (st\<lparr>em_memoff := data_offset cfg\<rparr>)
         else if directive_is ftok ''.byte'' then data 1
         else if directive_is ftok ''.half'' then data 2
         else if directive_is ftok ''.word'' then data 4
         else Inl (ProgramExit 3))"

text \<open>An instruction line: parse it, mark its words in the memory image, advance the offset.\<close>

definition mark_word :: "u8 list" where
  "mark_word = replicate 4 0xCC"

definition parse_instr_line :: "sim_config \<Rightarrow> int \<Rightarrow> string \<Rightarrow> string \<Rightarrow> emulator \<Rightarrow> emulator result" where
  "parse_instr_line cfg line ftok rest st =
     bindE (parse_instr cfg line ftok rest st) (\<lambda>(count, st1).
     bindE (foldE (\<lambda>m i. mem_write (em_memoff st1 + i * 4) mark_word m) (em_mem st1) [0..<count]) (\<lambda>m.
       Inr (st1\<lparr>em_mem := m, em_memoff := em_memoff st1 + count * 4\<rparr>)))"

definition add_label :: "sim_config \<Rightarrow> string \<Rightarrow> emulator \<Rightarrow> emulator result" where
  "add_label cfg l st =
     (if length l \<ge> MAX_LABEL_LEN then Inl (ProgramExit 3)
      else if length (em_labels st) \<ge> max_label_count cfg then Inl (ProgramExit 3)
      else Inr (st\<lparr>em_labels := em_labels st @ [\<lparr>l_label = l, l_loc = int (em_memoff st)\<rparr>]\<rparr>))"

definition parse_line :: "sim_config \<Rightarrow> int \<Rightarrow> string \<Rightarrow> emulator \<Rightarrow> emulator result" where
  "parse_line cfg line rbuf st =
     (case strtok line_delims (map tolower_char rbuf) of
        (None, _) \<Rightarrow> Inr st
      | (Some ftok, rest) \<Rightarrow>
          if hd ftok = CHR ''#'' then Inr st
          else if hd ftok = CHR ''.'' then parse_assembler_directive cfg ftok rest st
          else if last ftok = CHR '':'' then
            bindE (add_label cfg (butlast ftok) st) (\<lambda>st1.
              (case strtok line_delims rest of
                 (None, _) \<Rightarrow> Inr st1
               | (Some ntok, rest') \<Rightarrow>
                   if hd ntok = CHR ''.'' then parse_assembler_directive cfg ntok rest' st1
                   else parse_instr_line cfg line ntok rest' st1))
          else parse_instr_line cfg line ftok rest st)"

text \<open>The whole file, read in lines of at most 1023 bytes and numbered from 1; \<open>None\<close> is a file that cannot be opened.\<close>

definition parse :: "sim_config \<Rightarrow> string option \<Rightarrow> emulator \<Rightarrow> emulator result" where
  "parse cfg file st =
     (case file of
        None \<Rightarrow> log_error cfg ''No such file'' (Inl (OutOfBounds ''fin''))
      | Some content \<Rightarrow> (let ls = read_lines 1023 content
          in foldE (\<lambda>st (k, l). parse_line cfg (int k) l st) st (zip [1..<length ls + 1] ls)))"

section \<open>Labels\<close>

definition label_addr :: "sim_config \<Rightarrow> string \<Rightarrow> label_loc list \<Rightarrow> u32 result" where
  "label_addr cfg l labels =
     (case find (\<lambda>e. streq (l_label e) l) labels of
        Some e \<Rightarrow> Inr (word_of_int (l_loc e))
      | None \<Rightarrow> print_syntax_error cfg ''Undefined label'' (Inr (-1)))"

text \<open>The bound check of a jump or branch at index \<open>k\<close>: the distance of \<open>target\<close> from its address.\<close>

definition check_target :: "nat \<Rightarrow> u32 \<Rightarrow> nat \<Rightarrow> 'a result \<Rightarrow> 'a result" where
  "check_target k target bits r = (if \<bar>int (k * 4) - sint target\<bar> \<ge> 2 ^ bits then Inl (ProgramExit 3) else r)"

definition resolve :: "sim_config \<Rightarrow> label_loc list \<Rightarrow> operand \<Rightarrow> operand result" where
  "resolve cfg labels a = bindE (label_addr cfg (o_label a) labels) (\<lambda>v. Inr (a\<lparr>o_type := OPTYPE_IMM, o_imm := v\<rparr>))"

definition normalize_a1 :: "sim_config \<Rightarrow> label_loc list \<Rightarrow> instr \<Rightarrow> instr result" where
  "normalize_a1 cfg labels i =
     (if o_type (i_a1 i) = OPTYPE_LABEL then bindE (resolve cfg labels (i_a1 i)) (\<lambda>a. Inr (i\<lparr>i_a1 := a\<rparr>)) else Inr i)"

definition normalize_a2 :: "sim_config \<Rightarrow> label_loc list \<Rightarrow> nat \<Rightarrow> source \<times> instr \<Rightarrow> (source \<times> instr) result" where
  "normalize_a2 cfg labels k si =
     (let (s, i) = si
      in if o_type (i_a2 i) = OPTYPE_LABEL then
           bindE (resolve cfg labels (i_a2 i)) (\<lambda>a.
             if i_op i = LUI then
               (let hi = drop_bit 12 (o_imm a)
                in append_source cfg ''lui'' (Some (fmt_reg (o_reg (i_a1 i)))) (Some (fmt_hex hi)) None s (i\<lparr>i_a2 := a\<lparr>o_imm := hi\<rparr>\<rparr>))
             else if i_op i = JAL then check_target k (o_imm (i_a3 i)) 21 (Inr (s, i\<lparr>i_a2 := a\<rparr>))
             else Inr (s, i\<lparr>i_a2 := a\<rparr>))
         else Inr si)"

definition normalize_a3 :: "sim_config \<Rightarrow> label_loc list \<Rightarrow> nat \<Rightarrow> source \<times> instr \<Rightarrow> (source \<times> instr) result" where
  "normalize_a3 cfg labels k si =
     (let (s, i) = si
      in if o_type (i_a3 i) = OPTYPE_LABEL then
           bindE (resolve cfg labels (i_a3 i)) (\<lambda>a.
             if i_op i = ADDI then
               (let lo = o_imm a AND 0xFFF
                in append_source cfg ''addi'' (Some (fmt_reg (o_reg (i_a1 i)))) (Some (fmt_reg (o_reg (i_a2 i))))
                     (Some (fmt_hex lo)) s (i\<lparr>i_a3 := a\<lparr>o_imm := lo\<rparr>\<rparr>))
             else if i_op i \<in> branch_ops then check_target k (o_imm a) 13 (Inr (s, i\<lparr>i_a3 := a\<rparr>))
             else Inr (s, i\<lparr>i_a3 := a\<rparr>))
         else Inr si)"

definition normalize_one :: "sim_config \<Rightarrow> nat \<Rightarrow> emulator \<Rightarrow> emulator result" where
  "normalize_one cfg k st =
     bindE (get_instr k st) (\<lambda>i.
       if i_op i = UNIMPL then Inr st
       else bindE (normalize_a1 cfg (em_labels st) i) (\<lambda>i1.
            bindE (normalize_a2 cfg (em_labels st) k (em_src st, i1)) (\<lambda>si.
            bindE (normalize_a3 cfg (em_labels st) k si) (\<lambda>si'. put_instr k si' st))))"

definition normalize_labels :: "sim_config \<Rightarrow> emulator \<Rightarrow> emulator result" where
  "normalize_labels cfg st = foldE (\<lambda>st k. normalize_one cfg k st) st [0..<data_offset cfg div 4]"

section \<open>Mnemonics and registers\<close>

lemma format_check_eq_Inr [result_simps]: "format_check cfg b k = Inr x \<longleftrightarrow> (b \<longrightarrow> \<not> error_aborts cfg) \<and> k = Inr x"
  by (auto simp: format_check_def print_syntax_error_def result_simps)

lemma tok_get_eq_Inr [result_simps]: "tok_get t k = Inr x \<longleftrightarrow> (\<exists>s. t = Some s \<and> k s = Inr x)"
  by (cases t) (simp_all add: tok_get_def)

lemma mnemonics_distinct: "distinct (map fst mnemonics)"
  unfolding mnemonics_def by simp

lemma parse_mnemonic_in: "(s, ty) \<in> set mnemonics \<Longrightarrow> parse_mnemonic s = ty"
  using map_of_is_SomeI [OF mnemonics_distinct] by (simp add: parse_mnemonic_def)

lemma parse_mnemonic_out: "s \<notin> set (map fst mnemonics) \<Longrightarrow> parse_mnemonic s = UNIMPL"
  by (simp add: parse_mnemonic_def map_of_eq_None_iff [THEN iffD2])

text \<open>
  The assembler reads every mnemonic that the simulator prints for an operation of the base
  instruction set, in lower case, as that operation; the names it prints for the SIMD operations
  are not mnemonics and assemble to \<open>UNIMPL\<close>.
\<close>

lemma mnemonic_roundtrip:
  assumes "ty \<notin> {MUL, NOP}"
  shows "parse_mnemonic (map tolower_char (instrToString ty)) = (if is_simd ty then UNIMPL else ty)"
proof (cases "is_simd ty \<or> ty = UNIMPL")
  case True
  then have "parse_mnemonic (map tolower_char (instrToString ty)) = UNIMPL"
    by (intro parse_mnemonic_out; cases ty) (simp_all add: tolower_char_def char_of_eq_iff mnemonics_def is_simd_def)
  then show ?thesis using True by auto
next
  case False
  then have "parse_mnemonic (map tolower_char (instrToString ty)) = ty"
    using assms by (intro parse_mnemonic_in; cases ty) (simp_all add: tolower_char_def char_of_eq_iff mnemonics_def is_simd_def)
  then show ?thesis using False by simp
qed

lemma parse_reg_fmt: "0 \<le> r \<Longrightarrow> r \<le> 32 \<Longrightarrow> parse_reg cfg (fmt_reg r) = Inr r"
  using atoi_padded [of "nat r"] by (simp add: parse_reg_def fmt_reg_def)

lemma abi_names_range: "map_of abi_names tok = Some n \<Longrightarrow> 0 \<le> n \<and> n < 32"
  by (auto simp: abi_names_def split: if_splits)

text \<open>
  A register token yields a number from 0 to 32, or -1 when errors do not stop the run. The
  numeric names are read back exactly, and \<open>x32\<close> is among them, one past the register file.
\<close>

lemma parse_reg_range:
  assumes "parse_reg cfg tok = Inr r" "0 \<le> k" "k \<le> 32"
  shows "- 1 \<le> r \<and> r \<le> 32 \<and> (r = - 1 \<longrightarrow> \<not> error_aborts cfg) \<and> parse_reg cfg (fmt_reg k) = Inr k
    \<and> (\<not> (tok \<noteq> [] \<and> hd tok = CHR ''x'') \<longrightarrow> r < 32)"
proof -
  have "- 1 \<le> r \<and> r \<le> 32 \<and> (r = - 1 \<longrightarrow> \<not> error_aborts cfg) \<and> (\<not> (tok \<noteq> [] \<and> hd tok = CHR ''x'') \<longrightarrow> r < 32)"
    using assms(1) abi_names_range [of tok]
    by (auto simp: parse_reg_def print_syntax_error_def log_error_def Let_def split: if_splits option.splits)
  then show ?thesis using parse_reg_fmt assms(2,3) by blast
qed

section \<open>Instruction slots\<close>

lemma put_instr_ok: "k < length (em_imem st) \<Longrightarrow>
    put_instr k (s, i) st = Inr (st\<lparr>em_imem := (em_imem st)[k := i], em_src := s\<rparr>)"
  by (simp add: put_instr_def)

lemma get_instr_ok: "k < length (em_imem st) \<Longrightarrow> get_instr k st = Inr (em_imem st ! k)"
  by (simp add: get_instr_def)

text \<open>Appending a short text only sets \<open>psrc\<close>.\<close>

lemma append_source_short:
  assumes "\<And>l. source_line oper a1 a2 a3 = Some l \<Longrightarrow> length l < 128"
  shows "\<exists>s' p. append_source cfg oper a1 a2 a3 s i = Inr (s', i\<lparr>i_psrc := p\<rparr>)"
proof -
  have "i\<lparr>i_psrc := i_psrc i\<rparr> = i" by simp
  then have keep: "\<exists>s' p. Inr (s, i) = (Inr (s', i\<lparr>i_psrc := p\<rparr>) :: (source \<times> instr) result)" by metis
  show ?thesis
  proof (cases "source_line oper a1 a2 a3")
    case None
    then show ?thesis using keep by (simp add: append_source_def)
  next
    case (Some l)
    then show ?thesis using keep assms [OF Some] by (auto simp: append_source_def)
  qed
qed

lemma li_words: "push_bit 12 (drop_bit 12 v) + (v AND 0xFFF) = (v :: u32)"
  using bits_ident [of 12 v] by (simp add: and_mask_simps)

text \<open>
  C34: \<open>li rd, n\<close> with a value from \<open>-2^31\<close> to \<open>2^32 - 1\<close> is assembled, for any register but \<open>x32\<close>
  and any two free slots, to \<open>LUI\<close> and \<open>ADDI\<close>, and executing the two on the CPU leaves exactly the
  value (modulo \<open>2^32\<close>) in \<open>rd\<close>, whatever the registers held: the immediate of \<open>ADDI\<close> is not
  sign-extended, so no correction of the upper part is needed.
\<close>

theorem li_loads_value:
  assumes "parse_reg cfg t1 = Inr r" "0 \<le> r" "r < 32" "ioff + 1 < length (em_imem st)"
    and "- (2 ^ 31) \<le> fst (strtol_auto t2)" "fst (strtol_auto t2) < 2 ^ 32"
    and "length rf = 32"
  shows "\<exists>st' rf1. parse_pseudoinstructions cfg line ''li'' ioff (Some t1) (Some t2) None o4 st = Inr (2, st')
    \<and> em_mem st' = em_mem st \<and> (\<forall>k. k \<noteq> ioff \<and> k \<noteq> ioff + 1 \<longrightarrow> em_imem st' ! k = em_imem st ! k)
    \<and> exec_switch rf pc (em_imem st' ! ioff) = Inr (rf1, pc + 4)
    \<and> exec_switch rf1 (pc + 4) (em_imem st' ! (ioff + 1)) =
        Inr (rf[nat r := word_of_int (fst (strtol_auto t2))], pc + 8)"
proof -
  let ?hv = "word_of_int (fst (strtol_auto t2)) :: u32"
  let ?i1 = "(em_imem st ! ioff)\<lparr>i_op := LUI, i_a1 := reg_operand r (i_a1 (em_imem st ! ioff)),
    i_a2 := imm_operand (drop_bit 12 ?hv) (i_a2 (em_imem st ! ioff)), i_orig_line := line\<rparr>"
  let ?j = "em_imem st ! (ioff + 1)"
  let ?i2 = "?j\<lparr>i_op := ADDI, i_a1 := reg_operand r (i_a1 ?j), i_a2 := reg_operand r (i_a2 ?j),
    i_a3 := imm_operand (?hv AND 0xFFF) (i_a3 ?j), i_orig_line := line\<rparr>"
  have len: "length (fmt_reg r) = 3" using fmt_lengths(1) assms(2,3) by simp
  obtain s1 p1 where a1: "append_source cfg ''lui'' (Some (fmt_reg r)) (Some (fmt_hex (drop_bit 12 ?hv))) None (em_src st) ?i1
      = Inr (s1, ?i1\<lparr>i_psrc := p1\<rparr>)"
    using append_source_short [of "''lui''" "Some (fmt_reg r)" "Some (fmt_hex (drop_bit 12 ?hv))" None cfg "em_src st" ?i1]
    by (auto simp: source_line_def len fmt_lengths(2))
  obtain s2 p2 where a2: "append_source cfg ''addi'' (Some (fmt_reg r)) (Some (fmt_reg r)) (Some (fmt_hex (?hv AND 0xFFF))) s1 ?i2
      = Inr (s2, ?i2\<lparr>i_psrc := p2\<rparr>)"
    using append_source_short [of "''addi''" "Some (fmt_reg r)" "Some (fmt_reg r)" "Some (fmt_hex (?hv AND 0xFFF))" cfg s1 ?i2]
    by (auto simp: source_line_def len fmt_lengths(2))
  let ?im = "(em_imem st)[ioff := ?i1\<lparr>i_psrc := p1\<rparr>, ioff + 1 := ?i2\<lparr>i_psrc := p2\<rparr>]"
  let ?st = "st\<lparr>em_imem := ?im, em_src := s2\<rparr>"
  have "pseudo_li cfg line ioff (Some t1) (Some t2) None st = Inr (2, ?st)"
    unfolding pseudo_li_def format_check_def tok_get_def
    using assms(1-6) a1 a2 by (simp add: get_instr_ok put_instr_ok Let_def)
  then have "parse_pseudoinstructions cfg line ''li'' ioff (Some t1) (Some t2) None o4 st = Inr (2, ?st)"
    by (simp add: parse_pseudoinstructions_def streq_def)
  moreover have "exec_switch rf pc (?im ! ioff) = Inr (rf[nat r := push_bit 12 (drop_bit 12 ?hv)], pc + 4)"
    using assms(2-4,7) by (simp add: exec_switch_def rf_set_def reg_operand_def imm_operand_def)
  moreover have "exec_switch (rf[nat r := push_bit 12 (drop_bit 12 ?hv)]) (pc + 4) (?im ! (ioff + 1)) = Inr (rf[nat r := ?hv], pc + 8)"
    using assms(2-4,7) li_words [of ?hv]
    by (simp add: exec_switch_def exec_ri_def rf_set_def rf_get_def reg_operand_def imm_operand_def add.commute [of 4])
  ultimately show ?thesis by (intro exI [of _ ?st] exI) (auto simp: nth_list_update_neq)
qed

theorem li_loads_value_witness:
  "\<exists>st' rf1. parse_pseudoinstructions default_config 7 ''li'' 0 (Some ''t0'') (Some ''0xdeadbeef'') None None
        (emulator_new default_config [] [blank_instr, blank_instr]) = Inr (2, st')
     \<and> exec_switch (replicate 32 1) 0 (em_imem st' ! 0) = Inr (rf1, 4)
     \<and> exec_switch rf1 4 (em_imem st' ! 1) = Inr ((replicate 32 1)[5 := 0xdeadbeef], 8)"
proof -
  let ?st = "emulator_new default_config [] [blank_instr, blank_instr]"
  have reg: "parse_reg default_config ''t0'' = Inr 5" by (simp add: parse_reg_def abi_names_def)
  have num: "fst (strtol_auto ''0xdeadbeef'') = 0xdeadbeef"
    by (simp add: strtol_auto_def is_space_def split_sign_def split_base_def is_digit_of_def digit_value_def
        clamp_long_def LONG_MAX_def LONG_MIN_def)
  have im: "0 + 1 < length (em_imem ?st)" by (simp add: emulator_new_def)
  have pc: "(0 :: u32) + 4 = 4" "(0 :: u32) + 8 = 8" "(0 :: nat) + 1 = 1" "nat 5 = 5"
    "(word_of_int 0xdeadbeef :: u32) = 0xdeadbeef" by simp_all
  note li = li_loads_value [OF reg _ _ im, of "''0xdeadbeef''" "replicate 32 1" 7 None 0, unfolded num pc]
  have len: "length (replicate 32 1 :: u32 list) = 32" by (rule length_replicate)
  have "(0 :: int) \<le> 5" "(5 :: int) < 32" "- (2 ^ 31) \<le> (0xdeadbeef :: int)" "(0xdeadbeef :: int) < 2 ^ 32" by simp_all
  from li [OF this len] show ?thesis by blast
qed

section \<open>Data directives\<close>

lemma data_value_bytes:
  assumes "strtol_auto t = (v, False)" "v < 2 ^ (8 * sz)" "sz \<le> 4"
  shows "data_value sz t = Inr (bytes_of sz (word_of_int v))"
proof -
  have "v div 2 ^ (sz * 8) \<le> 0" using assms(2) by (simp add: mult.commute pos_imp_zdiv_pos_iff not_less [symmetric])
  moreover have "(word_of_int (v div 2 ^ (8 * k)) :: u8) = ucast (drop_bit (8 * k) (word_of_int v :: u32))" if "k < sz" for k
    by (rule bit_word_eqI) (use that assms(3) in \<open>auto simp: bit_simps bit_word_of_int_iff simp flip: drop_bit_eq_div\<close>)
  ultimately show ?thesis using assms(1) by (simp add: data_value_def bytes_of_def not_less)
qed

lemma strtok_blank: "strtok d [] = (None, [])"
  by (simp add: strtok_def)

lemma data_elements_stored:
  assumes "\<forall>t \<in> set ts. t \<noteq> [] \<and> set t \<inter> set line_delims = {} \<and> (\<exists>v. strtol_auto t = (v, False) \<and> v < 2 ^ (8 * sz))"
    and "sz \<le> 4" "off + sz * length ts \<le> length m"
  shows "parse_data_element sz (concat (map (\<lambda>t. t @ '' '') ts)) (m, off) =
    Inr (blit m off (concat (map (\<lambda>t. bytes_of sz (word_of_int (fst (strtol_auto t)))) ts)), off + sz * length ts)"
  using assms(1,3)
proof (induction ts arbitrary: m off)
  case Nil
  then show ?case by (subst parse_data_element.simps) (simp add: strtok_blank)
next
  case (Cons t ts)
  let ?bs = "bytes_of sz (word_of_int (fst (strtol_auto t)))"
  let ?r = "concat (map (\<lambda>t. t @ '' '') ts)"
  have "CHR '' '' \<in> set line_delims" by (simp add: line_delims_def)
  then have tok: "strtok line_delims (t @ CHR '' '' # ?r) = (Some t, ?r)"
    using Cons.prems(1) by (intro strtok_word) auto
  have val: "data_value sz t = Inr ?bs" using data_value_bytes [OF _ _ assms(2)] Cons.prems(1) by fastforce
  have len: "length (concat (map (\<lambda>t. bytes_of sz (word_of_int (fst (strtol_auto t)))) ts)) = sz * length ts"
    by (simp add: length_concat o_def sum_list_triv)
  have wr: "mem_write off ?bs m = Inr (blit m off ?bs)" using Cons.prems(2) by (simp add: mem_write_def)
  show ?case
    using Cons.IH [of "off + sz" "blit m off ?bs"] Cons.prems tok val wr len
      blit_append [of off ?bs "concat (map (\<lambda>t. bytes_of sz (word_of_int (fst (strtol_auto t)))) ts)" m]
    by (subst parse_data_element.simps) (simp add: add.assoc)
qed

lemma concat_words_segment:
  "k < length vs \<Longrightarrow> segment (concat (map (bytes_of sz) vs)) (sz * k) sz = bytes_of sz (vs ! k)"
proof (induction vs arbitrary: k)
  case (Cons v vs)
  then show ?case by (cases k) (simp_all add: segment_def)
qed simp

text \<open>
  C35: a \<open>.word\<close> line with the hexadecimal texts of any words that fit in the memory is assembled:
  the words are stored little-endian one after the other from the current offset, the offset is
  advanced past them, every other byte, the labels and the instructions are kept.
\<close>

theorem data_words_roundtrip:
  assumes "em_memoff st + 4 * length vs \<le> length (em_mem st)"
  shows "\<exists>m. parse_line cfg line (''.word '' @ concat (map (\<lambda>v. fmt_hex v @ '' '') vs)) st =
        Inr (st\<lparr>em_mem := m, em_memoff := em_memoff st + 4 * length vs\<rparr>)
    \<and> length m = length (em_mem st)
    \<and> (\<forall>k < length vs. word_of_bytes (segment m (em_memoff st + 4 * k) 4) = vs ! k)
    \<and> (\<forall>i < length m. i < em_memoff st \<or> em_memoff st + 4 * length vs \<le> i \<longrightarrow> m ! i = em_mem st ! i)"
proof -
  let ?ts = "map fmt_hex vs"
  let ?bs = "concat (map (bytes_of 4) vs)"
  let ?m = "blit (em_mem st) (em_memoff st) ?bs"
  have chars: "c \<in> set (fmt_hex v) \<Longrightarrow> tolower_char c = c \<and> c \<notin> set line_delims" for c v
    using hex_char_plain [OF fmt_hex_chars] by (fastforce simp: line_delims_def is_space_def)
  have low: "map tolower_char (''.word '' @ concat (map (\<lambda>v. fmt_hex v @ '' '') vs)) = ''.word'' @ CHR '' '' # concat (map (\<lambda>t. t @ '' '') ?ts)"
    using chars by (simp add: map_concat o_def tolower_char_def cong: map_cong)
  have tok: "strtok line_delims (''.word'' @ CHR '' '' # r) = (Some ''.word'', r)" for r
    by (rule strtok_word) (simp_all add: line_delims_def)
  have "\<forall>t \<in> set ?ts. t \<noteq> [] \<and> set t \<inter> set line_delims = {} \<and> (\<exists>v. strtol_auto t = (v, False) \<and> v < 2 ^ (8 * 4))"
  proof -
    have "uint v < 2 ^ (8 * 4)" for v :: u32 using uint_lt2p [of v] by simp
    then show ?thesis using chars by (auto simp: strtol_auto_fmt_hex) (simp add: fmt_hex_def)
  qed
  then have "parse_data_element 4 (concat (map (\<lambda>t. t @ '' '') ?ts)) (em_mem st, em_memoff st) = Inr (?m, em_memoff st + 4 * length vs)"
    using data_elements_stored [of ?ts 4 "em_memoff st" "em_mem st"] assms by (simp add: strtol_auto_fmt_hex o_def)
  then have run: "parse_line cfg line (''.word '' @ concat (map (\<lambda>v. fmt_hex v @ '' '') vs)) st =
      Inr (st\<lparr>em_mem := ?m, em_memoff := em_memoff st + 4 * length vs\<rparr>)"
    unfolding parse_line_def low tok by (simp add: parse_assembler_directive_def directive_is_def)
  have len: "length ?bs = 4 * length vs" by (simp add: length_concat o_def sum_list_triv)
  have seg: "segment ?m (em_memoff st + 4 * k) 4 = segment ?bs (4 * k) 4" if "k < length vs" for k
    using that assms len by (simp add: segment_def blit_def)
  show ?thesis
    using run assms len seg by (intro exI [of _ ?m]) (auto simp: concat_words_segment nth_blit)
qed

theorem data_words_roundtrip_witness:
  "\<exists>m. parse_line default_config 3 (''.word '' @ concat (map (\<lambda>v. fmt_hex v @ '' '') [0xcafe, 7]))
        (emulator_new default_config (replicate 8 0) []) =
      Inr ((emulator_new default_config (replicate 8 0) [])\<lparr>em_mem := m, em_memoff := 8\<rparr>)
     \<and> word_of_bytes (segment m 4 4) = 7"
proof -
  let ?st = "emulator_new default_config (replicate 8 0) []"
  have "em_memoff ?st = 0" "length (em_mem ?st) = 8" by (simp_all add: emulator_new_def)
  with data_words_roundtrip [of ?st "[0xcafe, 7]" default_config 3]
  obtain m where m: "parse_line default_config 3 (''.word '' @ concat (map (\<lambda>v. fmt_hex v @ '' '') [0xcafe, 7])) ?st =
      Inr (?st\<lparr>em_mem := m, em_memoff := 8\<rparr>)"
    "\<forall>k < length [0xcafe, 7 :: u32]. word_of_bytes (segment m (0 + 4 * k) 4) = [0xcafe, 7] ! k"
    by (auto simp del: append.simps concat.simps map_append list.map)
  from m(2) have "word_of_bytes (segment m 4 4) = 7" by (elim allE [of _ 1]) simp
  with m(1) show ?thesis by blast
qed

section \<open>Assembled programs\<close>

text \<open>
  What every step of the assembler keeps: the sizes of the arrays, the bounds of the label table,
  and a property \<open>P\<close> of the instructions, such as that a branch refers to its target by a label.
\<close>

definition branch_labelled :: "instr \<Rightarrow> bool" where
  "branch_labelled i \<longleftrightarrow> (i_op i \<in> branch_ops \<longrightarrow> o_type (i_a3 i) = OPTYPE_LABEL)"

definition em_wf :: "(instr \<Rightarrow> bool) \<Rightarrow> sim_config \<Rightarrow> nat \<Rightarrow> nat \<Rightarrow> emulator \<Rightarrow> bool" where
  "em_wf P cfg n k st \<longleftrightarrow> length (em_mem st) = n \<and> length (em_imem st) = k
     \<and> length (em_labels st) \<le> max_label_count cfg \<and> (\<forall>e \<in> set (em_labels st). length (l_label e) < MAX_LABEL_LEN)
     \<and> length (s_src (em_src st)) = max_src_len cfg
     \<and> (\<forall>i \<in> set (em_imem st). P i)"

lemma append_source_keeps:
  assumes "append_source cfg oper a1 a2 a3 s i = Inr (s', i')" "length (s_src s) = max_src_len cfg"
  shows "length (s_src s') = max_src_len cfg" "i_op i' = i_op i" "i_a1 i' = i_a1 i" "i_a2 i' = i_a2 i" "i_a3 i' = i_a3 i"
  using assms by (auto simp: append_source_def split: option.splits if_splits)

lemma mem_write_length: "mem_write off bs m = Inr m' \<Longrightarrow> length m' = length m"
  by (auto simp: mem_write_def split: if_splits)

lemma parse_data_length: "parse_data_element sz rest mo = Inr (m', off') \<Longrightarrow> length m' = length (fst mo)"
proof (induction sz rest mo rule: parse_data_element.induct)
  case (1 sz rest m off)
  from 1(2) show ?case
    by (subst (asm) parse_data_element.simps) (auto simp: result_simps split: option.splits prod.splits, metis 1(1) fst_conv mem_write_length)
qed

text \<open>
  The contract of \<open>P\<close>: it depends on the operation and the operands only, and holds for what the
  pseudo-instructions write. Both assemblers keep it, with every function they share.
\<close>

locale instr_property =
  fixes P :: "instr \<Rightarrow> bool"
  assumes P_cong: "i_op i' = i_op i \<Longrightarrow> i_a1 i' = i_a1 i \<Longrightarrow> i_a2 i' = i_a2 i \<Longrightarrow> i_a3 i' = i_a3 i \<Longrightarrow> P i' \<longleftrightarrow> P i"
    and P_pseudo: "i_op i \<in> {LUI, ADDI, JAL, JALR} \<Longrightarrow> P i"
    and P_branch: "i_op i \<in> {BEQ, BNE} \<Longrightarrow> o_type (i_a3 i) = OPTYPE_LABEL \<Longrightarrow> P i"
begin

lemma put_instr_wf:
  assumes "put_instr k (s, i) st = Inr st'" "em_wf P cfg n m st" "length (s_src s) = max_src_len cfg" "P i"
  shows "em_wf P cfg n m st'"
  using assms by (auto simp: put_instr_def em_wf_def result_simps dest!: subsetD [OF set_update_subset_insert])

lemma put_same_wf:
  assumes "put_instr k (em_src st, i) st = Inr st'" "em_wf P cfg n m st" "P i"
  shows "em_wf P cfg n m st'"
  using put_instr_wf [OF assms(1,2) _ assms(3)] assms(2) by (simp add: em_wf_def)

lemma append_put_wf:
  assumes "append_source cfg oper a1 a2 a3 (em_src st) i = Inr si" "put_instr k si st = Inr st'"
    and "em_wf P cfg n m st" "P i"
  shows "em_wf P cfg n m st'"
proof -
  obtain s' i' where si: "si = (s', i')" by (cases si)
  have "length (s_src (em_src st)) = max_src_len cfg" using assms(3) by (simp add: em_wf_def)
  note keeps = append_source_keeps [OF assms(1) [unfolded si] this]
  have "P i'" using P_cong [OF keeps(2-5)] assms(4) by blast
  with si assms(2,3) keeps(1) show ?thesis by (blast intro: put_instr_wf)
qed

lemma one_instr_wf:
  assumes "one_instr cfg line k f oper a1 a2 a3 st = Inr (c, st')" "em_wf P cfg n m st" "\<And>i. P (f i)"
  shows "em_wf P cfg n m st'"
proof -
  from assms(1) obtain i si where "append_source cfg oper a1 a2 a3 (em_src st) ((f i)\<lparr>i_orig_line := line\<rparr>) = Inr si"
    "put_instr k si st = Inr st'"
    by (auto simp: one_instr_def result_simps)
  moreover have "P ((f i)\<lparr>i_orig_line := line\<rparr>)" using assms(3) [of i] by (subst P_cong [of _ "f i"]) simp_all
  ultimately show ?thesis using append_put_wf assms(2) by blast
qed

lemma pseudo_li_wf:
  assumes "pseudo_li cfg line k o1 o2 o3 st = Inr (c, st')" "em_wf P cfg n m st"
  shows "em_wf P cfg n m st'"
proof -
  from assms(1) obtain i si st1 j sj reg hi lo a1 a2 b1 b2 b3 where
    "append_source cfg ''lui'' a1 a2 None (em_src st)
       (i\<lparr>i_op := LUI, i_a1 := reg_operand reg (i_a1 i), i_a2 := imm_operand hi (i_a2 i), i_orig_line := line\<rparr>) = Inr si"
    "put_instr k si st = Inr st1"
    "append_source cfg ''addi'' b1 b2 b3 (em_src st1)
       (j\<lparr>i_op := ADDI, i_a1 := reg_operand reg (i_a1 j), i_a2 := reg_operand reg (i_a2 j), i_a3 := imm_operand lo (i_a3 j), i_orig_line := line\<rparr>) = Inr sj"
    "put_instr (k + 1) sj st1 = Inr st'"
    unfolding pseudo_li_def Let_def by (auto simp: result_simps split: if_splits)
  then show ?thesis
    using assms(2) by (elim append_put_wf) (simp_all add: P_pseudo)
qed

lemma pseudo_la_wf:
  assumes "pseudo_la cfg line k o1 o2 o3 st = Inr (c, st')" "em_wf P cfg n m st"
  shows "em_wf P cfg n m st'"
proof -
  from assms(1) obtain i st1 j reg l where
    "put_instr k (em_src st, i\<lparr>i_op := LUI, i_a1 := reg_operand reg (i_a1 i), i_a2 := label_operand l (i_a2 i), i_orig_line := line\<rparr>) st = Inr st1"
    "put_instr (k + 1) (em_src st1, j\<lparr>i_op := ADDI, i_a1 := reg_operand reg (i_a1 j), i_a2 := reg_operand reg (i_a2 j),
       i_a3 := label_operand l (i_a3 j), i_orig_line := line\<rparr>) st1 = Inr st'"
    unfolding pseudo_la_def by (auto simp: result_simps)
  moreover have "P (i\<lparr>i_op := LUI, i_a1 := a, i_a2 := b, i_orig_line := line\<rparr>)"
    "P (i\<lparr>i_op := ADDI, i_a1 := a, i_a2 := b, i_a3 := c, i_orig_line := line\<rparr>)" for i a b c
    by (simp_all add: P_pseudo)
  ultimately show ?thesis using assms(2) put_same_wf by metis
qed

lemma pseudo_branch_wf:
  assumes "pseudo_branch cfg line k ty name o1 o2 o3 st = Inr (c, st')" "em_wf P cfg n m st" "ty \<in> {BNE, BEQ}"
  shows "em_wf P cfg n m st'"
  using assms unfolding pseudo_branch_def
  by (auto simp: result_simps label_operand_def intro!: P_branch elim!: one_instr_wf)

lemma one_other_wf:
  assumes "one_instr cfg line k f oper a1 a2 a3 st = Inr (c, st')" "em_wf P cfg n m st" "\<And>i. i_op (f i) \<in> {JALR, JAL, ADDI}"
  shows "em_wf P cfg n m st'"
proof (rule one_instr_wf [OF assms(1,2)])
  fix i
  show "P (f i)" using assms(3) [of i] by (auto intro: P_pseudo)
qed

lemma pseudo_wf:
  assumes "parse_pseudoinstructions cfg line ftok k o1 o2 o3 o4 st = Inr (c, st')" "em_wf P cfg n m st"
  shows "em_wf P cfg n m st'"
  using assms unfolding parse_pseudoinstructions_def
  by (auto simp: result_simps elim!: pseudo_li_wf pseudo_la_wf pseudo_branch_wf [where ty = BNE] pseudo_branch_wf [where ty = BEQ] one_other_wf split: if_splits)

lemma directive_wf:
  assumes "parse_assembler_directive cfg ftok rest st = Inr st'" "em_wf P cfg n m st"
  shows "em_wf P cfg n m st'"
  using assms unfolding parse_assembler_directive_def Let_def
  by (auto simp: result_simps em_wf_def print_syntax_error_def dest!: parse_data_length split: if_splits)

lemma add_label_wf: "add_label cfg l st = Inr st' \<Longrightarrow> em_wf P cfg n m st \<Longrightarrow> em_wf P cfg n m st'"
  by (auto simp: add_label_def em_wf_def split: if_splits)

text \<open>The parsing of one instruction keeps \<open>P\<close> when the parser of its operands does.\<close>

lemma instr_body_wf:
  assumes "append_source cfg ftok o1 o2 o3 (em_src st) i = Inr (s, i1)" "put_instr k (s, i2) st = Inr st'" "P i2"
    and "em_wf P cfg n m st"
  shows "em_wf P cfg n m st'"
  using put_instr_wf [OF assms(2,4) _ assms(3)] append_source_keeps(1) [OF assms(1)] assms(4) by (simp add: em_wf_def)

lemma marked_wf:
  assumes "foldE (\<lambda>m i. mem_write (off + i * 4) mark_word m) (em_mem st) ks = Inr m'" "em_wf P cfg n m st"
  shows "em_wf P cfg n m (st\<lparr>em_mem := m', em_memoff := off'\<rparr>)"
proof -
  have "length m' = length (em_mem st)"
    by (rule foldE_invariant [OF assms(1), where P = "\<lambda>x. length x = length (em_mem st)"]) (auto dest: mem_write_length)
  with assms(2) show ?thesis by (simp add: em_wf_def)
qed

end

interpretation bl: instr_property branch_labelled
  by unfold_locales (auto simp: branch_labelled_def branch_ops_def)

lemma parse_operands_keeps:
  assumes "parse_operands cfg o1 o2 o3 o4 i = Inr i'"
  shows "branch_labelled i'"
proof (cases "i_op i \<in> branch_ops")
  case True
  then have "i_op i \<noteq> JAL" "\<not> (i_op i = JALR \<or> is_load (i_op i) \<or> is_store (i_op i))"
    "\<not> (i_op i \<in> alu_rr \<or> is_simd (i_op i))" "i_op i \<notin> alu_ri"
    by (auto simp: op_class_defs)
  with True assms show ?thesis
    unfolding parse_operands_def Let_def by (auto simp: result_simps label_operand_def branch_labelled_def)
next
  case False
  moreover have "i_op i' = i_op i"
    using assms unfolding parse_operands_def Let_def parse_reg_mem_def parse_regs3_def
    by (auto simp: result_simps split: if_splits)
  ultimately show ?thesis by (simp add: branch_labelled_def)
qed

lemma parse_instr_wf:
  assumes "parse_instr cfg line ftok rest st = Inr (c, st')" "em_wf branch_labelled cfg n m st"
  shows "em_wf branch_labelled cfg n m st'"
proof -
  from assms(1) obtain k o1 o2 o3 o4 pc st1 where ps: "parse_pseudoinstructions cfg line ftok k o1 o2 o3 o4 st = Inr (pc, st1)"
    and rest: "st' = st1 \<or> (\<exists>i s i1 i2. append_source cfg ftok o1 o2 o3 (em_src st1) i = Inr (s, i1)
       \<and> parse_operands cfg o1 o2 o3 o4 i1 = Inr i2 \<and> put_instr k (s, i2) st1 = Inr st')"
    unfolding parse_instr_def Let_def by (fastforce simp: result_simps split: if_splits prod.splits)
  from bl.pseudo_wf [OF ps assms(2)] rest show ?thesis
    using bl.instr_body_wf parse_operands_keeps by metis
qed

lemma instr_line_wf:
  assumes "parse_instr_line cfg line ftok rest st = Inr st'" "em_wf branch_labelled cfg n m st"
  shows "em_wf branch_labelled cfg n m st'"
  using assms by (auto simp: parse_instr_line_def result_simps intro: bl.marked_wf dest: parse_instr_wf)

lemma parse_line_wf:
  assumes "parse_line cfg line rbuf st = Inr st'" "em_wf branch_labelled cfg n m st"
  shows "em_wf branch_labelled cfg n m st'"
proof -
  obtain t rest where t: "strtok line_delims (map tolower_char rbuf) = (t, rest)" by fastforce
  obtain t2 rest2 where "strtok line_delims rest = (t2, rest2)" by fastforce
  with t assms show ?thesis
    unfolding parse_line_def
    by (cases t; cases t2) (auto simp: result_simps intro: bl.directive_wf instr_line_wf bl.add_label_wf split: if_splits)
qed

lemma parse_wf:
  assumes "parse cfg file st = Inr st'" "em_wf branch_labelled cfg n m st"
  shows "em_wf branch_labelled cfg n m st'"
proof -
  from assms(1) obtain ls where "foldE (\<lambda>st (k, l). parse_line cfg (int k) l st) st ls = Inr st'"
    by (auto simp: parse_def Let_def result_simps split: option.splits)
  then show ?thesis using assms(2) by (rule foldE_invariant) (auto split: prod.splits dest: parse_line_wf)
qed

text \<open>A branch at index \<open>k\<close> jumps to the first label of its name, less than 8 KiB away.\<close>

definition branch_resolved :: "label_loc list \<Rightarrow> nat \<Rightarrow> instr \<Rightarrow> bool" where
  "branch_resolved labels k i =
     (case find (\<lambda>e. l_label e = o_label (i_a3 i)) labels of
        None \<Rightarrow> False
      | Some e \<Rightarrow> o_imm (i_a3 i) = word_of_int (l_loc e) \<and> \<bar>int (k * 4) - sint (o_imm (i_a3 i))\<bar> < 2 ^ 13)"

definition no_label :: "instr \<Rightarrow> bool" where
  "no_label i \<longleftrightarrow> OPTYPE_LABEL \<notin> o_type ` {i_a1 i, i_a2 i, i_a3 i}"

definition normalized :: "sim_config \<Rightarrow> label_loc list \<Rightarrow> nat \<Rightarrow> instr \<Rightarrow> instr \<Rightarrow> bool" where
  "normalized cfg labels k i i' \<longleftrightarrow> i_op i' = i_op i \<and> (i_op i \<noteq> UNIMPL \<longrightarrow> no_label i'
     \<and> (error_aborts cfg \<and> i_op i \<in> branch_ops \<and> o_type (i_a3 i) = OPTYPE_LABEL \<longrightarrow> branch_resolved labels k i'))"

lemma resolve_result:
  assumes "resolve cfg labels a = Inr a'"
  shows "o_type a' = OPTYPE_IMM" "o_label a' = o_label a" "o_reg a' = o_reg a"
    "error_aborts cfg \<Longrightarrow> \<exists>e. find (\<lambda>e. l_label e = o_label a) labels = Some e \<and> o_imm a' = word_of_int (l_loc e)"
  using assms by (auto simp: resolve_def label_addr_def streq_def print_syntax_error_def log_error_def result_simps split: option.splits if_splits)

lemma normalize_a1_result:
  "normalize_a1 cfg labels i = Inr i' \<Longrightarrow> i_op i' = i_op i \<and> o_type (i_a1 i') \<noteq> OPTYPE_LABEL \<and> i_a2 i' = i_a2 i \<and> i_a3 i' = i_a3 i"
  by (auto simp: normalize_a1_def result_simps dest: resolve_result split: if_splits)

lemma normalize_a2_result:
  assumes "normalize_a2 cfg labels k (s, i) = Inr (s', i')" "length (s_src s) = max_src_len cfg"
  shows "i_op i' = i_op i \<and> i_a1 i' = i_a1 i \<and> o_type (i_a2 i') \<noteq> OPTYPE_LABEL \<and> i_a3 i' = i_a3 i \<and> length (s_src s') = max_src_len cfg"
proof (cases "o_type (i_a2 i) = OPTYPE_LABEL")
  case True
  with assms(1) obtain a where "resolve cfg labels (i_a2 i) = Inr a" by (auto simp: normalize_a2_def result_simps)
  with True assms resolve_result(1) [OF this] show ?thesis
    by (auto simp: normalize_a2_def result_simps Let_def check_target_def dest: append_source_keeps split: if_splits)
next
  case False
  then show ?thesis using assms by (auto simp: normalize_a2_def)
qed

lemma normalize_a3_result:
  assumes "normalize_a3 cfg labels k (s, i) = Inr (s', i')" "length (s_src s) = max_src_len cfg"
  shows "i_op i' = i_op i \<and> i_a1 i' = i_a1 i \<and> i_a2 i' = i_a2 i \<and> o_type (i_a3 i') \<noteq> OPTYPE_LABEL \<and> length (s_src s') = max_src_len cfg
    \<and> (error_aborts cfg \<and> i_op i \<in> branch_ops \<and> o_type (i_a3 i) = OPTYPE_LABEL \<longrightarrow> branch_resolved labels k i')"
proof (cases "o_type (i_a3 i) = OPTYPE_LABEL")
  case True
  with assms(1) obtain a where a: "resolve cfg labels (i_a3 i) = Inr a" by (auto simp: normalize_a3_def result_simps)
  note r = resolve_result [OF a]
  have "ADDI \<notin> branch_ops" by (simp add: branch_ops_def)
  with True a r assms show ?thesis
    by (auto simp: normalize_a3_def result_simps Let_def check_target_def branch_resolved_def
        dest: append_source_keeps split: if_splits)
next
  case False
  then show ?thesis using assms by (auto simp: normalize_a3_def)
qed

lemma normalize_one_result:
  assumes "normalize_one cfg k st = Inr st'" "length (s_src (em_src st)) = max_src_len cfg"
  shows "k < length (em_imem st)" "em_mem st' = em_mem st" "em_labels st' = em_labels st"
    "length (s_src (em_src st')) = max_src_len cfg"
    "\<exists>i. em_imem st' = (em_imem st)[k := i] \<and> normalized cfg (em_labels st) k (em_imem st ! k) i"
proof -
  let ?i = "em_imem st ! k"
  show k: "k < length (em_imem st)" using assms(1) by (auto simp: normalize_one_def get_instr_def result_simps)
  have "em_mem st' = em_mem st \<and> em_labels st' = em_labels st \<and> length (s_src (em_src st')) = max_src_len cfg
    \<and> (\<exists>i. em_imem st' = (em_imem st)[k := i] \<and> normalized cfg (em_labels st) k ?i i)"
  proof (cases "i_op ?i = UNIMPL")
    case True
    then have "st' = st" using assms(1) k by (simp add: normalize_one_def get_instr_ok)
    with True show ?thesis using assms(2) by (auto simp: normalized_def intro!: exI [of _ ?i])
  next
    case False
    with assms(1) k obtain i1 s2 i2 s3 i3 where n: "normalize_a1 cfg (em_labels st) ?i = Inr i1"
      "normalize_a2 cfg (em_labels st) k (em_src st, i1) = Inr (s2, i2)"
      "normalize_a3 cfg (em_labels st) k (s2, i2) = Inr (s3, i3)" and st': "put_instr k (s3, i3) st = Inr st'"
      by (simp add: normalize_one_def get_instr_ok bindE_eq_Inr) (metis surj_pair)
    note a1 = normalize_a1_result [OF n(1)]
    note a2 = normalize_a2_result [OF n(2) assms(2)]
    note a3 = normalize_a3_result [OF n(3) a2 [THEN conjunct2, THEN conjunct2, THEN conjunct2, THEN conjunct2]]
    have "normalized cfg (em_labels st) k ?i i3" using a1 a2 a3 by (auto simp: normalized_def no_label_def)
    then show ?thesis using st' k a3 by (auto simp: put_instr_ok)
  qed
  then show "em_mem st' = em_mem st" "em_labels st' = em_labels st" "length (s_src (em_src st')) = max_src_len cfg"
    "\<exists>i. em_imem st' = (em_imem st)[k := i] \<and> normalized cfg (em_labels st) k ?i i" by blast+
qed

lemma normalize_prefix:
  assumes "foldE (\<lambda>st k. normalize_one cfg k st) st [0..<j] = Inr st'" "length (s_src (em_src st)) = max_src_len cfg"
  shows "em_mem st' = em_mem st \<and> em_labels st' = em_labels st \<and> length (s_src (em_src st')) = max_src_len cfg
    \<and> length (em_imem st') = length (em_imem st) \<and> j \<le> length (em_imem st)
    \<and> (\<forall>k < j. normalized cfg (em_labels st) k (em_imem st ! k) (em_imem st' ! k))
    \<and> (\<forall>k. j \<le> k \<longrightarrow> em_imem st' ! k = em_imem st ! k)"
  using assms(1)
proof (induction j arbitrary: st')
  case 0
  then show ?case using assms(2) by simp
next
  case (Suc j)
  from Suc.prems obtain st1 where f: "foldE (\<lambda>st k. normalize_one cfg k st) st [0..<j] = Inr st1"
    and n: "normalize_one cfg j st1 = Inr st'"
    by (auto simp: foldE_append result_simps)
  note ih = Suc.IH [OF f]
  note r = normalize_one_result [OF n ih [THEN conjunct2, THEN conjunct2, THEN conjunct1]]
  from r(5) obtain i where i: "em_imem st' = (em_imem st1)[j := i]" "normalized cfg (em_labels st) j (em_imem st ! j) i"
    using ih by auto
  then show ?case using ih r(1-4) by (auto simp: nth_list_update less_Suc_eq)
qed

text \<open>
  Where the labels of a file are, read off its lines alone: a line has a label and code, either of which
  may be missing; an instruction takes one word, \<open>li\<close> and \<open>la\<close> two, data one element for each value, and the
  directives \<open>.text\<close> and \<open>.data\<close> move to the start of their segment.
\<close>

definition line_parts :: "string \<Rightarrow> string option \<times> (string \<times> string) option" where
  "line_parts l =
     (case strtok line_delims (map tolower_char l) of
        (None, _) \<Rightarrow> (None, None)
      | (Some t, rest) \<Rightarrow>
          if hd t = CHR ''#'' then (None, None)
          else if hd t \<noteq> CHR ''.'' \<and> last t = CHR '':''
          then (Some (butlast t), (case strtok line_delims rest of (None, _) \<Rightarrow> None | (Some u, rest') \<Rightarrow> Some (u, rest')))
          else (None, Some (t, rest)))"

function token_count :: "string \<Rightarrow> nat" where
  "token_count s = (case strtok line_delims s of (None, _) \<Rightarrow> 0 | (Some _, rest) \<Rightarrow> Suc (token_count rest))"
  by pat_completeness auto
termination
  by (relation "measure length") (auto dest: strtok_shorter [OF sym])

declare token_count.simps [simp del]

definition next_offset :: "sim_config \<Rightarrow> string \<Rightarrow> nat \<Rightarrow> nat" where
  "next_offset cfg l off =
     (case snd (line_parts l) of
        None \<Rightarrow> off
      | Some (t, rest) \<Rightarrow>
          if hd t \<noteq> CHR ''.'' then off + (if streq t ''li'' \<or> streq t ''la'' then 8 else 4)
          else if directive_is t ''.text'' then text_offset cfg
          else if directive_is t ''.data'' then data_offset cfg
          else off + (if directive_is t ''.byte'' then 1 else if directive_is t ''.half'' then 2 else 4) * token_count rest)"

fun file_labels :: "sim_config \<Rightarrow> string list \<Rightarrow> nat \<Rightarrow> label_loc list" where
  "file_labels cfg [] off = []"
| "file_labels cfg (l # ls) off =
     (case fst (line_parts l) of None \<Rightarrow> [] | Some n \<Rightarrow> [\<lparr>l_label = n, l_loc = int off\<rparr>]) @ file_labels cfg ls (next_offset cfg l off)"

text \<open>The parsing of an instruction changes neither the offset nor the labels, and counts its words.\<close>

definition same_place :: "emulator \<Rightarrow> emulator \<Rightarrow> bool" where
  "same_place st st' \<longleftrightarrow> em_memoff st' = em_memoff st \<and> em_labels st' = em_labels st"

lemma put_instr_place: "put_instr k si st = Inr st' \<Longrightarrow> same_place st st'"
  by (auto simp: put_instr_def same_place_def result_simps)

lemma one_instr_place: "one_instr cfg line k f oper a1 a2 a3 st = Inr (c, st') \<Longrightarrow> same_place st st' \<and> c = 1"
  by (auto simp: one_instr_def result_simps dest: put_instr_place)

lemma same_place_trans: "same_place a b \<Longrightarrow> same_place b c \<Longrightarrow> same_place a c"
  by (simp add: same_place_def)

lemma pseudo_li_place: "pseudo_li cfg line k o1 o2 o3 st = Inr (c, st') \<Longrightarrow> same_place st st' \<and> c = 2"
  unfolding pseudo_li_def Let_def by (auto simp: result_simps split: if_splits dest!: put_instr_place intro: same_place_trans)

lemma pseudo_la_place: "pseudo_la cfg line k o1 o2 o3 st = Inr (c, st') \<Longrightarrow> same_place st st' \<and> c = 2"
  unfolding pseudo_la_def by (auto simp: result_simps dest!: put_instr_place intro: same_place_trans)

lemma pseudo_place:
  assumes "parse_pseudoinstructions cfg line t k o1 o2 o3 o4 st = Inr (c, st')"
  shows "same_place st st'" "if streq t ''li'' \<or> streq t ''la'' then c = 2 else c = 0 \<or> c = 1"
  using assms unfolding parse_pseudoinstructions_def pseudo_branch_def
  by (auto simp: result_simps same_place_def dest: pseudo_li_place [unfolded same_place_def] pseudo_la_place [unfolded same_place_def]
      one_instr_place [unfolded same_place_def] split: if_splits)

lemma parse_instr_place:
  assumes "parse_instr cfg line t rest st = Inr (c, st')"
  shows "same_place st st' \<and> c = (if streq t ''li'' \<or> streq t ''la'' then 2 else 1)"
proof -
  from assms obtain k o1 o2 o3 o4 pc st1 where ps: "parse_pseudoinstructions cfg line t k o1 o2 o3 o4 st = Inr (pc, st1)"
    and rest: "(if 0 < pc then c = pc \<and> st' = st1 else c = 1 \<and> (\<exists>k si. put_instr k si st1 = Inr st'))"
    unfolding parse_instr_def Let_def by (fastforce simp: result_simps split: if_splits prod.splits)
  show ?thesis
    using pseudo_place [OF ps] rest by (auto split: if_splits dest!: put_instr_place intro: same_place_trans)
qed

lemma instr_line_place:
  assumes "parse_instr_line cfg line t rest st = Inr st'"
  shows "em_labels st' = em_labels st \<and> em_memoff st' = em_memoff st + (if streq t ''li'' \<or> streq t ''la'' then 8 else 4)"
  using assms by (auto simp: parse_instr_line_def result_simps same_place_def dest!: parse_instr_place split: if_splits)

lemma data_element_place: "parse_data_element sz rest mo = Inr (m', off') \<Longrightarrow> off' = snd mo + sz * token_count rest"
proof (induction sz rest mo rule: parse_data_element.induct)
  case (1 sz rest m off)
  show ?case
  proof (cases "strtok line_delims rest")
    case (Pair t rest')
    show ?thesis
    proof (cases t)
      case None
      then show ?thesis using 1(2) Pair by (simp add: parse_data_element.simps [of sz rest] token_count.simps [of rest])
    next
      case (Some u)
      from 1(2) Pair Some obtain bs m1 where "data_value sz u = Inr bs" "mem_write off bs m = Inr m1"
        "parse_data_element sz rest' (m1, off + sz) = Inr (m', off')"
        by (auto simp: parse_data_element.simps [of sz rest] result_simps)
      from 1(1) [OF Pair [symmetric] Some this] show ?thesis
        by (simp add: token_count.simps [of rest] Pair Some)
    qed
  qed
qed

lemma directive_place:
  assumes "parse_assembler_directive cfg t rest st = Inr st'"
  shows "em_labels st' = em_labels st \<and> em_memoff st' = (if directive_is t ''.text'' then text_offset cfg
    else if directive_is t ''.data'' then data_offset cfg
    else em_memoff st + (if directive_is t ''.byte'' then 1 else if directive_is t ''.half'' then 2 else 4) * token_count rest)"
  using assms unfolding parse_assembler_directive_def Let_def
  by (auto simp: result_simps print_syntax_error_def dest!: data_element_place split: if_splits)

lemma parse_line_place:
  assumes "parse_line cfg line l st = Inr st'"
  shows "em_labels st' = em_labels st @ (case fst (line_parts l) of None \<Rightarrow> [] | Some n \<Rightarrow> [\<lparr>l_label = n, l_loc = int (em_memoff st)\<rparr>])"
    "em_memoff st' = next_offset cfg l (em_memoff st)"
proof -
  obtain t rest where t: "strtok line_delims (map tolower_char l) = (t, rest)" by fastforce
  obtain t2 rest2 where t2: "strtok line_delims rest = (t2, rest2)" by fastforce
  have lab: "em_labels s' = em_labels s @ [\<lparr>l_label = n, l_loc = int (em_memoff s)\<rparr>] \<and> em_memoff s' = em_memoff s"
    if "add_label cfg n s = Inr s'" for n s s'
    using that by (auto simp: add_label_def split: if_splits)
  have "em_labels st' = em_labels st @ (case fst (line_parts l) of None \<Rightarrow> [] | Some n \<Rightarrow> [\<lparr>l_label = n, l_loc = int (em_memoff st)\<rparr>])
    \<and> em_memoff st' = next_offset cfg l (em_memoff st)"
  proof (cases t)
    case None
    with t have "line_parts l = (None, None)" "st' = st" using assms by (simp_all add: line_parts_def parse_line_def)
    then show ?thesis by (simp add: next_offset_def)
  next
    case (Some a)
    consider (comment) "hd a = CHR ''#''" | (directive) "hd a = CHR ''.''"
      | (label) "hd a \<noteq> CHR ''#''" "hd a \<noteq> CHR ''.''" "last a = CHR '':''"
      | (code) "hd a \<noteq> CHR ''#''" "hd a \<noteq> CHR ''.''" "last a \<noteq> CHR '':''" by blast
    then show ?thesis
    proof cases
      case comment
      with t Some have "line_parts l = (None, None)" "st' = st" using assms by (simp_all add: line_parts_def parse_line_def)
      then show ?thesis by (simp add: next_offset_def)
    next
      case directive
      with t Some have "line_parts l = (None, Some (a, rest))" "parse_assembler_directive cfg a rest st = Inr st'"
        using assms by (simp_all add: line_parts_def parse_line_def)
      then show ?thesis using directive directive_place by (simp add: next_offset_def)
    next
      case code
      with t Some have "line_parts l = (None, Some (a, rest))" "parse_instr_line cfg line a rest st = Inr st'"
        using assms by (simp_all add: line_parts_def parse_line_def)
      then show ?thesis using code instr_line_place by (simp add: next_offset_def)
    next
      case label
      from assms obtain st1 where st1: "add_label cfg (butlast a) st = Inr st1"
        and r: "(case t2 of None \<Rightarrow> st' = st1 | Some u \<Rightarrow>
          if hd u = CHR ''.'' then parse_assembler_directive cfg u rest2 st1 = Inr st' else parse_instr_line cfg line u rest2 st1 = Inr st')"
        by (cases t2) (use t Some label t2 in \<open>auto simp: parse_line_def result_simps split: if_splits\<close>)
      have "line_parts l = (Some (butlast a), (case t2 of None \<Rightarrow> None | Some u \<Rightarrow> Some (u, rest2)))"
        using t t2 Some label by (simp add: line_parts_def)
      then show ?thesis
        using lab [OF st1] r directive_place [of cfg _ rest2 st1 st'] instr_line_place [of cfg line _ rest2 st1 st']
        by (cases t2) (auto simp: next_offset_def)
    qed
  qed
  then show "em_labels st' = em_labels st @ (case fst (line_parts l) of None \<Rightarrow> [] | Some n \<Rightarrow> [\<lparr>l_label = n, l_loc = int (em_memoff st)\<rparr>])"
    "em_memoff st' = next_offset cfg l (em_memoff st)" by blast+
qed

lemma parse_lines_labels:
  "foldE (\<lambda>st (k, l). parse_line cfg (int k) l st) st (zip [j..<j + length ls] ls) = Inr st' \<Longrightarrow>
   em_labels st' = em_labels st @ file_labels cfg ls (em_memoff st)"
proof (induction ls arbitrary: st j)
  case (Cons l ls)
  have "[j..<j + length (l # ls)] = j # [Suc j..<Suc j + length ls]" by (simp add: upt_rec)
  with Cons.prems obtain st1 where st1: "parse_line cfg (int j) l st = Inr st1"
    "foldE (\<lambda>st (k, l). parse_line cfg (int k) l st) st1 (zip [Suc j..<Suc j + length ls] ls) = Inr st'"
    by (auto simp: result_simps)
  from Cons.IH [OF st1(2)] parse_line_place [OF st1(1)] show ?case by simp
qed simp

lemma parse_labels:
  assumes "parse cfg file (emulator_new cfg m im) = Inr st"
  obtains content where "file = Some content" "em_labels st = file_labels cfg (read_lines 1023 content) 0"
proof -
  from assms obtain content where c: "file = Some content"
    by (cases "(file)") (auto simp: parse_def log_error_def split: if_splits)
  let ?ls = "read_lines 1023 content"
  have "foldE (\<lambda>st (k, l). parse_line cfg (int k) l st) (emulator_new cfg m im) (zip [1..<1 + length ?ls] ?ls) = Inr st"
    using assms c by (simp add: parse_def Let_def)
  from parse_lines_labels [OF this] c show thesis by (intro that [of content]) (simp_all add: emulator_new_def)
qed

lemma assembled_resolved:
  assumes "bindE (parse cfg file (emulator_new cfg m im)) (normalize_labels cfg) = Inr st"
    and "\<forall>i \<in> set im. i_op i \<notin> branch_ops" "error_aborts cfg"
  shows "length (em_mem st) = length m \<and> length (em_imem st) = length im
    \<and> length (em_labels st) \<le> max_label_count cfg \<and> (\<forall>e \<in> set (em_labels st). length (l_label e) < MAX_LABEL_LEN)
    \<and> (\<exists>content. file = Some content \<and> em_labels st = file_labels cfg (read_lines 1023 content) 0)
    \<and> (\<forall>k < data_offset cfg div 4. let i = em_imem st ! k in
         i_op i \<noteq> UNIMPL \<longrightarrow> no_label i \<and> (i_op i \<in> branch_ops \<longrightarrow> branch_resolved (em_labels st) k i))"
proof -
  from assms(1) obtain st1 where p: "parse cfg file (emulator_new cfg m im) = Inr st1" and n: "normalize_labels cfg st1 = Inr st"
    by (auto simp: result_simps)
  have "em_wf branch_labelled cfg (length m) (length im) (emulator_new cfg m im)"
    using assms(2) by (simp add: em_wf_def emulator_new_def branch_labelled_def)
  then have wf: "em_wf branch_labelled cfg (length m) (length im) st1" by (rule parse_wf [OF p])
  then have "length (s_src (em_src st1)) = max_src_len cfg" by (simp add: em_wf_def)
  note r = normalize_prefix [OF n [unfolded normalize_labels_def] this]
  have "branch_labelled (em_imem st1 ! k)" if "k < data_offset cfg div 4" for k
    using that r wf by (simp add: em_wf_def)
  moreover obtain content where "file = Some content" "em_labels st1 = file_labels cfg (read_lines 1023 content) 0"
    by (rule parse_labels [OF p])
  ultimately show ?thesis
    using r wf assms(3) by (auto simp: em_wf_def normalized_def branch_labelled_def Let_def)
qed

definition tiny_config :: sim_config where
  "tiny_config = default_config\<lparr>memory_size := 16, data_offset := 8, max_src_len := 64\<rparr>"

definition tiny_branch :: instr where
  "tiny_branch = blank_instr\<lparr>i_op := BEQ, i_a1 := reg_operand 1 blank_operand, i_a2 := reg_operand 0 blank_operand,
     i_a3 := label_operand ''x'' blank_operand, i_psrc := Some 0, i_orig_line := 1\<rparr>"

lemma tiny_line:
  "\<exists>m s. parse_line tiny_config 1 ''x: beqz ra x'' (emulator_new tiny_config (replicate 16 0) (replicate 2 blank_instr))
     = Inr \<lparr>em_mem = m, em_imem = [tiny_branch, blank_instr], em_memoff = 4, em_labels = [\<lparr>l_label = ''x'', l_loc = 0\<rparr>], em_src = s\<rparr>"
proof -
  let ?st = "emulator_new tiny_config (replicate 16 0) (replicate 2 blank_instr)"
  let ?st1 = "?st\<lparr>em_labels := [\<lparr>l_label = ''x'', l_loc = 0\<rparr>]\<rparr>"
  have low: "map tolower_char ''x: beqz ra x'' = ''x: beqz ra x''" by (simp add: tolower_char_def)
  have tok: "strtok line_delims ''x: beqz ra x'' = (Some ''x:'', ''beqz ra x'')"
    "strtok line_delims ''beqz ra x'' = (Some ''beqz'', ''ra x'')"
    "strtok operand_delims ''ra x'' = (Some ''ra'', ''x'')" "strtok operand_delims ''x'' = (Some ''x'', [])"
    "strtok operand_delims [] = (None, [])"
    by (simp_all add: strtok_def line_delims_def operand_delims_def)
  have reg: "parse_reg cfg ''ra'' = Inr 1" for cfg by (simp add: parse_reg_def abi_names_def)
  have lab: "add_label tiny_config ''x'' ?st = Inr ?st1"
    by (simp add: add_label_def emulator_new_def MAX_LABEL_LEN_def tiny_config_def default_config_def)
  obtain s where ins: "parse_instr tiny_config 1 ''beqz'' ''ra x'' ?st1 = Inr (1, ?st1\<lparr>em_imem := [tiny_branch, blank_instr], em_src := s\<rparr>)"
    by (simp add: parse_instr_def tok parse_pseudoinstructions_def streq_def pseudo_branch_def format_check_def tok_get_def reg
        one_instr_def get_instr_def put_instr_def append_source_def source_line_def emulator_new_def
        tiny_config_def default_config_def tiny_branch_def numeral_2_eq_2 blank_instr_def)
  have "mem_write 0 mark_word (replicate 16 0) = Inr (blit (replicate 16 0) 0 mark_word)" by (simp add: mem_write_def mark_word_def)
  then have "parse_instr_line tiny_config 1 ''beqz'' ''ra x'' ?st1 = Inr \<lparr>em_mem = blit (replicate 16 0) 0 mark_word,
      em_imem = [tiny_branch, blank_instr], em_memoff = 4, em_labels = [\<lparr>l_label = ''x'', l_loc = 0\<rparr>], em_src = s\<rparr>"
    unfolding parse_instr_line_def ins by (simp add: emulator_new_def)
  moreover have "parse_line tiny_config 1 ''x: beqz ra x'' ?st = parse_instr_line tiny_config 1 ''beqz'' ''ra x'' ?st1"
    unfolding parse_line_def low tok by (simp add: lab tok)
  ultimately show ?thesis by simp
qed

lemma tiny_assembles:
  "\<exists>st. bindE (parse tiny_config (Some ''x: beqz ra x'') (emulator_new tiny_config (replicate 16 0) (replicate 2 blank_instr)))
      (normalize_labels tiny_config) = Inr st \<and> i_op (em_imem st ! 0) = BEQ"
proof -
  let ?st = "emulator_new tiny_config (replicate 16 0) (replicate 2 blank_instr)"
  obtain m s where line: "parse_line tiny_config 1 ''x: beqz ra x'' ?st = Inr \<lparr>em_mem = m, em_imem = [tiny_branch, blank_instr],
      em_memoff = 4, em_labels = [\<lparr>l_label = ''x'', l_loc = 0\<rparr>], em_src = s\<rparr>"
    using tiny_line by blast
  have "read_lines 1023 ''x: beqz ra x'' = [''x: beqz ra x'']" by (rule read_lines_one) simp_all
  then have p: "parse tiny_config (Some ''x: beqz ra x'') ?st = Inr \<lparr>em_mem = m, em_imem = [tiny_branch, blank_instr],
      em_memoff = 4, em_labels = [\<lparr>l_label = ''x'', l_loc = 0\<rparr>], em_src = s\<rparr>"
    using line by (simp add: parse_def)
  show ?thesis
    unfolding p
    by (simp add: normalize_labels_def normalize_one_def get_instr_def normalize_a1_def normalize_a2_def normalize_a3_def
        resolve_def label_addr_def streq_def check_target_def put_instr_def tiny_branch_def blank_instr_def blank_operand_def
        reg_operand_def label_operand_def MAX_LABEL_LEN_def branch_ops_def tiny_config_def default_config_def upt_rec)
qed

end
