(* ===== verification/SOC.thy ===== *)
theory SOC
  imports RiscvCPU DMA SystolicArray Emulator
begin

text \<open>
  The system of \<open>soc/include/SOC.hh\<close>: the CPU, the data memory, the DMA controller, the CFU, the
  systolic array and the crossbar between them. The crossbar is a class of ACALSim; what
  \<open>SOC.hh\<close> decides is which component hangs on which index of its request and response side, and
  this is what \<open>soc_request\<close> and \<open>soc_response\<close> model. Loading the program is \<open>postSimInitSetup\<close>.
  The states the system starts from, the programs it is verified for and the packets with which the array
  programs the DMA controller follow; the runs of the system are in \<open>SocRuns\<close>.
\<close>

section \<open>The system\<close>

record 'r soc =
  soc_cpu :: "'r cpu"
  soc_dmem :: "'r data_memory"
  soc_dma :: "'r dma"
  soc_cfu :: cfu
  soc_sa :: "'r sa"
  soc_ctr :: int

text \<open>
  \<open>registerSimulators\<close> and the \<open>init\<close> of the simulators. \<open>rc\<close> and \<open>rd\<close> are the registers of the crossbar
  the CPU and the data memory send to; the new DMA controller, array and CFU are arguments, because
  their constructors leave members uninitialised.
\<close>

definition soc_new :: "sim_config \<Rightarrow> nat \<Rightarrow> 'r \<Rightarrow> 'r \<Rightarrow> 'r dma \<Rightarrow> 'r sa \<Rightarrow> cfu \<Rightarrow> 'r soc" where
  "soc_new cfg now rc rd d a u =
     \<lparr>soc_cpu = cpu_init cfg now rc, soc_dmem = dm_new (memory_size cfg) rd, soc_dma = d, soc_cfu = u, soc_sa = a, soc_ctr = 0\<rparr>"

fun dst_of :: "sim_packet \<Rightarrow> nat" where
  "dst_of (ReadReq p) = dst_idx p"
| "dst_of (WriteReq p) = dst_idx p"
| "dst_of (ReadResp p) = dst_idx p"
| "dst_of (WriteResp p) = dst_idx p"

text \<open>The request side: slave 0 is the data memory, 1 the DMA controller, 2 the systolic array.\<close>

definition soc_request :: "'r reg_ops \<Rightarrow> sim_config \<Rightarrow> nat \<Rightarrow> sim_packet \<Rightarrow> 'r soc \<Rightarrow> 'r soc result" where
  "soc_request ops cfg now p x =
     (if dst_of p = 0 then bindE (dm_step ops cfg now (Some p) (soc_dmem x)) (\<lambda>d. Inr (x\<lparr>soc_dmem := d\<rparr>))
      else if dst_of p = 1 then
        bindE (dma_step ops cfg now (soc_ctr x) (Some p) (soc_dma x)) (\<lambda>(d, c). Inr (x\<lparr>soc_dma := d, soc_ctr := c\<rparr>))
      else if dst_of p = 2 then
        bindE (sa_step ops cfg now (soc_ctr x) (Some p) (soc_sa x)) (\<lambda>(d, c). Inr (x\<lparr>soc_sa := d, soc_ctr := c\<rparr>))
      else Inl (OutOfBounds ''CrossBar''))"

text \<open>The response side: 0 is the CPU, 1 the DMA controller, 2 the systolic array.\<close>

definition soc_response :: "'r reg_ops \<Rightarrow> sim_config \<Rightarrow> nat \<Rightarrow> sim_packet \<Rightarrow> 'r soc \<Rightarrow> 'r soc result" where
  "soc_response ops cfg now p x =
     (if dst_of p = 0 then bindE (cpu_step cfg now (Some p) (soc_cpu x)) (\<lambda>c. Inr (x\<lparr>soc_cpu := c\<rparr>))
      else if dst_of p = 1 then
        bindE (dma_step ops cfg now (soc_ctr x) (Some p) (soc_dma x)) (\<lambda>(d, c). Inr (x\<lparr>soc_dma := d, soc_ctr := c\<rparr>))
      else if dst_of p = 2 then
        bindE (sa_step ops cfg now (soc_ctr x) (Some p) (soc_sa x)) (\<lambda>(d, c). Inr (x\<lparr>soc_sa := d, soc_ctr := c\<rparr>))
      else Inl (OutOfBounds ''CrossBar''))"

text \<open>The assembler writes into the array of the data memory and the instruction memory of the CPU.\<close>

definition postSimInitSetup :: "sim_config \<Rightarrow> string option \<Rightarrow> 'r soc \<Rightarrow> 'r soc result" where
  "postSimInitSetup cfg file x =
     bindE (parse cfg file (emulator_new cfg (mem (dm_base (soc_dmem x))) (cpu_imem (soc_cpu x)))) (\<lambda>e.
     bindE (normalize_labels cfg e) (\<lambda>e'.
       Inr (x\<lparr>soc_cpu := (soc_cpu x)\<lparr>cpu_imem := em_imem e'\<rparr>,
              soc_dmem := (soc_dmem x)\<lparr>dm_base := (dm_base (soc_dmem x))\<lparr>mem := em_mem e'\<rparr>\<rparr>\<rparr>)))"

section \<open>The CFU\<close>

text \<open>
  The channels between the CPU and the CFU: a request is visited by the CFU, which answers with a response,
  and this by the CPU.
\<close>

definition CFUReqPacket_visit :: "sim_config \<Rightarrow> cfu_req_packet \<Rightarrow> 'r soc \<Rightarrow> (cfu_resp_packet \<times> 'r soc) result" where
  "CFUReqPacket_visit cfg p x = bindE (packet_handler cfg p (soc_cfu x)) (\<lambda>(r, u). Inr (r, x\<lparr>soc_cfu := u\<rparr>))"

definition CFURespPacket_visit :: "nat \<Rightarrow> cfu_resp_packet \<Rightarrow> 'r soc \<Rightarrow> 'r soc result" where
  "CFURespPacket_visit now p x = bindE (CFURespHandler now p (soc_cpu x)) (\<lambda>c. Inr (x\<lparr>soc_cpu := c\<rparr>))"

section \<open>The part of a state the reference machine has\<close>

definition soc_abs :: "'r soc \<Rightarrow> isa" where
  "soc_abs x = \<lparr>isa_rf = cpu_rf (soc_cpu x), isa_pc = cpu_pc (soc_cpu x), isa_mem = dm_base (soc_dmem x)\<rparr>"

text \<open>Nothing is queued or pending.\<close>

definition soc_ok :: "'r soc \<Rightarrow> bool" where
  "soc_ok x \<longleftrightarrow> cpu_ok (soc_cpu x) \<and> cpu_request_queue (soc_cpu x) = []
     \<and> cpu_cfu_chan (soc_cpu x) = [] \<and> dm_pending (soc_dmem x) = Map.empty \<and> dm_respQ (soc_dmem x) = []"

text \<open>The instructions treated here: regular, also those of the CFU, and every access goes to the data memory.\<close>

definition simd_regular :: "instr \<Rightarrow> bool" where
  "simd_regular i \<longleftrightarrow> (is_simd (i_op i) \<longrightarrow> reg_ok (i_a1 i) \<and> reg_ok (i_a2 i) \<and> reg_ok (i_a3 i) \<and> o_reg (i_a1 i) \<noteq> 0)"

definition soc_regular :: "isa \<Rightarrow> instr \<Rightarrow> bool" where
  "soc_regular t i \<longleftrightarrow> isa_regular t i \<and> simd_regular i
     \<and> (is_load (i_op i) \<or> is_store (i_op i) \<longrightarrow> slaveIndex (isa_rf t ! nat (o_reg (i_a2 i)) + o_imm (i_a3 i)) = 0)"

abbreviation single :: "'p \<Rightarrow> nat \<Rightarrow> nat \<Rightarrow> int \<Rightarrow> 'p xbar_packet" where
  "single q src dst tid \<equiv> renew_packet 0 [q] src dst (Some tid)"

lemma beat_events_one: "beat_events now lat f [q] = [(now + lat, f q)]"
  by (simp add: beat_events_def)

lemma soc_response_cpu:
  "soc_response ops cfg now (ReadResp (setTID tid (Construct_MemReadRespPkt [b] ''dm'' ''cpu''))) y =
     bindE (memReadRespHandler now b (soc_cpu y)) (\<lambda>c. Inr (y\<lparr>soc_cpu := c\<rparr>))"
  "soc_response ops cfg now (WriteResp (setTID tid (Construct_MemWriteRespPkt [w] ''dm'' ''cpu''))) y = Inr y"
  by (simp_all add: soc_response_def packet_defs cpu_step_def memReadXBarRespHandler_def memWriteXBarRespHandler_def
      bindE_def split: sum.split)

lemma isa_step_load:
  assumes "is_load (i_op i)"
  shows "isa_step i t = bindE (bm.load_at (isa_mem t) (i_op i) (isa_rf t ! nat (o_reg (i_a2 i)) + o_imm (i_a3 i)))
     (\<lambda>v. Inr (t\<lparr>isa_rf := isa_write (i_a1 i) v (isa_rf t), isa_pc := isa_pc t + 4\<rparr>))"
  using assms by (auto simp: isa_step_def op_class_defs Let_def)

lemma isa_step_store:
  assumes "is_store (i_op i)"
  shows "isa_step i t = bindE (bm.store_at (isa_mem t) (i_op i) (isa_rf t ! nat (o_reg (i_a2 i)) + o_imm (i_a3 i)) (isa_rf t ! nat (o_reg (i_a1 i))))
     (\<lambda>m. Inr (t\<lparr>isa_mem := m, isa_pc := isa_pc t + 4\<rparr>))"
  using assms by (auto simp: isa_step_def op_class_defs Let_def)

lemma isa_step_simd:
  assumes "is_simd (i_op i)"
  shows "isa_step i t = Inr (t\<lparr>isa_rf := isa_write (i_a1 i) (simd_alu (i_op i) (isa_rf t ! nat (o_reg (i_a2 i))) (isa_rf t ! nat (o_reg (i_a3 i)))) (isa_rf t),
     isa_pc := isa_pc t + 4\<rparr>)"
  using assms by (cases "i_op i") (simp_all add: isa_step_def op_class_defs Let_def)

section \<open>Programs and initial states\<close>

definition soc_regular_program :: "instr list \<Rightarrow> isa \<Rightarrow> bool" where
  "soc_regular_program im t \<longleftrightarrow>
     (\<forall>n u i. isa_run im n t = Inr u \<longrightarrow> array_get ''imem'' im (int (unat (isa_pc u) div 4)) = Inr i \<longrightarrow> soc_regular u i)"

text \<open>The state before the first instruction.\<close>

definition soc_start :: "'r soc \<Rightarrow> bool" where
  "soc_start x \<longleftrightarrow> soc_ok x \<and> cpu_inst_cnt (soc_cpu x) = 0 \<and> (\<exists>t. cpu_events (soc_cpu x) = [t])"

lemma soc_new_start: "soc_start (soc_new cfg now rc rd d a u)"
  by (simp add: soc_start_def soc_new_def soc_ok_def cpu_ok_def cpu_init_def dm_new_def)

section \<open>The array drives the DMA controller\<close>

definition sa_store :: "int \<Rightarrow> u32 \<Rightarrow> u32 \<Rightarrow> sim_packet" where
  "sa_store tid a v = WriteReq (single \<lparr>wq_caller = ''sa'', wq_tid = tid, wq_instr = blank_instr, wq_op = SW, wq_addr = a, wq_data = v\<rparr> 2 1 tid)"

definition dma_program :: "int \<Rightarrow> u32 \<Rightarrow> u32 \<Rightarrow> u32 \<Rightarrow> sim_packet list" where
  "dma_program ctr src dst c =
     [sa_store ctr 0xF004 src, sa_store (ctr + 1) 0xF008 dst, sa_store (ctr + 2) 0xF00C c, sa_store (ctr + 3) 0xF000 1]"

lemma sa_dma_program_packets:
  "sa_dma_program src dst c (s, ctr) = (s\<lparr>sa_req_Q := sa_req_Q s @ dma_program ctr src dst c\<rparr>, ctr + 4)"
  by (simp add: sa_dma_program_def sa_queue_write_def Construct_MemWritepkt_non_burst_def generateTransactionID_def
      dma_program_def sa_store_def slaveIndex_def DMA_MMIO_BASE_def DMA_MMIO_END_def add.commute [of ctr])

lemma sa_enable_packets:
  assumes "bit data 0" "A_addr s mod 4 = 0" "B_addr s mod 4 = 0" "C_addr s mod 4 = 0"
    and "sint (sa_M s * sa_K s) \<le> 2048" "sint (sa_K s * sa_N s) \<le> 2048"
  shows "\<exists>s'. sa_reg_write cfg now ctr 0 data s = Inr (s', ctr + 4) \<and> sa_req_Q s' = sa_req_Q s @
    dma_program ctr (A_addr_dm s) (A_addr s + SA_MEMORY_BASE) (dma_size_cfg (strideA s) (sa_K s) (sa_M s))
    \<and> sram s' = sram s \<and> sa_pending s' = sa_pending s \<and> sa_resp_Q s' = sa_resp_Q s \<and> sa_m_resp s' = sa_m_resp s"
proof -
  have "data AND 1 \<noteq> 0" using assms(1) by (simp add: and_one_eq odd_iff_mod_2_eq_one bit_0)
  then show ?thesis
    using assms(2-) by (simp add: sa_reg_write_def sa_initialized_transaction_def AskDMAtoWrite_matA_def byte_mask_ucast
        sa_dma_program_packets PokeDMAReady_def sa_schedule_def Let_def dma_size_cfg_def)
qed

text \<open>The four bytes of the size register.\<close>

lemma dma_size_cfg_bytes:
  assumes "unat st < 256" "0 < unat w" "unat w \<le> 256" "0 < unat h" "unat h \<le> 256"
  shows "cfg_byte (dma_size_cfg st w h) 24 = unat st" "cfg_byte (dma_size_cfg st w h) 16 = unat st"
    "cfg_byte (dma_size_cfg st w h) 8 + 1 = unat w" "cfg_byte (dma_size_cfg st w h) 0 + 1 = unat h"
proof -
  have fields: "drop_bit 24 (dma_size_cfg st w h) AND 0xFF = take_bit 8 st"
    "drop_bit 16 (dma_size_cfg st w h) AND 0xFF = take_bit 8 st"
    "drop_bit 8 (dma_size_cfg st w h) AND 0xFF = take_bit 8 (w - 1)"
    "drop_bit 0 (dma_size_cfg st w h) AND 0xFF = take_bit 8 (h - 1)"
    by ((rule bit_word_eqI, auto simp: dma_size_cfg_def and_mask_simps bit_simps)+)
  have small: "unat (take_bit 8 v) = unat v" if "unat v < 256" for v :: u32
    using that by (simp add: unsigned_take_bit_eq take_bit_nat_eq_self)
  have pred: "unat (v - 1) = unat v - 1" if "0 < unat v" for v :: u32
    using that by (intro unat_minus_one) auto
  show "cfg_byte (dma_size_cfg st w h) 24 = unat st" "cfg_byte (dma_size_cfg st w h) 16 = unat st"
    "cfg_byte (dma_size_cfg st w h) 8 + 1 = unat w" "cfg_byte (dma_size_cfg st w h) 0 + 1 = unat h"
    unfolding cfg_byte_def fields using assms by (simp_all add: small pred)
qed

text \<open>A register store delivered to the controller: pending packets are sent first, then the register is written.\<close>

definition dma_flush :: "'r reg_ops \<Rightarrow> 'r dma \<Rightarrow> 'r dma" where
  "dma_flush ops s = (if req_Q s \<noteq> [] \<or> resp_Q s \<noteq> [] then dma_trySendPacket ops s else s)"

lemma dma_flush_fields [simp]:
  "srcAddr (dma_flush ops s) = srcAddr s" "dstAddr (dma_flush ops s) = dstAddr s" "dmaSizeCfg (dma_flush ops s) = dmaSizeCfg s"
  "bufferMemory (dma_flush ops s) = bufferMemory s"
  by (simp_all add: dma_flush_def dma_trySendPacket_def split: prod.split)

lemma soc_request_store:
  "\<exists>q t. soc_request ops cfg now (sa_store tid a v) x =
     bindE (dma_reg_write ops cfg (soc_ctr x) (a AND 0x3F) v (dma_flush ops (soc_dma x)))
       (\<lambda>(d, c). Inr (x\<lparr>soc_dma := d\<lparr>resp_Q := resp_Q d @ q, dma_events := dma_events d @ [(t, DmaTrySend)]\<rparr>, soc_ctr := c\<rparr>))"
  by (auto simp: soc_request_def sa_store_def renew_packet_def dma_step_def dma_flush_def burst_size_of_def Let_def
      dma_writeMMIO_def dma_caller_ok_def dma_schedule_def bindE_assoc split_def intro!: exI)

lemma soc_store_cfg:
  assumes "a \<in> dma_cfg_regs"
  shows "\<exists>x'. soc_request ops cfg now (sa_store tid a v) x = Inr x' \<and> soc_ctr x' = soc_ctr x
    \<and> srcAddr (soc_dma x') = (if a = 0xF004 then v else srcAddr (soc_dma x))
    \<and> dstAddr (soc_dma x') = (if a = 0xF008 then v else dstAddr (soc_dma x))
    \<and> dmaSizeCfg (soc_dma x') = (if a = 0xF00C then v else dmaSizeCfg (soc_dma x))
    \<and> bufferMemory (soc_dma x') = bufferMemory (soc_dma x)"
proof -
  obtain q t where "soc_request ops cfg now (sa_store tid a v) x =
     bindE (dma_reg_write ops cfg (soc_ctr x) (a AND 0x3F) v (dma_flush ops (soc_dma x)))
       (\<lambda>(d, c). Inr (x\<lparr>soc_dma := d\<lparr>resp_Q := resp_Q d @ q, dma_events := dma_events d @ [(t, DmaTrySend)]\<rparr>, soc_ctr := c\<rparr>))"
    using soc_request_store [of ops cfg now tid a v x] by blast
  with assms show ?thesis unfolding dma_cfg_regs_def
    by (elim insertE emptyE) (simp_all add: dma_reg_write_def)
qed

lemma dma_program_starts:
  assumes "reg_contract ops sent" "length (bufferMemory (soc_dma x)) = 256"
  shows "\<exists>x'. foldE (\<lambda>y p. soc_request ops cfg now p y) x (dma_program tid src dst c) = Inr x'
    \<and> enabled (soc_dma x') \<and> \<not> dma_done (soc_dma x') \<and> currentState (soc_dma x') = READING
    \<and> srcAddr (soc_dma x') = src \<and> dstAddr (soc_dma x') = dst
    \<and> true_width (soc_dma x') = cfg_byte c 8 + 1 \<and> true_height (soc_dma x') = cfg_byte c 0 + 1
    \<and> Source_stride (soc_dma x') = cfg_byte c 24 \<and> Dest_stride (soc_dma x') = cfg_byte c 16
    \<and> pendingBusReadResponses (soc_dma x') = 1 \<and> wordsTransferred (soc_dma x') = 0"
proof -
  have regs: "0xF004 \<in> dma_cfg_regs" "0xF008 \<in> dma_cfg_regs" "0xF00C \<in> dma_cfg_regs" by (simp_all add: dma_cfg_regs_def)
  obtain x1 where x1: "soc_request ops cfg now (sa_store tid 0xF004 src) x = Inr x1" "srcAddr (soc_dma x1) = src"
    "bufferMemory (soc_dma x1) = bufferMemory (soc_dma x)"
    using soc_store_cfg [OF regs(1), of ops cfg now tid src x] by auto
  obtain x2 where x2: "soc_request ops cfg now (sa_store (tid + 1) 0xF008 dst) x1 = Inr x2" "srcAddr (soc_dma x2) = src"
    "dstAddr (soc_dma x2) = dst" "bufferMemory (soc_dma x2) = bufferMemory (soc_dma x)"
    using soc_store_cfg [OF regs(2), of ops cfg now "tid + 1" dst x1] x1 by auto
  obtain x3 where x3: "soc_request ops cfg now (sa_store (tid + 2) 0xF00C c) x2 = Inr x3" "srcAddr (soc_dma x3) = src"
    "dstAddr (soc_dma x3) = dst" "dmaSizeCfg (soc_dma x3) = c" "bufferMemory (soc_dma x3) = bufferMemory (soc_dma x)"
    using soc_store_cfg [OF regs(3), of ops cfg now "tid + 2" c x2] x2 by auto
  let ?d = "dma_flush ops (soc_dma x3)"
  have "length (bufferMemory ?d) = 256" "bit (1 :: u32) 0" using assms(2) x3(5) by simp_all
  from dma_enable_spec [OF assms(1) this, of cfg "soc_ctr x3"] obtain d where
    d: "dma_reg_write ops cfg (soc_ctr x3) 0 1 ?d = Inr (d, soc_ctr x3 + 1)"
      "enabled d" "\<not> dma_done d" "currentState d = READING" "pendingBusReadResponses d = 1"
      "true_width d = cfg_byte c 8 + 1" "true_height d = cfg_byte c 0 + 1" "Source_stride d = cfg_byte c 24" "Dest_stride d = cfg_byte c 16"
      "wordsTransferred d = 0" "srcAddr d = src" "dstAddr d = dst"
    using x3 by auto
  obtain q t where "soc_request ops cfg now (sa_store (tid + 3) 0xF000 1) x3 =
     bindE (dma_reg_write ops cfg (soc_ctr x3) (0xF000 AND 0x3F) 1 ?d)
       (\<lambda>(d, c). Inr (x3\<lparr>soc_dma := d\<lparr>resp_Q := resp_Q d @ q, dma_events := dma_events d @ [(t, DmaTrySend)]\<rparr>, soc_ctr := c\<rparr>))"
    using soc_request_store [of ops cfg now "tid + 3" "0xF000" 1 x3] by blast
  with d show ?thesis by (simp add: dma_program_def x1(1) x2(1) x3(1))
qed

end
