(* ===== verification/DmaBursts.thy ===== *)
theory DmaBursts
  imports SOC
begin

text \<open>
  Bursts of the DMA controller at the data memory of the system, and the words of a configured transfer:
  what a read or write burst delivered by the crossbar schedules and, once its beats have run, answers;
  the addresses the size register describes.
\<close>

section \<open>Bursts through the data memory\<close>

lemma dm_reads_collect:
  assumes "qs \<noteq> []" "\<forall>q \<in> set qs. rq_tid q = t \<and> rq_caller q = c \<and> dm_read_value (dm_base s) (rq_op q) (rq_addr q) = Inr (f (rq_addr q))"
    and "dm_pending s t = Some \<lparr>expected = int (length bs + length qs), rbeats = bs, wbeats = ws\<rparr>"
  shows "dm_exec_events ops (map MemReadEvent qs) s = Inr (s\<lparr>dm_pending := (dm_pending s)(t := None),
    dm_respQ := dm_respQ s @ [ReadResp (setTID t (Construct_MemReadRespPkt (bs @ answers f qs) ''dm'' c))]\<rparr>)"
  using assms
proof (induction qs arbitrary: s bs)
  case (Cons q qs)
  let ?b = "hd (answers f [q])"
  let ?tk = "\<lparr>expected = int (length bs + length (q # qs)), rbeats = bs @ [?b], wbeats = ws\<rparr>"
  show ?case
  proof (cases "qs = []")
    case True
    then show ?thesis using Cons.prems
      by (simp add: memReadReqHandler_def dm_collect_read_def tracker_at_def Let_def answers_def fun_upd_def)
  next
    case False
    then have "dm_exec_event ops (MemReadEvent q) s = Inr (s\<lparr>dm_pending := (dm_pending s)(t \<mapsto> ?tk)\<rparr>)"
      using Cons.prems by (simp add: memReadReqHandler_def dm_collect_read_def tracker_at_def Let_def answers_def)
    moreover have "dm_exec_events ops (map MemReadEvent qs) (s\<lparr>dm_pending := (dm_pending s)(t \<mapsto> ?tk)\<rparr>) = Inr (s\<lparr>dm_pending := (dm_pending s)(t := None),
        dm_respQ := dm_respQ s @ [ReadResp (setTID t (Construct_MemReadRespPkt ((bs @ [?b]) @ answers f qs) ''dm'' c))]\<rparr>)"
      using Cons.prems False by (subst Cons.IH [where bs = "bs @ [?b]"]) simp_all
    ultimately show ?thesis by (simp add: answers_def fun_upd_def)
  qed
qed simp

definition write_answers :: "write_req_payload list \<Rightarrow> write_resp_payload list" where
  "write_answers = map (\<lambda>q. \<lparr>wr_tid = wq_tid q, wr_instr = wq_instr q\<rparr>)"

lemma dm_writes_collect:
  assumes "qs \<noteq> []" "\<forall>q \<in> set qs. wq_tid q = t \<and> wq_caller q = c" "dm_apply_writes (dm_base s) qs = Inr m"
    and "dm_pending s t = Some \<lparr>expected = int (length bs + length qs), rbeats = rs, wbeats = bs\<rparr>"
  shows "dm_exec_events ops (map MemWriteEvent qs) s = Inr (s\<lparr>dm_base := m, dm_pending := (dm_pending s)(t := None),
    dm_respQ := dm_respQ s @ [WriteResp (setTID t (Construct_MemWriteRespPkt (bs @ write_answers qs) ''dm'' c))]\<rparr>)"
  using assms
proof (induction qs arbitrary: s bs)
  case (Cons q qs)
  let ?b = "hd (write_answers [q])"
  let ?tk = "\<lparr>expected = int (length bs + length (q # qs)), rbeats = rs, wbeats = bs @ [?b]\<rparr>"
  from Cons.prems(3) obtain m1 where m1: "dm_write_value (dm_base s) (wq_op q) (wq_addr q) (wq_data q) = Inr m1"
    "dm_apply_writes m1 qs = Inr m" by (auto simp: result_simps)
  show ?case
  proof (cases "qs = []")
    case True
    then show ?thesis using Cons.prems m1
      by (simp add: memWriteReqHandler_def dm_collect_write_def tracker_at_def Let_def write_answers_def fun_upd_def)
  next
    case False
    then have "dm_exec_event ops (MemWriteEvent q) s = Inr (s\<lparr>dm_base := m1, dm_pending := (dm_pending s)(t \<mapsto> ?tk)\<rparr>)"
      using Cons.prems m1 by (simp add: memWriteReqHandler_def dm_collect_write_def tracker_at_def Let_def write_answers_def)
    moreover have "dm_exec_events ops (map MemWriteEvent qs) (s\<lparr>dm_base := m1, dm_pending := (dm_pending s)(t \<mapsto> ?tk)\<rparr>) =
        Inr (s\<lparr>dm_base := m, dm_pending := (dm_pending s)(t := None),
          dm_respQ := dm_respQ s @ [WriteResp (setTID t (Construct_MemWriteRespPkt ((bs @ [?b]) @ write_answers qs) ''dm'' c))]\<rparr>)"
      using Cons.prems m1 False by (subst Cons.IH [where bs = "bs @ [?b]"]) simp_all
    ultimately show ?thesis by (simp add: write_answers_def fun_upd_def)
  qed
qed simp

lemma dm_exec_append: "dm_exec_events ops (es @ fs) s = bindE (dm_exec_events ops es s) (dm_exec_events ops fs)"
  by (induction es arbitrary: s) (auto simp: bindE_assoc intro!: bindE_cong)

definition dm_idle :: "'r data_memory \<Rightarrow> bool" where
  "dm_idle d \<longleftrightarrow> dm_pending d = Map.empty \<and> dm_respQ d = []"

text \<open>A packet of the controller that goes to the data memory.\<close>

definition to_memory :: "('q \<Rightarrow> int) \<Rightarrow> ('q \<Rightarrow> string) \<Rightarrow> int \<Rightarrow> 'q xbar_packet \<Rightarrow> bool" where
  "to_memory tid caller t pkt \<longleftrightarrow> payloadList pkt \<noteq> [] \<and> burstSize pkt = int (length (payloadList pkt)) \<and> TransactionID pkt = Some t
     \<and> dst_idx pkt = 0 \<and> (\<forall>q \<in> set (payloadList pkt). tid q = t \<and> caller q = ''dma'')"

text \<open>A request on the idle memory: its beats run and leave one response in the queue.\<close>

lemma dm_request_reads:
  assumes "dm_idle (soc_dmem x)" "to_memory rq_tid rq_caller t pkt"
    and "\<forall>q \<in> set (payloadList pkt). dm_read_value (dm_base (soc_dmem x)) (rq_op q) (rq_addr q) = Inr (f (rq_addr q))"
  obtains d beats t' where "soc_request ops cfg now (ReadReq pkt) x = Inr (x\<lparr>soc_dmem := d\<rparr>)"
    "d = (soc_dmem x)\<lparr>dm_pending := dm_pending d, dm_events := dm_events (soc_dmem x) @ beats @ [(t', TrySendEvent)]\<rparr>"
    "dm_exec_events ops (map snd beats) d = Inr (d\<lparr>dm_base := dm_base (soc_dmem x), dm_pending := Map.empty,
       dm_respQ := [ReadResp (setTID t (Construct_MemReadRespPkt (answers f (payloadList pkt)) ''dm'' ''dma''))]\<rparr>)"
proof -
  let ?d = "soc_dmem x" and ?ps = "payloadList pkt"
  let ?b = "beat_events now (memory_read_latency cfg) MemReadEvent ?ps" and ?t = "now + length ?ps + 1 + memory_read_latency cfg"
  let ?d1 = "?d\<lparr>dm_pending := [t \<mapsto> \<lparr>expected = int (length ?ps), rbeats = [], wbeats = []\<rparr>], dm_events := dm_events ?d @ ?b @ [(?t, TrySendEvent)]\<rparr>"
  have idle: "dm_pending ?d = Map.empty" "dm_respQ ?d = []" using assms(1) by (simp_all add: dm_idle_def)
  have acc: "soc_request ops cfg now (ReadReq pkt) x = Inr (x\<lparr>soc_dmem := ?d1\<rparr>)"
    using assms(2) idle
    by (simp add: soc_request_def to_memory_def dm_step_def dm_accept_read_def getTID_def expect_beats_def tracker_at_def
        empty_tracker_def dm_schedule_def Let_def)
  have run: "dm_exec_events ops (map snd ?b) ?d1 = Inr (?d1\<lparr>dm_base := dm_base ?d, dm_pending := Map.empty,
      dm_respQ := [ReadResp (setTID t (Construct_MemReadRespPkt (answers f ?ps) ''dm'' ''dma''))]\<rparr>)"
    using dm_reads_collect [of ?ps t "''dma''" ?d1 f "[]" "[]" ops] assms(2,3) idle by (simp add: to_memory_def)
  show thesis by (rule that [OF acc _ run]) simp
qed

lemma dm_request_writes:
  assumes "dm_idle (soc_dmem x)" "to_memory wq_tid wq_caller t pkt"
    and "dm_apply_writes (dm_base (soc_dmem x)) (payloadList pkt) = Inr m"
  obtains d beats t' where "soc_request ops cfg now (WriteReq pkt) x = Inr (x\<lparr>soc_dmem := d\<rparr>)"
    "d = (soc_dmem x)\<lparr>dm_pending := dm_pending d, dm_events := dm_events (soc_dmem x) @ beats @ [(t', TrySendEvent)]\<rparr>"
    "dm_exec_events ops (map snd beats) d = Inr (d\<lparr>dm_base := m, dm_pending := Map.empty,
       dm_respQ := [WriteResp (setTID t (Construct_MemWriteRespPkt (write_answers (payloadList pkt)) ''dm'' ''dma''))]\<rparr>)"
proof -
  let ?d = "soc_dmem x" and ?ps = "payloadList pkt"
  let ?b = "beat_events now (memory_read_latency cfg) MemWriteEvent ?ps" and ?t = "now + length ?ps + 1 + memory_read_latency cfg"
  let ?d1 = "?d\<lparr>dm_pending := [t \<mapsto> \<lparr>expected = int (length ?ps), rbeats = [], wbeats = []\<rparr>], dm_events := dm_events ?d @ ?b @ [(?t, TrySendEvent)]\<rparr>"
  have idle: "dm_pending ?d = Map.empty" "dm_respQ ?d = []" using assms(1) by (simp_all add: dm_idle_def)
  have acc: "soc_request ops cfg now (WriteReq pkt) x = Inr (x\<lparr>soc_dmem := ?d1\<rparr>)"
    using assms(2) idle
    by (simp add: soc_request_def to_memory_def dm_step_def dm_accept_write_def getTID_def expect_beats_def tracker_at_def
        empty_tracker_def dm_schedule_def Let_def)
  have run: "dm_exec_events ops (map snd ?b) ?d1 = Inr (?d1\<lparr>dm_base := m, dm_pending := Map.empty,
      dm_respQ := [WriteResp (setTID t (Construct_MemWriteRespPkt (write_answers ?ps) ''dm'' ''dma''))]\<rparr>)"
    using dm_writes_collect [of ?ps t "''dma''" ?d1 m "[]" "[]" ops] assms(2,3) idle by (simp add: to_memory_def)
  show thesis by (rule that [OF acc _ run]) simp
qed

section \<open>Responses\<close>

lemma dma_step_response:
  "dma_step ops cfg now ctr (Some (ReadResp p)) s = bindE (dma_handleReadResponse cfg now p (dma_flush ops s)) (\<lambda>s'. Inr (s', ctr))"
  "dma_step ops cfg now ctr (Some (WriteResp w)) s = dma_handleWriteCompletion ops cfg ctr (dma_flush ops s)"
  by (simp_all add: dma_step_def dma_flush_def Let_def)

text \<open>A word of the memory, and what of the system a transfer does not touch.\<close>

definition mem_word :: "base_memory \<Rightarrow> u32 \<Rightarrow> u32" where
  "mem_word m a = (case dm_read_value m LW a of Inr v \<Rightarrow> v | Inl _ \<Rightarrow> 0)"

lemma mem_word_read: "mem_ok m \<Longrightarrow> mem_in_range m a 4 \<Longrightarrow> dm_read_value m LW a = Inr (mem_word m a)"
  using bm.load_total [of m a LW] by (auto simp: dm_read_value_eq mem_word_def)

definition others :: "'r soc \<Rightarrow> 'r cpu \<times> cfu \<times> 'r sa" where
  "others x = (soc_cpu x, soc_cfu x, soc_sa x)"

text \<open>Source and destination of word \<open>g\<close> of the running transfer.\<close>

abbreviation src_at :: "'r dma \<Rightarrow> nat \<Rightarrow> u32" where
  "src_at d g \<equiv> word_addr d (srcAddr d) (Source_stride d) g"

abbreviation dst_at :: "'r dma \<Rightarrow> nat \<Rightarrow> u32" where
  "dst_at d g \<equiv> word_addr d (dstAddr d) (Dest_stride d) g"

lemmas transfer_defs = fill_inv_def src_word_def word_addr_def words_per_row_def words_to_read_def read_pkt_def read_chunk_def
  dma_read_req_def same_transfer_def

lemma resp_side_cong:
  "fill_inv f (d\<lparr>m_resp := r\<rparr>) = fill_inv f d" "words_to_read (d\<lparr>m_resp := r\<rparr>) = words_to_read d"
  "read_pkt t (d\<lparr>m_resp := r\<rparr>) = read_pkt t d" "same_transfer d' (d\<lparr>m_resp := r\<rparr>) = same_transfer d' d"
  "read_chunk (d\<lparr>m_resp := r\<rparr>) = read_chunk d" "read_chunk (d\<lparr>resp_Q := q\<rparr>) = read_chunk d"
  "fill_inv f (d\<lparr>resp_Q := q\<rparr>) = fill_inv f d" "words_to_read (d\<lparr>resp_Q := q\<rparr>) = words_to_read d"
  "read_pkt t (d\<lparr>resp_Q := q\<rparr>) = read_pkt t d" "same_transfer d' (d\<lparr>resp_Q := q\<rparr>) = same_transfer d' d"
  by (simp_all add: transfer_defs fun_eq_iff cong: map_cong)

section \<open>Word stores\<close>

text \<open>A burst of words is a list of word stores.\<close>

lemma dm_apply_store_words:
  "map write_key qs = map (\<lambda>(a, v). (SW, a, v)) avs \<Longrightarrow> dm_apply_writes m qs = bm.store_words m avs"
proof (induction avs arbitrary: m qs)
  case (Cons av avs)
  then obtain q qs' where qs: "qs = q # qs'" "write_key q = (SW, fst av, snd av)" "map write_key qs' = map (\<lambda>(a, v). (SW, a, v)) avs"
    by (auto simp: case_prod_beta)
  have "wq_op q = SW" "wq_addr q = fst av" "wq_data q = snd av" using qs(2) by (auto simp: write_key_def)
  then show ?case
    using Cons.IH [OF qs(3)] qs(1) by (simp add: dm_write_value_eq)
qed simp

section \<open>The configured transfer\<close>

lemma soc_request_enable:
  "soc_request ops cfg now (WriteReq (single ((dma_store 0xF000 v)\<lparr>wq_tid := tid\<rparr>) 0 (slaveIndex 0xF000) tid)) x =
     bindE (dma_reg_write ops cfg (soc_ctr x) 0 v (dma_flush ops (soc_dma x))) (\<lambda>(d, c).
       Inr (x\<lparr>soc_dma := d\<lparr>resp_Q := resp_Q d @ [WriteResp (Construct_MemWriteRespPkt [\<lparr>wr_tid = tid, wr_instr = blank_instr\<rparr>] ''dma'' ''cpu'')],
         dma_events := dma_events d @ [(now + 1 + memory_read_latency cfg, DmaTrySend)]\<rparr>, soc_ctr := c\<rparr>))"
  by (simp add: soc_request_def renew_packet_def dma_step_def dma_flush_def burst_size_of_def Let_def slaveIndex_def address_map_defs
      dma_writeMMIO_def dma_store_def dma_write_req_def dma_caller_ok_def dma_schedule_def bindE_assoc split_def)

text \<open>The address of word \<open>g\<close> of a matrix of \<open>w\<close> bytes per row.\<close>

definition matrix_addr :: "nat \<Rightarrow> u32 \<Rightarrow> nat \<Rightarrow> nat \<Rightarrow> u32" where
  "matrix_addr w base stride g = base + of_nat (g div ((w + 3) div 4) * stride) + of_nat (g mod ((w + 3) div 4) * 4)"

definition cfg_width :: "'r dma \<Rightarrow> nat" where
  "cfg_width d = cfg_byte (dmaSizeCfg d) 8 + 1"

definition cfg_words :: "'r dma \<Rightarrow> nat" where
  "cfg_words d = (cfg_width d + 3) div 4 * (cfg_byte (dmaSizeCfg d) 0 + 1)"

definition cfg_src :: "'r dma \<Rightarrow> nat \<Rightarrow> u32" where
  "cfg_src d = matrix_addr (cfg_width d) (srcAddr d) (cfg_byte (dmaSizeCfg d) 24)"

definition cfg_dst :: "'r dma \<Rightarrow> nat \<Rightarrow> u32" where
  "cfg_dst d = matrix_addr (cfg_width d) (dstAddr d) (cfg_byte (dmaSizeCfg d) 16)"

text \<open>A memory of 16 bytes.\<close>

definition ex_transfer :: "sim_packet list soc" where
  "ex_transfer = \<lparr>soc_cpu = cpu_init default_config 0 [],
     soc_dmem = (dm_new 16 [])\<lparr>dm_base := \<lparr>mem = [1, 2, 3, 4, 5, 6, 7, 8, 0, 0, 0, 0, 0, 0, 0, 0], msize = 16\<rparr>\<rparr>,
     soc_dma = ex_dma\<lparr>srcAddr := 0, dstAddr := 8\<rparr>,
     soc_cfu = \<lparr>ctl_instr_type = UNIMPL, addSubUnit = \<lparr>u_instr_type = UNIMPL, u_rs1 = 0, u_rs2 = 0, u_result = 0\<rparr>,
       mulUnit = \<lparr>u_instr_type = UNIMPL, u_rs1 = 0, u_rs2 = 0, u_result = 0\<rparr>\<rparr>,
     soc_sa = ex_sa, soc_ctr = 0\<rparr>"

end
