(* ===== verification/SlotBus.thy ===== *)
theory SlotBus
  imports DmaBursts
begin

text \<open>
  Registers of the crossbar that hold one packet, and the DMA controller before such a register: what
  its queue and its register hold together, and what its two phases send: all but the first packet of a
  phase wait in the queue and are counted. The queues of the systolic array before such registers are
  treated at the end.
\<close>

section \<open>Registers with one place\<close>

text \<open>
  What the system relies on: a register that holds a packet is stalled, an empty one takes a packet
  and holds it, and the crossbar can empty it.
\<close>

definition slot_contract :: "'r reg_ops \<Rightarrow> ('r \<Rightarrow> sim_packet option) \<Rightarrow> ('r \<Rightarrow> 'r) \<Rightarrow> bool" where
  "slot_contract ops held drain \<longleftrightarrow> (\<forall>r. held (drain r) = None)
     \<and> (\<forall>r p. held r = None \<longrightarrow> \<not> isStalled ops r \<and> snd (push ops r p) \<and> held (fst (push ops r p)) = Some p)
     \<and> (\<forall>r. held r \<noteq> None \<longrightarrow> isStalled ops r)"

lemma slot_drain: "slot_contract ops held drain \<Longrightarrow> held (drain r) = None"
  unfolding slot_contract_def by blast

lemma slot_full: "slot_contract ops held drain \<Longrightarrow> held r = Some p \<Longrightarrow> isStalled ops r"
  unfolding slot_contract_def by blast

lemma slot_push:
  assumes "slot_contract ops held drain" "held r = None"
  obtains r' where "push ops r p = (r', True)" "held r' = Some p" "\<not> isStalled ops r"
proof -
  have "\<not> isStalled ops r" "snd (push ops r p)" "held (fst (push ops r p)) = Some p"
    using assms unfolding slot_contract_def by blast+
  then show ?thesis by (cases "push ops r p") (auto intro: that)
qed

abbreviation olist :: "'a option \<Rightarrow> 'a list" where
  "olist x \<equiv> (case x of None \<Rightarrow> [] | Some y \<Rightarrow> [y])"

text \<open>What waits in a register and the queue before it, in the order it leaves.\<close>

abbreviation waiting :: "('r \<Rightarrow> sim_packet option) \<Rightarrow> 'r \<Rightarrow> sim_packet list \<Rightarrow> sim_packet list" where
  "waiting held r q \<equiv> olist (held r) @ q"

text \<open>No packet waits in the queue before an empty register.\<close>

definition settled :: "('r \<Rightarrow> sim_packet option) \<Rightarrow> 'r \<Rightarrow> sim_packet list \<Rightarrow> bool" where
  "settled held r q \<longleftrightarrow> (held r = None \<longrightarrow> q = [])"

lemma slot_try_send:
  assumes "slot_contract ops held drain" "try_send ops r q = (r', q')"
  shows "waiting held r' q' = waiting held r q \<and> settled held r' q'"
proof (cases "held r")
  case None
  show ?thesis
  proof (cases q)
    case (Cons p ps)
    obtain r1 where "push ops r p = (r1, True)" "held r1 = Some p" "\<not> isStalled ops r"
      by (rule slot_push [OF assms(1) None])
    then show ?thesis using assms(2) None Cons by (simp add: try_send_def settled_def)
  qed (use assms(2) None in \<open>simp add: try_send_def settled_def\<close>)
next
  case (Some p)
  then have "isStalled ops r" by (rule slot_full [OF assms(1)])
  then show ?thesis using assms(2) Some by (cases q) (simp_all add: try_send_def settled_def)
qed

lemma slot_send_or_queue:
  assumes "slot_contract ops held drain" "settled held r q" "send_or_queue ops r q p = (r', q', b)"
  shows "waiting held r' q' = waiting held r q @ [p]" "b \<longleftrightarrow> held r = None" "held r' \<noteq> None"
proof -
  have "waiting held r' q' = waiting held r q @ [p] \<and> b = (held r = None) \<and> held r' \<noteq> None"
  proof (cases "held r")
    case None
    obtain r1 where "push ops r p = (r1, True)" "held r1 = Some p" "\<not> isStalled ops r"
      by (rule slot_push [OF assms(1) None])
    then show ?thesis using assms(2,3) None by (auto simp: send_or_queue_def settled_def)
  next
    case (Some y)
    then show ?thesis using slot_full [OF assms(1) Some] assms(3) by (auto simp: send_or_queue_def)
  qed
  then show "waiting held r' q' = waiting held r q @ [p]" "b \<longleftrightarrow> held r = None" "held r' \<noteq> None" by blast+
qed

section \<open>The controller before such a register\<close>

abbreviation out_req :: "('r \<Rightarrow> sim_packet option) \<Rightarrow> 'r dma \<Rightarrow> sim_packet list" where
  "out_req held d \<equiv> waiting held (m_req d) (req_Q d)"

abbreviation out_resp :: "('r \<Rightarrow> sim_packet option) \<Rightarrow> 'r dma \<Rightarrow> sim_packet list" where
  "out_resp held d \<equiv> waiting held (m_resp d) (resp_Q d)"

lemma slot_trySendPacket:
  assumes "slot_contract ops held drain"
  obtains r q r' q' where "dma_trySendPacket ops d = d\<lparr>m_req := r, req_Q := q, m_resp := r', resp_Q := q'\<rparr>"
    "waiting held r q = out_req held d" "settled held r q"
proof -
  obtain r q where t: "try_send ops (m_req d) (req_Q d) = (r, q)" by fastforce
  obtain r' q' where t': "try_send ops (m_resp d) (resp_Q d) = (r', q')" by fastforce
  show thesis
    by (rule that [of q' r' q r]) (use t t' slot_try_send [OF assms t] in \<open>simp_all add: dma_trySendPacket_def\<close>)
qed

lemma slot_flush:
  assumes "slot_contract ops held drain"
  obtains r q r' q' where "dma_flush ops d = d\<lparr>m_req := r, req_Q := q, m_resp := r', resp_Q := q'\<rparr>"
    "waiting held r q = out_req held d" "settled held r q"
proof (cases "req_Q d = [] \<and> resp_Q d = []")
  case True
  then show ?thesis by (intro that [of "resp_Q d" "m_resp d" "req_Q d" "m_req d"]) (simp_all add: dma_flush_def settled_def)
next
  case False
  then have fl: "dma_flush ops d = dma_trySendPacket ops d" by (auto simp: dma_flush_def)
  show ?thesis by (rule slot_trySendPacket [OF assms, of d]) (rule that, simp_all add: fl)
qed

lemma slot_dma_send:
  assumes "slot_contract ops held drain" "settled held (m_req s) (req_Q s)"
  obtains r q where "dma_send ops p s = (s\<lparr>m_req := r, req_Q := q\<rparr>, held (m_req s) = None)"
    "waiting held r q = out_req held s @ [p]" "held r \<noteq> None"
proof -
  obtain r q b where sq: "send_or_queue ops (m_req s) (req_Q s) p = (r, q, b)" by (metis prod_cases3)
  with slot_send_or_queue [OF assms sq] show ?thesis by (intro that [of q r]) (simp_all add: dma_send_def)
qed

lemma slot_send_bursts:
  assumes "slot_contract ops held drain" "held (m_req s) \<noteq> None"
  obtains r q where "foldl (send_burst ops) s pkts = s\<lparr>m_req := r, req_Q := q,
      pendingBusWriteResponses := pendingBusWriteResponses s + int (length pkts)\<rparr>"
    "waiting held r q = out_req held s @ map WriteReq pkts" "held r \<noteq> None"
proof -
  have "\<exists>r q. foldl (send_burst ops) s pkts = s\<lparr>m_req := r, req_Q := q,
      pendingBusWriteResponses := pendingBusWriteResponses s + int (length pkts)\<rparr>
    \<and> waiting held r q = out_req held s @ map WriteReq pkts \<and> held r \<noteq> None"
    using assms(2)
  proof (induction pkts arbitrary: s)
    case Nil
    then show ?case by (intro exI [of _ "m_req s"] exI [of _ "req_Q s"]) simp
  next
    case (Cons p pkts)
    then have "settled held (m_req s) (req_Q s)" by (auto simp: settled_def)
    from slot_dma_send [OF assms(1) this] obtain r q where
      s1: "dma_send ops (WriteReq p) s = (s\<lparr>m_req := r, req_Q := q\<rparr>, held (m_req s) = None)"
        "waiting held r q = out_req held s @ [WriteReq p]" "held r \<noteq> None" by metis
    let ?s = "s\<lparr>m_req := r, req_Q := q, pendingBusWriteResponses := pendingBusWriteResponses s + 1\<rparr>"
    have one: "send_burst ops s p = ?s" using s1(1) Cons.prems by (simp add: send_burst_def)
    have "held (m_req ?s) \<noteq> None" using s1(3) by simp
    from Cons.IH [OF this] obtain r' q' where "foldl (send_burst ops) ?s pkts = ?s\<lparr>m_req := r', req_Q := q',
        pendingBusWriteResponses := pendingBusWriteResponses ?s + int (length pkts)\<rparr>"
      "waiting held r' q' = out_req held ?s @ map WriteReq pkts" "held r' \<noteq> None" by blast
    with one s1(2) show ?case by (intro exI [of _ r'] exI [of _ q']) simp
  qed
  with that show thesis by blast
qed

lemma slot_read_phase:
  assumes "slot_contract ops held drain" "settled held (m_req s) (req_Q s)" "0 < words_to_read s" "0 < true_width s"
  obtains r q where "scheduleReadsForBuffer ops cfg ctr s = Inr (s\<lparr>m_req := r, req_Q := q, pendingBusReadResponses := 1\<rparr>, ctr + 1)"
    "waiting held r q = out_req held s @ [ReadReq (read_pkt ctr s)]" "held r \<noteq> None"
proof -
  have chunk: "read_chunk s \<in> {1, 2, 4}" "0 < read_chunk s"
    using burst_chunk_range [of "words_to_read s"] read_chunk_burst [OF assms(3)] by auto
  from slot_dma_send [OF assms(1,2)] obtain r q where
    "dma_send ops (ReadReq (read_pkt ctr s)) s = (s\<lparr>m_req := r, req_Q := q\<rparr>, held (m_req s) = None)"
    "waiting held r q = out_req held s @ [ReadReq (read_pkt ctr s)]" "held r \<noteq> None" by metis
  with chunk assms(3) words_per_row_pos [OF assms(4)] show ?thesis
    by (intro that [of q r]) (auto simp: scheduleReadsForBuffer.simps send_read_burst_def Let_def Construct_read_burst(1))
qed

text \<open>
  A write phase from an empty register: the first burst is taken and not counted, the others are
  queued and counted.
\<close>

lemma slot_write_phase:
  assumes "slot_contract ops held drain" "out_req held s = []" "0 < true_width s" "0 < bufferIndex s" "bufferIndex s \<le> length (bufferMemory s)"
  obtains r q pkts ctr' where "scheduleWritesFromBuffer ops cfg ctr s = Inr (s\<lparr>m_req := r, req_Q := q,
      pendingBusWriteResponses := int (length pkts) - 1, wordsTransferred := wordsTransferred s + bufferIndex s\<rparr>, ctr')"
    "waiting held r q = map WriteReq pkts" "held r \<noteq> None" "\<forall>p \<in> set pkts. legal_burst p \<and> write_tagged p" "length pkts = nbursts (bufferIndex s)"
    "map write_key (concat (map payloadList pkts)) = map (write_key \<circ> buffer_write s) [0..<bufferIndex s]"
proof -
  let ?s = "s\<lparr>pendingBusWriteResponses := 0\<rparr>" and ?n = "bufferIndex s"
  let ?ps = "burst_pkts ?s ?n 0 ctr"
  have spec: "map write_key (concat (map payloadList ?ps)) = map (write_key \<circ> buffer_write s) [0..<?n]"
    "\<forall>p \<in> set ?ps. legal_burst p \<and> write_tagged p" "length ?ps = nbursts ?n"
    using burst_pkts_spec [of 0 ?n ?s ctr] by (simp_all add: buffer_write_cong)
  have wb: "write_bursts ops cfg ?n 0 ctr ?s = Inr (foldl (send_burst ops) ?s ?ps, ctr + int (length ?ps))"
    using write_bursts_foldl [of ?s ?n ops cfg 0 ctr] assms(3,5) by simp
  have "?ps \<noteq> []" using spec(3) nbursts_step [OF assms(4)] by auto
  then obtain p ps where ps: "?ps = p # ps" by (cases ?ps) auto
  have empty: "settled held (m_req ?s) (req_Q ?s)" "held (m_req s) = None" "req_Q s = []"
    using assms(2) by (auto simp: settled_def split: option.splits)
  obtain r q where snd: "dma_send ops (WriteReq p) ?s = (?s\<lparr>m_req := r, req_Q := q\<rparr>, held (m_req ?s) = None)"
    "waiting held r q = out_req held ?s @ [WriteReq p]" "held r \<noteq> None"
    by (rule slot_dma_send [OF assms(1) empty(1), of "WriteReq p"])
  then have one: "send_burst ops ?s p = ?s\<lparr>m_req := r, req_Q := q\<rparr>" "waiting held r q = [WriteReq p]"
    using empty(2,3) by (simp_all add: send_burst_def)
  obtain r' q' where rest: "foldl (send_burst ops) (?s\<lparr>m_req := r, req_Q := q\<rparr>) ps = ?s\<lparr>m_req := r, req_Q := q\<rparr>\<lparr>m_req := r', req_Q := q',
      pendingBusWriteResponses := pendingBusWriteResponses (?s\<lparr>m_req := r, req_Q := q\<rparr>) + int (length ps)\<rparr>"
    "waiting held r' q' = out_req held (?s\<lparr>m_req := r, req_Q := q\<rparr>) @ map WriteReq ps" "held r' \<noteq> None"
  proof (rule slot_send_bursts [OF assms(1), of "?s\<lparr>m_req := r, req_Q := q\<rparr>" ps])
    show "held (m_req (?s\<lparr>m_req := r, req_Q := q\<rparr>)) \<noteq> None" using snd(3) by simp
  qed
  have "scheduleWritesFromBuffer ops cfg ctr s = Inr (s\<lparr>m_req := r', req_Q := q',
      pendingBusWriteResponses := int (length ?ps) - 1, wordsTransferred := wordsTransferred s + ?n\<rparr>, ctr + int (length ?ps))"
    using assms(4) wb unfolding ps by (simp add: scheduleWritesFromBuffer.simps one(1) rest(1))
  with spec rest(2,3) one(2) ps show thesis by (intro that [of ?ps q' r']) simp_all
qed

text \<open>
  C27: the transfer is reported done one response too early. A last write phase of \<open>m \<ge> 2\<close> bursts, begun
  with an empty one-place register, sends all of them, and the transfer is reported done, with the buffer
  cleared and the controller disabled, by response \<open>m - 1\<close> and by none before it: the response to one of
  the bursts, for a crossbar in order the last, is still to come.
\<close>

theorem done_one_response_early:
  assumes "slot_contract ops held drain" "out_req held s = []" "0 < true_width s" "bufferIndex s \<le> length (bufferMemory s)"
    and "totalWords s = wordsTransferred s + bufferIndex s" "nbursts (bufferIndex s) = Suc m" "n < m" "\<not> dma_done s"
  shows "\<exists>s' c pkts s1 s2. scheduleWritesFromBuffer ops cfg ctr s = Inr (s', c)
    \<and> out_req held s' = map WriteReq pkts \<and> length pkts = Suc m
    \<and> map write_key (concat (map payloadList pkts)) = map (write_key \<circ> buffer_write s) [0..<bufferIndex s]
    \<and> completions ops cfg n (s', c) = Inr (s1, c) \<and> \<not> dma_done s1
    \<and> completions ops cfg m (s', c) = Inr (s2, c) \<and> dma_done s2 \<and> \<not> enabled s2 \<and> currentState s2 = IDLE"
proof -
  have "0 < bufferIndex s" using assms(6) by (cases "bufferIndex s") (auto simp: nbursts.simps)
  obtain r q pkts c where w: "scheduleWritesFromBuffer ops cfg ctr s = Inr (s\<lparr>m_req := r, req_Q := q,
      pendingBusWriteResponses := int (length pkts) - 1, wordsTransferred := wordsTransferred s + bufferIndex s\<rparr>, c)"
    "waiting held r q = map WriteReq pkts" "length pkts = nbursts (bufferIndex s)"
    "map write_key (concat (map payloadList pkts)) = map (write_key \<circ> buffer_write s) [0..<bufferIndex s]"
    by (rule slot_write_phase [OF assms(1-3) \<open>0 < bufferIndex s\<close> assms(4), of cfg ctr])
  let ?s = "s\<lparr>m_req := r, req_Q := q, pendingBusWriteResponses := int m, wordsTransferred := wordsTransferred s + bufferIndex s\<rparr>"
  have "pendingBusWriteResponses ?s = int m" "0 < m" "totalWords ?s \<le> wordsTransferred ?s" "bufferIndex ?s \<le> length (bufferMemory ?s)"
    using assms(4,5,7) by simp_all
  note counts = completions_done [OF this assms(7), of ops cfg c]
  have "scheduleWritesFromBuffer ops cfg ctr s = Inr (?s, c)" using w(1,3) assms(6) by simp
  moreover from counts obtain s1 s2 where "completions ops cfg n (?s, c) = Inr (s1, c)" "dma_done s1 = dma_done s"
    "completions ops cfg m (?s, c) = Inr (s2, c)" "dma_done s2" "\<not> enabled s2" "currentState s2 = IDLE" by auto
  ultimately show ?thesis using w(2-4) assms(6,8)
    by (intro exI [of _ ?s] exI [of _ c] exI [of _ pkts] exI [of _ s1] exI [of _ s2]) simp
qed

text \<open>A register of one place, and three words in two bursts.\<close>

definition place_ops :: "sim_packet list reg_ops" where
  "place_ops = \<lparr>isStalled = (\<lambda>r. r \<noteq> []), push = (\<lambda>r p. if r = [] then ([p], True) else (r, False))\<rparr>"

definition place_held :: "sim_packet list \<Rightarrow> sim_packet option" where
  "place_held r = (case r of [] \<Rightarrow> None | p # _ \<Rightarrow> Some p)"

definition place_drain :: "sim_packet list \<Rightarrow> sim_packet list" where
  "place_drain r = []"

lemma place_contract: "slot_contract place_ops place_held place_drain"
  by (simp add: slot_contract_def place_ops_def place_held_def place_drain_def split: list.splits)

theorem done_one_response_early_witness:
  "\<exists>s' c pkts s2. scheduleWritesFromBuffer place_ops default_config 5 (ex_dma\<lparr>bufferIndex := 3, totalWords := 3\<rparr>) = Inr (s', c)
    \<and> out_req place_held s' = map WriteReq pkts \<and> length pkts = 2
    \<and> completions place_ops default_config 1 (s', c) = Inr (s2, c) \<and> dma_done s2"
proof -
  let ?s = "ex_dma\<lparr>bufferIndex := 3, totalWords := 3\<rparr>"
  have "out_req place_held ?s = []" "0 < true_width ?s" "bufferIndex ?s \<le> length (bufferMemory ?s)"
    "totalWords ?s = wordsTransferred ?s + bufferIndex ?s" "nbursts (bufferIndex ?s) = Suc 1" "(0 :: nat) < 1" "\<not> dma_done ?s"
    by (simp_all add: ex_dma_def place_held_def nbursts.simps)
  from done_one_response_early [OF place_contract this, of default_config 5] show ?thesis by (metis Suc_1)
qed

section \<open>The queues of the array\<close>

text \<open>
  The array's side of its two registers: the packets it queues, its calls of \<open>trySendPacket\<close> (from
  \<open>step\<close>, an event or \<open>masterPortRetry\<close>), and the crossbar taking the packet of a register. The last two
  components are what the crossbar has taken.
\<close>

datatype sa_line_act = QueueReq sim_packet | QueueResp sim_packet | SendQueued | TakeReq | TakeResp

type_synonym 'r sa_line = "'r sa \<times> sim_packet list \<times> sim_packet list"

fun sa_line_step :: "'r reg_ops \<Rightarrow> ('r \<Rightarrow> sim_packet option) \<Rightarrow> ('r \<Rightarrow> 'r) \<Rightarrow> 'r sa_line \<Rightarrow> sa_line_act \<Rightarrow> 'r sa_line" where
  "sa_line_step ops held drain (s, a, b) (QueueReq p) = (s\<lparr>sa_req_Q := sa_req_Q s @ [p]\<rparr>, a, b)"
| "sa_line_step ops held drain (s, a, b) (QueueResp p) = (s\<lparr>sa_resp_Q := sa_resp_Q s @ [p]\<rparr>, a, b)"
| "sa_line_step ops held drain (s, a, b) SendQueued = (sa_trySendPacket ops s, a, b)"
| "sa_line_step ops held drain (s, a, b) TakeReq = (s\<lparr>sa_m_req := drain (sa_m_req s)\<rparr>, a @ olist (held (sa_m_req s)), b)"
| "sa_line_step ops held drain (s, a, b) TakeResp = (s\<lparr>sa_m_resp := drain (sa_m_resp s)\<rparr>, a, b @ olist (held (sa_m_resp s)))"

fun queued_req :: "sa_line_act \<Rightarrow> sim_packet list" where
  "queued_req (QueueReq p) = [p]" | "queued_req _ = []"

fun queued_resp :: "sa_line_act \<Rightarrow> sim_packet list" where
  "queued_resp (QueueResp p) = [p]" | "queued_resp _ = []"

text \<open>A register that is free and yet refuses the front of the queue.\<close>

definition refuses :: "'r reg_ops \<Rightarrow> 'r \<Rightarrow> sim_packet list \<Rightarrow> bool" where
  "refuses ops r q \<longleftrightarrow> q \<noteq> [] \<and> \<not> isStalled ops r \<and> \<not> snd (push ops r (hd q))"

lemma push_and_pop_account:
  assumes "reg_contract ops sent" "push_and_pop ops r q = (r', q')"
  shows "sent r' @ q' = sent r @ (if refuses ops r q then tl q else q)"
proof -
  have "sent (fst (push ops r p)) = sent r @ (if snd (push ops r p) then [p] else [])" for p
    using reg_contractD [OF assms(1), of r p] by (cases "push ops r p") simp
  then show ?thesis
    using assms(2) by (cases q) (auto simp: push_and_pop_def refuses_def split: if_splits)
qed

lemma slot_push_and_pop:
  assumes "slot_contract ops held drain" "push_and_pop ops r q = (r', q')"
  shows "waiting held r' q' = waiting held r q"
proof (cases q)
  case (Cons p ps)
  show ?thesis
  proof (cases "held r")
    case None
    obtain r1 where "push ops r p = (r1, True)" "held r1 = Some p" "\<not> isStalled ops r" by (rule slot_push [OF assms(1) None])
    then show ?thesis using assms(2) None Cons by (simp add: push_and_pop_def)
  next
    case (Some x)
    then show ?thesis using slot_full [OF assms(1) Some] assms(2) Cons by (simp add: push_and_pop_def)
  qed
qed (use assms(2) in \<open>simp add: push_and_pop_def\<close>)

lemma sa_line_step_account:
  assumes "slot_contract ops held drain" "sa_line_step ops held drain (s, a, b) act = (s', a', b')"
  shows "a' @ waiting held (sa_m_req s') (sa_req_Q s') = a @ waiting held (sa_m_req s) (sa_req_Q s) @ queued_req act"
    "b' @ waiting held (sa_m_resp s') (sa_resp_Q s') = b @ waiting held (sa_m_resp s) (sa_resp_Q s) @ queued_resp act"
proof -
  obtain r q where rq: "push_and_pop ops (sa_m_req s) (sa_req_Q s) = (r, q)" by fastforce
  obtain r2 q2 where rq2: "push_and_pop ops (sa_m_resp s) (sa_resp_Q s) = (r2, q2)" by fastforce
  note acc = slot_push_and_pop [OF assms(1) rq] slot_push_and_pop [OF assms(1) rq2]
  show "a' @ waiting held (sa_m_req s') (sa_req_Q s') = a @ waiting held (sa_m_req s) (sa_req_Q s) @ queued_req act"
    "b' @ waiting held (sa_m_resp s') (sa_resp_Q s') = b @ waiting held (sa_m_resp s) (sa_resp_Q s) @ queued_resp act"
    using assms(2) acc rq rq2 slot_drain [OF assms(1)] by (cases act; auto simp: sa_trySendPacket_def)+
qed

text \<open>
  C32: the array pops the front of a queue whether or not its register took it. With any registers, what
  one call of \<open>trySendPacket\<close> loses is, in each of the two queues separately, the front packet when the
  register is free and refuses it, and nothing else; the rest keeps its order. With registers of one
  place this cannot happen: in every sequence of queueing, sending and taking, what the crossbar has
  taken, then what the register holds, then the queue, is what was there at first followed by
  everything queued since, in order, for requests and for responses.
\<close>

theorem sa_send_loses_refused:
  assumes "reg_contract ops sent" "slot_contract ops' held drain"
  shows "sent (sa_m_req (sa_trySendPacket ops s)) @ sa_req_Q (sa_trySendPacket ops s) =
      sent (sa_m_req s) @ (if refuses ops (sa_m_req s) (sa_req_Q s) then tl (sa_req_Q s) else sa_req_Q s)
    \<and> sent (sa_m_resp (sa_trySendPacket ops s)) @ sa_resp_Q (sa_trySendPacket ops s) =
      sent (sa_m_resp s) @ (if refuses ops (sa_m_resp s) (sa_resp_Q s) then tl (sa_resp_Q s) else sa_resp_Q s)
    \<and> (case foldl (sa_line_step ops' held drain) (t, [], []) acts of (t', a, b) \<Rightarrow>
        a @ waiting held (sa_m_req t') (sa_req_Q t') = waiting held (sa_m_req t) (sa_req_Q t) @ concat (map queued_req acts)
        \<and> b @ waiting held (sa_m_resp t') (sa_resp_Q t') = waiting held (sa_m_resp t) (sa_resp_Q t) @ concat (map queued_resp acts))"
proof (intro conjI)
  obtain r q where rq: "push_and_pop ops (sa_m_req s) (sa_req_Q s) = (r, q)" by fastforce
  obtain r2 q2 where rq2: "push_and_pop ops (sa_m_resp s) (sa_resp_Q s) = (r2, q2)" by fastforce
  have "sa_trySendPacket ops s = s\<lparr>sa_m_req := r, sa_req_Q := q, sa_m_resp := r2, sa_resp_Q := q2\<rparr>"
    using rq rq2 by (simp add: sa_trySendPacket_def)
  then show "sent (sa_m_req (sa_trySendPacket ops s)) @ sa_req_Q (sa_trySendPacket ops s) =
      sent (sa_m_req s) @ (if refuses ops (sa_m_req s) (sa_req_Q s) then tl (sa_req_Q s) else sa_req_Q s)"
    "sent (sa_m_resp (sa_trySendPacket ops s)) @ sa_resp_Q (sa_trySendPacket ops s) =
      sent (sa_m_resp s) @ (if refuses ops (sa_m_resp s) (sa_resp_Q s) then tl (sa_resp_Q s) else sa_resp_Q s)"
    using push_and_pop_account [OF assms(1) rq] push_and_pop_account [OF assms(1) rq2] by simp_all
  have "case foldl (sa_line_step ops' held drain) (t, a0, b0) acts of (t', a, b) \<Rightarrow>
        a @ waiting held (sa_m_req t') (sa_req_Q t') = a0 @ waiting held (sa_m_req t) (sa_req_Q t) @ concat (map queued_req acts)
        \<and> b @ waiting held (sa_m_resp t') (sa_resp_Q t') = b0 @ waiting held (sa_m_resp t) (sa_resp_Q t) @ concat (map queued_resp acts)" for t a0 b0
  proof (induction acts arbitrary: t a0 b0)
    case (Cons act acts)
    obtain t1 a1 b1 where one: "sa_line_step ops' held drain (t, a0, b0) act = (t1, a1, b1)" by (metis prod_cases3)
    note acc = sa_line_step_account [OF assms(2) one]
    have "a1 @ waiting held (sa_m_req t1) (sa_req_Q t1) @ xs = a0 @ waiting held (sa_m_req t) (sa_req_Q t) @ queued_req act @ xs"
      "b1 @ waiting held (sa_m_resp t1) (sa_resp_Q t1) @ ys = b0 @ waiting held (sa_m_resp t) (sa_resp_Q t) @ queued_resp act @ ys" for xs ys
      using arg_cong [OF acc(1), of "\<lambda>l. l @ xs"] arg_cong [OF acc(2), of "\<lambda>l. l @ ys"] by simp_all
    note acc' = this(1) [of "concat (map queued_req acts)"] this(2) [of "concat (map queued_resp acts)"]
    from Cons.IH [where t = t1 and ?a0.0 = a1 and ?b0.0 = b1] acc' one show ?case
      by (auto split: prod.splits)
  qed simp
  from this [where t = t and ?a0.0 = "[]" and ?b0.0 = "[]"] show "case foldl (sa_line_step ops' held drain) (t, [], []) acts of (t', a, b) \<Rightarrow>
        a @ waiting held (sa_m_req t') (sa_req_Q t') = waiting held (sa_m_req t) (sa_req_Q t) @ concat (map queued_req acts)
        \<and> b @ waiting held (sa_m_resp t') (sa_resp_Q t') = waiting held (sa_m_resp t) (sa_resp_Q t) @ concat (map queued_resp acts)" by simp
qed

text \<open>A register that refuses, and a register of one place between two sends.\<close>

theorem sa_send_loses_refused_witness:
  "let s = ex_sa\<lparr>sa_m_req := [WriteReq undefined], sa_req_Q := [ReadReq undefined]\<rparr>
   in sa_m_req (sa_trySendPacket slot_ops s) @ sa_req_Q (sa_trySendPacket slot_ops s) = [WriteReq undefined]
     \<and> (case foldl (sa_line_step place_ops place_held place_drain) (ex_sa, [], [])
           [QueueReq (ReadReq undefined), SendQueued, QueueReq (WriteReq undefined), SendQueued, TakeReq] of
         (t', a, b) \<Rightarrow> a @ waiting place_held (sa_m_req t') (sa_req_Q t') = [ReadReq undefined, WriteReq undefined])"
proof -
  have ex: "sa_m_req ex_sa = []" by (simp add: ex_sa_def sa_core.defs sa.defs ex_core_def)
  show ?thesis
  using sa_send_loses_refused [OF slot_ops_contract place_contract, of "ex_sa\<lparr>sa_m_req := [WriteReq undefined], sa_req_Q := [ReadReq undefined]\<rparr>"
    ex_sa "[QueueReq (ReadReq undefined), SendQueued, QueueReq (WriteReq undefined), SendQueued, TakeReq]"]
  by (simp add: slot_ops_def refuses_def ex place_held_def split: prod.splits)
qed

end
