(* ===== verification/BusSlaves.thy ===== *)
theory BusSlaves
  imports SlotBus
begin

text \<open>
  The data memory and the SRAM of the array as one address space of words behind the crossbar: a burst of
  the DMA controller is delivered to the slave its first address selects, all its beats run, and the
  response leaves. The contract a master relies on is the locale \<open>word_bus\<close>; its interpretation is the SoC.
\<close>

section \<open>Serving a burst\<close>

fun sa_exec_events :: "sim_config \<Rightarrow> nat \<Rightarrow> int \<Rightarrow> sa_event list \<Rightarrow> 'r sa \<Rightarrow> ('r sa \<times> int) result" where
  "sa_exec_events cfg now ctr [] s = Inr (s, ctr)"
| "sa_exec_events cfg now ctr (e # es) s = bindE (sa_exec_event cfg now ctr e s) (\<lambda>(s', c). sa_exec_events cfg now c es s')"

text \<open>
  A request is delivered at tick \<open>now\<close>; the events it schedules on its slave run in order and leave the
  queue, the slave steps once more, and the crossbar takes the responses out of the registers.
\<close>

definition bus_serve ::
  "'r reg_ops \<Rightarrow> ('r \<Rightarrow> sim_packet option) \<Rightarrow> ('r \<Rightarrow> 'r) \<Rightarrow> sim_config \<Rightarrow> nat \<Rightarrow> sim_packet \<Rightarrow> 'r soc \<Rightarrow> ('r soc \<times> sim_packet list) result" where
  "bus_serve ops held drain cfg now p x =
     bindE (soc_request ops cfg now p x) (\<lambda>x1.
     bindE (dm_exec_events ops (map snd (drop (length (dm_events (soc_dmem x))) (dm_events (soc_dmem x1)))) (soc_dmem x1)) (\<lambda>d.
     bindE (sa_exec_events cfg now (soc_ctr x1) (map snd (drop (length (sa_events (soc_sa x))) (sa_events (soc_sa x1)))) (soc_sa x1)) (\<lambda>(a, c).
     bindE (sa_step ops cfg now c None a) (\<lambda>(a', c').
       Inr (x1\<lparr>soc_dmem := d\<lparr>dm_reg := drain (dm_reg d), dm_events := dm_events (soc_dmem x)\<rparr>,
               soc_sa := a'\<lparr>sa_m_resp := drain (sa_m_resp a'), sa_events := sa_events (soc_sa x)\<rparr>, soc_ctr := c'\<rparr>,
            olist (held (dm_reg d)) @ olist (held (sa_m_resp a')))))))"

text \<open>The slaves at rest.\<close>

definition slaves_idle :: "('r \<Rightarrow> sim_packet option) \<Rightarrow> 'r soc \<Rightarrow> bool" where
  "slaves_idle held x \<longleftrightarrow> dm_idle (soc_dmem x) \<and> held (dm_reg (soc_dmem x)) = None
     \<and> sa_pending (soc_sa x) = Map.empty \<and> sa_req_Q (soc_sa x) = [] \<and> sa_resp_Q (soc_sa x) = [] \<and> held (sa_m_resp (soc_sa x)) = None"

text \<open>After a burst: the new contents of the two memories, and the registers of the slaves empty.\<close>

definition served :: "'r soc \<Rightarrow> base_memory \<Rightarrow> u8 list \<Rightarrow> 'r \<Rightarrow> 'r \<Rightarrow> 'r soc" where
  "served x m w r r' = x\<lparr>soc_dmem := (soc_dmem x)\<lparr>dm_base := m, dm_reg := r\<rparr>, soc_sa := (soc_sa x)\<lparr>sram := w, sa_m_resp := r'\<rparr>\<rparr>"

lemma bus_serve_dm:
  assumes "slot_contract ops held drain" "slaves_idle held x"
    and req: "soc_request ops cfg now p x = Inr (x\<lparr>soc_dmem := d\<rparr>)"
    and d: "d = (soc_dmem x)\<lparr>dm_pending := dm_pending d, dm_events := dm_events (soc_dmem x) @ beats @ [(t, TrySendEvent)]\<rparr>"
    and run: "dm_exec_events ops (map snd beats) d = Inr (d\<lparr>dm_base := m, dm_pending := Map.empty, dm_respQ := [rp]\<rparr>)"
  shows "\<exists>r r'. bus_serve ops held drain cfg now p x =
      Inr (served x m (sram (soc_sa x)) r r', [rp]) \<and> held r = None \<and> held r' = None"
proof -
  let ?d2 = "d\<lparr>dm_base := m, dm_pending := Map.empty, dm_respQ := [rp]\<rparr>" and ?a = "soc_sa x"
  have flds: "dm_events d = dm_events (soc_dmem x) @ beats @ [(t, TrySendEvent)]" "dm_reg d = dm_reg (soc_dmem x)" "data_memory.more d = ()"
    by (subst d, simp)+
  have idle: "dm_pending (soc_dmem x) = Map.empty" "dm_respQ (soc_dmem x) = []" "held (dm_reg d) = None"
    "sa_req_Q ?a = []" "sa_resp_Q ?a = []" "held (sa_m_resp ?a) = None"
    using assms(2) flds(2) by (simp_all add: slaves_idle_def dm_idle_def)
  obtain r where r: "push ops (dm_reg d) rp = (r, True)" "held r = Some rp" "\<not> isStalled ops (dm_reg d)"
    by (rule slot_push [OF assms(1) idle(3)])
  then have "trySendResponse ops ?d2 = ?d2\<lparr>dm_reg := r, dm_respQ := []\<rparr>" by (simp add: trySendResponse_def try_send_def)
  then have ex: "dm_exec_events ops (map snd (beats @ [(t, TrySendEvent)])) d = Inr (?d2\<lparr>dm_reg := r, dm_respQ := []\<rparr>)"
    using run by (simp add: dm_exec_append)
  have eq: "?d2\<lparr>dm_respQ := [], dm_reg := drain r, dm_events := dm_events (soc_dmem x)\<rparr> = (soc_dmem x)\<lparr>dm_base := m, dm_reg := drain r\<rparr>"
    by (rule data_memory.equality) (use idle flds(3) in simp_all)
  have step: "sa_step ops cfg now (soc_ctr x) None ?a = Inr (?a, soc_ctr x)" using idle(4,5) by (simp add: sa_step_def)
  have "bus_serve ops held drain cfg now p x = Inr (x\<lparr>soc_dmem := (soc_dmem x)\<lparr>dm_base := m, dm_reg := drain r\<rparr>,
      soc_sa := ?a\<lparr>sa_m_resp := drain (sa_m_resp ?a)\<rparr>\<rparr>, [rp])"
    using ex r(2) idle(6) step flds(1) eq by (simp add: bus_serve_def req)
  then show ?thesis using slot_drain [OF assms(1)] by (intro exI [of _ "drain r"] exI [of _ "drain (sa_m_resp ?a)"]) (simp add: served_def)
qed

text \<open>The SRAM: a burst runs on the idle array and leaves one response in its queue.\<close>

lemma sa_reads_collect:
  assumes "qs \<noteq> []" "\<forall>q \<in> set qs. rq_tid q = t \<and> rq_caller q = c \<and> sram_read (sram s) (rq_op q) (rq_addr q) = Some (f (rq_addr q))"
    and "sa_pending s t = Some \<lparr>expected = int (length bs + length qs), rbeats = bs, wbeats = ws\<rparr>"
  shows "sa_exec_events cfg now ctr (map SaSRAMRead qs) s = Inr (s\<lparr>sa_pending := (sa_pending s)(t := None),
    sa_resp_Q := sa_resp_Q s @ [ReadResp (setTID t (Construct_MemReadRespPkt (bs @ answers f qs) ''sa'' c))]\<rparr>, ctr)"
  using assms
proof (induction qs arbitrary: s bs)
  case (Cons q qs)
  let ?b = "hd (answers f [q])"
  let ?tk = "\<lparr>expected = int (length bs + length (q # qs)), rbeats = bs @ [?b], wbeats = ws\<rparr>"
  show ?case
  proof (cases "qs = []")
    case True
    then show ?thesis using Cons.prems
      by (simp add: SRAMReadReqHandler_def sa_collect_read_def tracker_at_def Let_def answers_def fun_upd_def)
  next
    case False
    then have "sa_exec_event cfg now ctr (SaSRAMRead q) s = Inr (s\<lparr>sa_pending := (sa_pending s)(t \<mapsto> ?tk)\<rparr>, ctr)"
      using Cons.prems by (simp add: SRAMReadReqHandler_def sa_collect_read_def tracker_at_def Let_def answers_def)
    moreover have "sa_exec_events cfg now ctr (map SaSRAMRead qs) (s\<lparr>sa_pending := (sa_pending s)(t \<mapsto> ?tk)\<rparr>) = Inr (s\<lparr>sa_pending := (sa_pending s)(t := None),
        sa_resp_Q := sa_resp_Q s @ [ReadResp (setTID t (Construct_MemReadRespPkt ((bs @ [?b]) @ answers f qs) ''sa'' c))]\<rparr>, ctr)"
      using Cons.prems False by (subst Cons.IH [where bs = "bs @ [?b]"]) simp_all
    ultimately show ?thesis by (simp add: answers_def fun_upd_def)
  qed
qed blast

primrec sram_apply_writes :: "u8 list \<Rightarrow> write_req_payload list \<Rightarrow> u8 list option" where
  "sram_apply_writes m [] = Some m"
| "sram_apply_writes m (q # qs) =
     (case sram_write m (wq_op q) (wq_addr q) (wq_data q) of None \<Rightarrow> None | Some m' \<Rightarrow> sram_apply_writes m' qs)"

lemma sa_writes_collect:
  assumes "qs \<noteq> []" "\<forall>q \<in> set qs. wq_tid q = t \<and> wq_caller q = c \<and> SA_MEMORY_BASE \<le> wq_addr q" "sram_apply_writes (sram s) qs = Some m"
    and "sa_pending s t = Some \<lparr>expected = int (length bs + length qs), rbeats = rs, wbeats = bs\<rparr>"
  shows "sa_exec_events cfg now ctr (map SaSRAMWrite qs) s = Inr (s\<lparr>sram := m, sa_pending := (sa_pending s)(t := None),
    sa_resp_Q := sa_resp_Q s @ [WriteResp (setTID t (Construct_MemWriteRespPkt (bs @ write_answers qs) ''sa'' c))]\<rparr>, ctr)"
  using assms
proof (induction qs arbitrary: s bs)
  case (Cons q qs)
  let ?b = "hd (write_answers [q])"
  let ?tk = "\<lparr>expected = int (length bs + length (q # qs)), rbeats = rs, wbeats = bs @ [?b]\<rparr>"
  from Cons.prems(3) obtain m1 where m1: "sram_write (sram s) (wq_op q) (wq_addr q) (wq_data q) = Some m1"
    "sram_apply_writes m1 qs = Some m" by (auto split: option.splits)
  show ?case
  proof (cases "qs = []")
    case True
    then show ?thesis using Cons.prems m1
      by (simp add: SRAMWriteReqHandler_def sa_collect_write_def tracker_at_def Let_def write_answers_def fun_upd_def)
  next
    case False
    then have "sa_exec_event cfg now ctr (SaSRAMWrite q) s = Inr (s\<lparr>sram := m1, sa_pending := (sa_pending s)(t \<mapsto> ?tk)\<rparr>, ctr)"
      using Cons.prems m1 by (simp add: SRAMWriteReqHandler_def sa_collect_write_def tracker_at_def Let_def write_answers_def)
    moreover have "sa_exec_events cfg now ctr (map SaSRAMWrite qs) (s\<lparr>sram := m1, sa_pending := (sa_pending s)(t \<mapsto> ?tk)\<rparr>) =
        Inr (s\<lparr>sram := m, sa_pending := (sa_pending s)(t := None),
          sa_resp_Q := sa_resp_Q s @ [WriteResp (setTID t (Construct_MemWriteRespPkt ((bs @ [?b]) @ write_answers qs) ''sa'' c))]\<rparr>, ctr)"
      using Cons.prems m1 False by (subst Cons.IH [where bs = "bs @ [?b]"]) simp_all
    ultimately show ?thesis by (simp add: write_answers_def fun_upd_def)
  qed
qed blast

lemma empty_upd_None: "Map.empty(t := None) = Map.empty"
  by simp

text \<open>A packet of the controller: its beats carry its identifier and its name.\<close>

definition from_dma :: "('q \<Rightarrow> int) \<Rightarrow> ('q \<Rightarrow> string) \<Rightarrow> int \<Rightarrow> 'q xbar_packet \<Rightarrow> bool" where
  "from_dma tid caller t pkt \<longleftrightarrow> payloadList pkt \<noteq> [] \<and> burstSize pkt = int (length (payloadList pkt)) \<and> TransactionID pkt = Some t
     \<and> (\<forall>q \<in> set (payloadList pkt). tid q = t \<and> caller q = ''dma'')"

lemma to_memory_from_dma: "to_memory tid caller t pkt \<longleftrightarrow> from_dma tid caller t pkt \<and> dst_idx pkt = 0"
  by (auto simp: to_memory_def from_dma_def)

lemma bus_serve_sa:
  assumes "slot_contract ops held drain" "slaves_idle held x"
    and req: "soc_request ops cfg now p x = Inr (x\<lparr>soc_sa := a\<rparr>)"
    and a: "a = (soc_sa x)\<lparr>sa_pending := sa_pending a, sa_events := sa_events (soc_sa x) @ beats\<rparr>"
    and run: "sa_exec_events cfg now (soc_ctr x) (map snd beats) a = Inr (a\<lparr>sram := m, sa_pending := Map.empty, sa_resp_Q := [rp]\<rparr>, soc_ctr x)"
  shows "\<exists>r r'. bus_serve ops held drain cfg now p x =
      Inr (served x (dm_base (soc_dmem x)) m r r', [rp]) \<and> held r = None \<and> held r' = None"
proof -
  let ?a2 = "a\<lparr>sram := m, sa_pending := Map.empty, sa_resp_Q := [rp]\<rparr>" and ?d = "soc_dmem x"
  have flds: "sa_events a = sa_events (soc_sa x) @ beats" "sa_m_resp a = sa_m_resp (soc_sa x)" "sa_req_Q a = sa_req_Q (soc_sa x)"
    by (subst a, simp)+
  have idle: "sa_pending (soc_sa x) = Map.empty" "sa_req_Q a = []" "sa_resp_Q (soc_sa x) = []" "held (sa_m_resp a) = None" "held (dm_reg ?d) = None"
    using assms(2) flds(2,3) by (simp_all add: slaves_idle_def)
  obtain r where r: "push ops (sa_m_resp a) rp = (r, True)" "held r = Some rp" "\<not> isStalled ops (sa_m_resp a)"
    by (rule slot_push [OF assms(1) idle(4)])
  have step: "sa_step ops cfg now (soc_ctr x) None ?a2 = Inr (?a2\<lparr>sa_m_resp := r, sa_resp_Q := []\<rparr>, soc_ctr x)"
    using r idle(2) by (simp add: sa_step_def sa_trySendPacket_def push_and_pop_def)
  have eq: "?a2\<lparr>sa_resp_Q := [], sa_m_resp := drain r, sa_events := sa_events (soc_sa x)\<rparr> = (soc_sa x)\<lparr>sram := m, sa_m_resp := drain r\<rparr>"
    by (subst a) (use idle in simp)
  have "bus_serve ops held drain cfg now p x = Inr (x\<lparr>soc_dmem := ?d\<lparr>dm_reg := drain (dm_reg ?d)\<rparr>,
      soc_sa := (soc_sa x)\<lparr>sram := m, sa_m_resp := drain r\<rparr>\<rparr>, [rp])"
    using run r(2) idle(5) step flds(1) eq by (simp add: bus_serve_def req)
  then show ?thesis using slot_drain [OF assms(1)] by (intro exI [of _ "drain (dm_reg ?d)"] exI [of _ "drain r"]) (simp add: served_def)
qed

text \<open>A request to the idle array, for either kind of burst.\<close>

lemma sa_request_burst:
  assumes "slaves_idle held x" "from_dma tid caller t pkt" "to_sram (addr_of (hd (payloadList pkt)))"
  obtains a beats where "sa_accept cfg now addr_of ev mmio_ev pkt (soc_sa x) = Inr a"
    "a = (soc_sa x)\<lparr>sa_pending := sa_pending a, sa_events := sa_events (soc_sa x) @ beats\<rparr>" "map snd beats = map ev (payloadList pkt)"
    "sa_pending a = [t \<mapsto> \<lparr>expected = int (length (payloadList pkt)), rbeats = [], wbeats = []\<rparr>]"
proof -
  let ?ps = "payloadList pkt"
  let ?b = "map (\<lambda>i. (now + i + memory_read_latency cfg, ev (?ps ! i))) [0..<length ?ps]"
  let ?a = "(soc_sa x)\<lparr>sa_pending := [t \<mapsto> \<lparr>expected = int (length ?ps), rbeats = [], wbeats = []\<rparr>], sa_events := sa_events (soc_sa x) @ ?b\<rparr>"
  obtain q qs where ps: "?ps = q # qs" using assms(2) by (cases ?ps) (auto simp: from_dma_def)
  have "sa_accept cfg now addr_of ev mmio_ev pkt (soc_sa x) = Inr ?a"
    using assms ps by (simp add: sa_accept_def from_dma_def slaves_idle_def getTID_def expect_beats_def tracker_at_def empty_tracker_def sa_schedule_def Let_def
        del: upt_Suc)
  moreover have "map snd ?b = map ev ?ps" by (intro nth_equalityI) simp_all
  ultimately show thesis by (intro that [of ?a ?b]) simp_all
qed

section \<open>The address space of words\<close>

definition sram_word_at :: "u8 list \<Rightarrow> u32 \<Rightarrow> u32" where
  "sram_word_at m a = (case sram.load_at m LW a of Inr v \<Rightarrow> v | Inl _ \<Rightarrow> 0)"

definition bus_word :: "'r soc \<Rightarrow> u32 \<Rightarrow> u32" where
  "bus_word x a = (if slaveIndex a = 2 then sram_word_at (sram (soc_sa x)) a else mem_word (dm_base (soc_dmem x)) a)"

text \<open>The words a burst can reach: in the data memory, or in the part of the SRAM the array recognises.\<close>

definition bus_mapped :: "'r soc \<Rightarrow> u32 \<Rightarrow> bool" where
  "bus_mapped x a \<longleftrightarrow> slaveIndex a = 0 \<and> mem_in_range (dm_base (soc_dmem x)) a 4 \<or> slaveIndex a = 2 \<and> to_sram a"

definition bus_ready :: "'r reg_ops \<Rightarrow> ('r \<Rightarrow> sim_packet option) \<Rightarrow> ('r \<Rightarrow> 'r) \<Rightarrow> 'r soc \<Rightarrow> bool" where
  "bus_ready ops held drain x \<longleftrightarrow> slot_contract ops held drain \<and> slaves_idle held x \<and> mem_ok (dm_base (soc_dmem x)) \<and> sram_ok (sram (soc_sa x))"

text \<open>What serving a burst leaves alone: everything but the words and the two registers of the slaves.\<close>

definition bus_frame :: "'r soc \<Rightarrow> 'r cpu \<times> cfu \<times> 'r dma \<times> int \<times> 'r sa" where
  "bus_frame x = (soc_cpu x, soc_cfu x, soc_dma x, soc_ctr x, (soc_sa x)\<lparr>sram := [], sa_m_resp := sa_m_req (soc_sa x)\<rparr>)"

lemma to_sram_run: "to_sram a \<Longrightarrow> sram_run m a 4" "to_sram a \<Longrightarrow> slaveIndex a = 2" "to_sram a \<Longrightarrow> SA_MEMORY_BASE \<le> a"
  using sram_offset_add [of a]
  by (auto simp: to_sram_def sram_run_def sram_bytes_def SA_SRAM_SIZE_def slaveIndex_def address_map_defs word_le_nat_alt word_less_nat_alt)

lemma sram_apply_store_words:
  "map write_key qs = map (\<lambda>(a, v). (SW, a, v)) avs \<Longrightarrow> sram.store_words m avs = Inr m' \<Longrightarrow> sram_apply_writes m qs = Some m'"
proof (induction avs arbitrary: m qs)
  case (Cons av avs)
  then obtain q qs' where qs: "qs = q # qs'" "write_key q = (SW, fst av, snd av)" "map write_key qs' = map (\<lambda>(a, v). (SW, a, v)) avs"
    by (auto simp: case_prod_beta)
  have "wq_op q = SW" "wq_addr q = fst av" "wq_data q = snd av" using qs(2) by (auto simp: write_key_def)
  then show ?case
    using Cons.IH [OF qs(3)] Cons.prems(2) qs(1) by (auto simp: sram_write_eq result_simps)
qed simp

lemma served_keeps:
  "bus_frame (served x m w r r') = bus_frame x"
  "dm_base (soc_dmem (served x m w r r')) = m" "sram (soc_sa (served x m w r r')) = w"
  "held r = None \<Longrightarrow> held r' = None \<Longrightarrow> slaves_idle held x \<Longrightarrow> slaves_idle held (served x m w r r')"
  by (simp_all add: served_def bus_frame_def slaves_idle_def dm_idle_def)

text \<open>A burst of reads.\<close>

lemma bus_reads:
  assumes "bus_ready ops held drain x" "from_dma rq_tid rq_caller t pkt"
    and "\<forall>q \<in> set (payloadList pkt). rq_op q = LW \<and> bus_mapped x (rq_addr q) \<and> slaveIndex (rq_addr q) = dst_idx pkt"
  shows "\<exists>r r' rp. bus_serve ops held drain cfg now (ReadReq pkt) x = Inr (served x (dm_base (soc_dmem x)) (sram (soc_sa x)) r r', [ReadResp rp])
    \<and> payloadList rp = answers (bus_word x) (payloadList pkt) \<and> dst_idx rp = 1 \<and> held r = None \<and> held r' = None"
proof -
  let ?m = "dm_base (soc_dmem x)" and ?w = "sram (soc_sa x)" and ?qs = "payloadList pkt"
  have rdy: "slot_contract ops held drain" "slaves_idle held x" "mem_ok ?m" "sram_ok ?w" using assms(1) by (simp_all add: bus_ready_def)
  have ne: "hd ?qs \<in> set ?qs" "?qs \<noteq> []" using assms(2) by (auto simp: from_dma_def)
  have "dst_idx pkt = 0 \<or> dst_idx pkt = 2" using bspec [OF assms(3) ne(1)] by (auto simp: bus_mapped_def)
  then show ?thesis
  proof
    assume dst: "dst_idx pkt = 0"
    let ?rp = "setTID t (Construct_MemReadRespPkt (answers (bus_word x) ?qs) ''dm'' ''dma'')"
    have idle: "dm_idle (soc_dmem x)" using rdy(2) by (simp add: slaves_idle_def)
    have tm: "to_memory rq_tid rq_caller t pkt" using assms(2) dst by (simp add: to_memory_from_dma)
    have rd: "\<forall>q \<in> set ?qs. dm_read_value ?m (rq_op q) (rq_addr q) = Inr (bus_word x (rq_addr q))"
      using assms(3) dst rdy(3) by (auto simp: bus_word_def bus_mapped_def mem_word_read)
    obtain d beats t' where "soc_request ops cfg now (ReadReq pkt) x = Inr (x\<lparr>soc_dmem := d\<rparr>)"
      "d = (soc_dmem x)\<lparr>dm_pending := dm_pending d, dm_events := dm_events (soc_dmem x) @ beats @ [(t', TrySendEvent)]\<rparr>"
      "dm_exec_events ops (map snd beats) d = Inr (d\<lparr>dm_base := ?m, dm_pending := Map.empty, dm_respQ := [ReadResp ?rp]\<rparr>)"
      by (rule dm_request_reads [OF idle tm rd, of ops cfg now])
    from bus_serve_dm [OF rdy(1,2) this] obtain r r' where
      "bus_serve ops held drain cfg now (ReadReq pkt) x = Inr (served x ?m ?w r r', [ReadResp ?rp])" "held r = None" "held r' = None" by blast
    then show ?thesis by (intro exI [of _ r] exI [of _ r'] exI [of _ ?rp]) (simp add: packet_defs)
  next
    assume dst: "dst_idx pkt = 2"
    let ?rp = "setTID t (Construct_MemReadRespPkt (answers (bus_word x) ?qs) ''sa'' ''dma'')"
    have sr: "to_sram (rq_addr q) \<and> sram_read ?w (rq_op q) (rq_addr q) = Some (bus_word x (rq_addr q))" if "q \<in> set ?qs" for q
    proof -
      have "to_sram (rq_addr q)" "rq_op q = LW" "slaveIndex (rq_addr q) = 2" using that assms(3) dst by (auto simp: bus_mapped_def)
      moreover from this obtain v where "sram.load_at ?w LW (rq_addr q) = Inr v"
        using sram.load_total [OF rdy(4), of "rq_addr q" LW] to_sram_run(1) by auto
      ultimately show ?thesis by (simp add: bus_word_def sram_word_at_def sram_read_eq)
    qed
    have "to_sram (rq_addr (hd ?qs))" using sr ne(1) by blast
    then obtain a beats where a: "sa_accept cfg now rq_addr SaSRAMRead SaReadMMIO pkt (soc_sa x) = Inr a"
      "a = (soc_sa x)\<lparr>sa_pending := sa_pending a, sa_events := sa_events (soc_sa x) @ beats\<rparr>" "map snd beats = map SaSRAMRead ?qs"
      "sa_pending a = [t \<mapsto> \<lparr>expected = int (length ?qs), rbeats = [], wbeats = []\<rparr>]"
      by (rule sa_request_burst [OF rdy(2) assms(2), of rq_addr cfg now SaSRAMRead SaReadMMIO])
    have flds: "sram a = ?w" "sa_resp_Q a = sa_resp_Q (soc_sa x)" by (subst a(2), simp)+
    have req: "soc_request ops cfg now (ReadReq pkt) x = Inr (x\<lparr>soc_sa := a\<rparr>)"
      using dst a(1) rdy(2) by (simp add: soc_request_def sa_step_def slaves_idle_def)
    have run: "sa_exec_events cfg now (soc_ctr x) (map snd beats) a = Inr (a\<lparr>sram := ?w, sa_pending := Map.empty, sa_resp_Q := [ReadResp ?rp]\<rparr>, soc_ctr x)"
      using sa_reads_collect [OF ne(2), of t "''dma''" a "bus_word x" "[]" "[]" cfg now "soc_ctr x"] sr a(3,4) flds assms(2) rdy(2)
      by (simp add: from_dma_def slaves_idle_def empty_upd_None)
    from bus_serve_sa [OF rdy(1,2) req a(2) run] obtain r r' where
      "bus_serve ops held drain cfg now (ReadReq pkt) x = Inr (served x ?m ?w r r', [ReadResp ?rp])" "held r = None" "held r' = None" by blast
    then show ?thesis by (intro exI [of _ r] exI [of _ r'] exI [of _ ?rp]) (simp add: packet_defs)
  qed
qed

text \<open>A burst of writes, given what the memories become.\<close>

lemma bus_writes_dm:
  assumes "bus_ready ops held drain x" "from_dma wq_tid wq_caller t pkt" "dst_idx pkt = 0"
    and "dm_apply_writes (dm_base (soc_dmem x)) (payloadList pkt) = Inr m"
  shows "\<exists>r r' rp. bus_serve ops held drain cfg now (WriteReq pkt) x = Inr (served x m (sram (soc_sa x)) r r', [WriteResp rp])
    \<and> dst_idx rp = 1 \<and> held r = None \<and> held r' = None"
proof -
  let ?rp = "setTID t (Construct_MemWriteRespPkt (write_answers (payloadList pkt)) ''dm'' ''dma'')"
  have rdy: "slot_contract ops held drain" "slaves_idle held x" "dm_idle (soc_dmem x)"
    using assms(1) by (simp_all add: bus_ready_def slaves_idle_def)
  have tm: "to_memory wq_tid wq_caller t pkt" using assms(2,3) by (simp add: to_memory_from_dma)
  obtain d beats t' where "soc_request ops cfg now (WriteReq pkt) x = Inr (x\<lparr>soc_dmem := d\<rparr>)"
    "d = (soc_dmem x)\<lparr>dm_pending := dm_pending d, dm_events := dm_events (soc_dmem x) @ beats @ [(t', TrySendEvent)]\<rparr>"
    "dm_exec_events ops (map snd beats) d = Inr (d\<lparr>dm_base := m, dm_pending := Map.empty, dm_respQ := [WriteResp ?rp]\<rparr>)"
    by (rule dm_request_writes [OF rdy(3) tm assms(4), of ops cfg now])
  from bus_serve_dm [OF rdy(1,2) this] obtain r r' where
    "bus_serve ops held drain cfg now (WriteReq pkt) x = Inr (served x m (sram (soc_sa x)) r r', [WriteResp ?rp])" "held r = None" "held r' = None" by blast
  then show ?thesis by (intro exI [of _ r] exI [of _ r'] exI [of _ ?rp]) (simp add: packet_defs)
qed

lemma bus_writes_sa:
  assumes "bus_ready ops held drain x" "from_dma wq_tid wq_caller t pkt" "dst_idx pkt = 2"
    and "\<forall>q \<in> set (payloadList pkt). to_sram (wq_addr q)" "sram_apply_writes (sram (soc_sa x)) (payloadList pkt) = Some w"
  shows "\<exists>r r' rp. bus_serve ops held drain cfg now (WriteReq pkt) x = Inr (served x (dm_base (soc_dmem x)) w r r', [WriteResp rp])
    \<and> dst_idx rp = 1 \<and> held r = None \<and> held r' = None"
proof -
  let ?qs = "payloadList pkt" and ?rp = "setTID t (Construct_MemWriteRespPkt (write_answers (payloadList pkt)) ''sa'' ''dma'')"
  have rdy: "slot_contract ops held drain" "slaves_idle held x" using assms(1) by (simp_all add: bus_ready_def)
  have ne: "hd ?qs \<in> set ?qs" "?qs \<noteq> []" using assms(2) by (auto simp: from_dma_def)
  have "to_sram (wq_addr (hd ?qs))" using assms(4) ne(1) by blast
  then obtain a beats where a: "sa_accept cfg now wq_addr SaSRAMWrite SaWriteMMIO pkt (soc_sa x) = Inr a"
    "a = (soc_sa x)\<lparr>sa_pending := sa_pending a, sa_events := sa_events (soc_sa x) @ beats\<rparr>" "map snd beats = map SaSRAMWrite ?qs"
    "sa_pending a = [t \<mapsto> \<lparr>expected = int (length ?qs), rbeats = [], wbeats = []\<rparr>]"
    by (rule sa_request_burst [OF rdy(2) assms(2), of wq_addr cfg now SaSRAMWrite SaWriteMMIO])
  have flds: "sram a = sram (soc_sa x)" "sa_resp_Q a = sa_resp_Q (soc_sa x)" by (subst a(2), simp)+
  have req: "soc_request ops cfg now (WriteReq pkt) x = Inr (x\<lparr>soc_sa := a\<rparr>)"
    using assms(3) a(1) rdy(2) by (simp add: soc_request_def sa_step_def slaves_idle_def)
  have "sa_exec_events cfg now (soc_ctr x) (map snd beats) a = Inr (a\<lparr>sram := w, sa_pending := Map.empty, sa_resp_Q := [WriteResp ?rp]\<rparr>, soc_ctr x)"
    using sa_writes_collect [OF ne(2), of t "''dma''" a w "[]" "[]" cfg now "soc_ctr x"] assms(2,4,5) to_sram_run(3) a(3,4) flds rdy(2)
    by (simp add: from_dma_def slaves_idle_def empty_upd_None)
  from bus_serve_sa [OF rdy req a(2) this] obtain r r' where
    "bus_serve ops held drain cfg now (WriteReq pkt) x = Inr (served x (dm_base (soc_dmem x)) w r r', [WriteResp ?rp])" "held r = None" "held r' = None" by blast
  then show ?thesis by (intro exI [of _ r] exI [of _ r'] exI [of _ ?rp]) (simp add: packet_defs)
qed

section \<open>The contract\<close>

text \<open>
  A master of the bus reads and writes words in bursts. \<open>mapped\<close> are the addresses it may use, all of a
  burst on one slave; \<open>frame\<close> is what no burst changes.
\<close>

locale word_bus =
  fixes serve :: "nat \<Rightarrow> sim_packet \<Rightarrow> 'm \<Rightarrow> ('m \<times> sim_packet list) result"
    and ready :: "'m \<Rightarrow> bool" and mapped :: "'m \<Rightarrow> u32 \<Rightarrow> bool" and word_at :: "'m \<Rightarrow> u32 \<Rightarrow> u32" and frame :: "'m \<Rightarrow> 'f"
  assumes serve_reads: "ready m \<Longrightarrow> from_dma rq_tid rq_caller t p \<Longrightarrow>
      \<forall>q \<in> set (payloadList p). rq_op q = LW \<and> mapped m (rq_addr q) \<and> slaveIndex (rq_addr q) = dst_idx p \<Longrightarrow>
      \<exists>m' rp. serve now (ReadReq p) m = Inr (m', [ReadResp rp]) \<and> payloadList rp = answers (word_at m) (payloadList p)
        \<and> ready m' \<and> mapped m' = mapped m \<and> word_at m' = word_at m \<and> frame m' = frame m"
    and serve_writes: "ready m \<Longrightarrow> from_dma wq_tid wq_caller t w \<Longrightarrow>
      map write_key (payloadList w) = map (\<lambda>(a, v). (SW, a, v)) avs \<Longrightarrow>
      \<forall>(a, v) \<in> set avs. mapped m a \<and> slaveIndex a = dst_idx w \<Longrightarrow> sorted_wrt apart (map fst avs) \<Longrightarrow>
      \<exists>m' rp. serve now (WriteReq w) m = Inr (m', [WriteResp rp]) \<and> ready m' \<and> mapped m' = mapped m \<and> frame m' = frame m
        \<and> (\<forall>(a, v) \<in> set avs. word_at m' a = v)
        \<and> (\<forall>b. mapped m b \<longrightarrow> (\<forall>a \<in> fst ` set avs. apart b a) \<longrightarrow> word_at m' b = word_at m b)"

text \<open>Stores of words in either memory, as the words a master sees.\<close>

lemma mem_words_stored:
  assumes "mem_ok m" "\<forall>(a, v) \<in> set avs. mem_in_range m a 4" "sorted_wrt apart (map fst avs)"
    and "map write_key qs = map (\<lambda>(a, v). (SW, a, v)) avs"
  shows "\<exists>m'. dm_apply_writes m qs = Inr m' \<and> mem_ok m' \<and> mem_in_range m' = mem_in_range m \<and> (\<forall>(a, v) \<in> set avs. mem_word m' a = v)
    \<and> (\<forall>b. mem_in_range m b 4 \<longrightarrow> (\<forall>a \<in> fst ` set avs. apart b a) \<longrightarrow> mem_word m' b = mem_word m b)"
  using bm.store_words_spec [OF assms(1-3)] dm_apply_store_words [OF assms(4), of m]
  by (fastforce simp: mem_word_def dm_read_value_eq fun_eq_iff)

lemma sram_words_stored:
  assumes "sram_ok w" "\<forall>(a, v) \<in> set avs. sram_run w a 4" "sorted_wrt apart (map fst avs)"
    and "map write_key qs = map (\<lambda>(a, v). (SW, a, v)) avs"
  shows "\<exists>w'. sram_apply_writes w qs = Some w' \<and> sram_ok w' \<and> (\<forall>(a, v) \<in> set avs. sram_word_at w' a = v)
    \<and> (\<forall>b. sram_run w b 4 \<longrightarrow> (\<forall>a \<in> fst ` set avs. apart b a) \<longrightarrow> sram_word_at w' b = sram_word_at w b)"
  using sram.store_words_spec [OF assms(1-3)] sram_apply_store_words [OF assms(4), of w]
  by (fastforce simp: sram_word_at_def)

lemma bus_writes:
  assumes "bus_ready ops held drain x" "from_dma wq_tid wq_caller t p" "map write_key (payloadList p) = map (\<lambda>(a, v). (SW, a, v)) avs"
    and "\<forall>(a, v) \<in> set avs. bus_mapped x a \<and> slaveIndex a = dst_idx p" "sorted_wrt apart (map fst avs)"
  obtains m w r r' rp where "bus_serve ops held drain cfg now (WriteReq p) x = Inr (served x m w r r', [WriteResp rp])"
    "held r = None" "held r' = None" "mem_ok m" "sram_ok w" "mem_in_range m = mem_in_range (dm_base (soc_dmem x))"
    "\<forall>(a, v) \<in> set avs. bus_word (served x m w r r') a = v"
    "\<forall>b. bus_mapped x b \<longrightarrow> (\<forall>a \<in> fst ` set avs. apart b a) \<longrightarrow> bus_word (served x m w r r') b = bus_word x b"
proof -
  let ?m = "dm_base (soc_dmem x)" and ?w = "sram (soc_sa x)"
  have oks: "mem_ok ?m" "sram_ok ?w" using assms(1) by (simp_all add: bus_ready_def)
  have "avs \<noteq> []" using assms(2,3) by (auto simp: from_dma_def)
  then have "hd avs \<in> set avs" by simp
  with assms(4) consider "dst_idx p = 0" | "dst_idx p = 2" by (auto simp: bus_mapped_def)
  then show thesis
  proof cases
    case 1
    then have mr: "\<forall>(a, v) \<in> set avs. mem_in_range ?m a 4" "\<forall>(a, v) \<in> set avs. slaveIndex a \<noteq> 2"
      using assms(4) by (auto simp: bus_mapped_def)
    from mem_words_stored [OF oks(1) mr(1) assms(5,3)] obtain m where m: "dm_apply_writes ?m (payloadList p) = Inr m" "mem_ok m"
      "mem_in_range m = mem_in_range ?m" "\<forall>(a, v) \<in> set avs. mem_word m a = v"
      "\<forall>b. mem_in_range ?m b 4 \<longrightarrow> (\<forall>a \<in> fst ` set avs. apart b a) \<longrightarrow> mem_word m b = mem_word ?m b" by blast
    from bus_writes_dm [OF assms(1,2) 1 m(1), of cfg now] obtain r r' rp where
      "bus_serve ops held drain cfg now (WriteReq p) x = Inr (served x m ?w r r', [WriteResp rp])" "held r = None" "held r' = None" by blast
    with m mr oks show thesis by (intro that [of m ?w r r' rp]) (auto simp: bus_word_def bus_mapped_def served_keeps)
  next
    case 2
    then have sr: "\<forall>(a, v) \<in> set avs. sram_run ?w a 4" "\<forall>(a, v) \<in> set avs. slaveIndex a = 2" "\<forall>(a, v) \<in> set avs. to_sram a"
      using assms(4) to_sram_run(1) by (auto simp: bus_mapped_def)
    from sram_words_stored [OF oks(2) sr(1) assms(5,3)] obtain w where w: "sram_apply_writes ?w (payloadList p) = Some w" "sram_ok w"
      "\<forall>(a, v) \<in> set avs. sram_word_at w a = v"
      "\<forall>b. sram_run ?w b 4 \<longrightarrow> (\<forall>a \<in> fst ` set avs. apart b a) \<longrightarrow> sram_word_at w b = sram_word_at ?w b" by blast
    have "wq_addr ` set (payloadList p) = fst ` set avs" using arg_cong [OF assms(3), of "\<lambda>l. (fst \<circ> snd) ` set l"]
      by (simp add: image_image write_key_def case_prod_beta)
    then have "\<forall>q \<in> set (payloadList p). to_sram (wq_addr q)" using sr(3) by (metis (no_types, lifting) case_prodD imageE imageI prod.collapse)
    from bus_writes_sa [OF assms(1,2) 2 this w(1), of cfg now] obtain r r' rp where
      "bus_serve ops held drain cfg now (WriteReq p) x = Inr (served x ?m w r r', [WriteResp rp])" "held r = None" "held r' = None" by blast
    with w sr(2) oks to_sram_run(1) show thesis by (intro that [of ?m w r r' rp]) (auto simp: bus_word_def bus_mapped_def served_keeps)
  qed
qed

interpretation soc_bus: word_bus "bus_serve ops held drain cfg" "bus_ready ops held drain" bus_mapped bus_word bus_frame
  for ops :: "'r reg_ops" and held drain cfg
proof unfold_locales
  fix x :: "'r soc" and now :: nat and t and p :: "read_req_payload xbar_packet"
  let ?m = "dm_base (soc_dmem x)" and ?w = "sram (soc_sa x)"
  assume rdy: "bus_ready ops held drain x" and p: "from_dma rq_tid rq_caller t p"
    "\<forall>q \<in> set (payloadList p). rq_op q = LW \<and> bus_mapped x (rq_addr q) \<and> slaveIndex (rq_addr q) = dst_idx p"
  from bus_reads [OF rdy p, of cfg now] obtain r r' rp where
    "bus_serve ops held drain cfg now (ReadReq p) x = Inr (served x ?m ?w r r', [ReadResp rp])"
    "payloadList rp = answers (bus_word x) (payloadList p)" "held r = None" "held r' = None" by blast
  moreover have "bus_mapped (served x ?m ?w r r') = bus_mapped x" "bus_word (served x ?m ?w r r') = bus_word x"
    by (simp_all add: fun_eq_iff bus_mapped_def bus_word_def served_keeps)
  ultimately show "\<exists>m' rp. bus_serve ops held drain cfg now (ReadReq p) x = Inr (m', [ReadResp rp])
      \<and> payloadList rp = answers (bus_word x) (payloadList p) \<and> bus_ready ops held drain m' \<and> bus_mapped m' = bus_mapped x
      \<and> bus_word m' = bus_word x \<and> bus_frame m' = bus_frame x"
    using rdy by (intro exI [of _ "served x ?m ?w r r'"] exI [of _ rp]) (simp add: bus_ready_def served_keeps)
next
  fix x :: "'r soc" and now :: nat and t and p :: "write_req_payload xbar_packet" and avs
  assume rdy: "bus_ready ops held drain x" and p: "from_dma wq_tid wq_caller t p" "map write_key (payloadList p) = map (\<lambda>(a, v). (SW, a, v)) avs"
    "\<forall>(a, v) \<in> set avs. bus_mapped x a \<and> slaveIndex a = dst_idx p" "sorted_wrt apart (map fst avs)"
  obtain m w r r' rp where srv: "bus_serve ops held drain cfg now (WriteReq p) x = Inr (served x m w r r', [WriteResp rp])"
    "held r = None" "held r' = None" "mem_ok m" "sram_ok w" "mem_in_range m = mem_in_range (dm_base (soc_dmem x))"
    "\<forall>(a, v) \<in> set avs. bus_word (served x m w r r') a = v"
    "\<forall>b. bus_mapped x b \<longrightarrow> (\<forall>a \<in> fst ` set avs. apart b a) \<longrightarrow> bus_word (served x m w r r') b = bus_word x b"
    by (rule bus_writes [OF rdy p, of cfg now])
  moreover have "bus_mapped (served x m w r r') = bus_mapped x" using srv(6) by (simp add: fun_eq_iff bus_mapped_def served_keeps)
  ultimately show "\<exists>m' rp. bus_serve ops held drain cfg now (WriteReq p) x = Inr (m', [WriteResp rp]) \<and> bus_ready ops held drain m'
      \<and> bus_mapped m' = bus_mapped x \<and> bus_frame m' = bus_frame x \<and> (\<forall>(a, v) \<in> set avs. bus_word m' a = v)
      \<and> (\<forall>b. bus_mapped x b \<longrightarrow> (\<forall>a \<in> fst ` set avs. apart b a) \<longrightarrow> bus_word m' b = bus_word x b)"
    using rdy by (intro exI [of _ "served x m w r r'"] exI [of _ rp]) (simp add: bus_ready_def served_keeps)
qed

end
