(* ===== verification/BusPhases.thy ===== *)
theory BusPhases
  imports BusSlaves
begin

text \<open>
  The DMA controller and the crossbar as one transition system, for registers that hold one packet, with the
  parts of the system running in any order: the crossbar takes a packet from a register, a slave serves one of
  those under way, one of the responses arrives, the controller steps or is called back, one of its
  events runs, a master reads one of its registers. Packets under way may overtake each other.
  Then what a transfer needs of the memory, its phases, and what each response and each task of the controller does in them.
\<close>

section \<open>The system\<close>

text \<open>
  The controller, the counter of transaction identifiers, the slaves, and the requests and responses
  on their way through the crossbar.
\<close>

record ('r, 'm) bus_sys =
  bs_dma :: "'r dma"
  bs_ctr :: int
  bs_slaves :: 'm
  bs_req :: "sim_packet list"
  bs_resp :: "sim_packet list"

datatype bus_action =
    BusTake
  | BusAck
  | BusServe nat
  | BusRespond nat
  | BusIdle
  | BusRetry
  | BusEvent nat
  | BusPoll read_req_payload

definition remove_nth :: "nat \<Rightarrow> 'a list \<Rightarrow> 'a list" where
  "remove_nth i xs = take i xs @ drop (Suc i) xs"

text \<open>A read of a register by the processor or the array.\<close>

definition poll_ok :: "read_req_payload \<Rightarrow> bool" where
  "poll_ok q \<longleftrightarrow> dma_caller_ok (rq_caller q) \<and> rq_addr q \<in> {0xF000, 0xF004, 0xF008, 0xF00C, 0xF014}"

definition dma_does :: "('r, 'm) bus_sys \<Rightarrow> ('r dma \<times> int) result \<Rightarrow> ('r, 'm) bus_sys result" where
  "dma_does s res = bindE res (\<lambda>(d, c). Inr (s\<lparr>bs_dma := d, bs_ctr := c\<rparr>))"

text \<open>An action that is not possible gives \<open>None\<close>, one that fails \<open>Some (Inl e)\<close>.\<close>

fun bus_act ::
  "(nat \<Rightarrow> sim_packet \<Rightarrow> 'm \<Rightarrow> ('m \<times> sim_packet list) result) \<Rightarrow> 'r reg_ops \<Rightarrow> ('r \<Rightarrow> sim_packet option) \<Rightarrow> ('r \<Rightarrow> 'r)
     \<Rightarrow> sim_config \<Rightarrow> nat \<Rightarrow> bus_action \<Rightarrow> ('r, 'm) bus_sys \<Rightarrow> ('r, 'm) bus_sys result option" where
  "bus_act serve ops held drain cfg now BusTake s =
     (case held (m_req (bs_dma s)) of
        None \<Rightarrow> None
      | Some p \<Rightarrow> Some (Inr (s\<lparr>bs_dma := (bs_dma s)\<lparr>m_req := drain (m_req (bs_dma s))\<rparr>, bs_req := bs_req s @ [p]\<rparr>)))"
| "bus_act serve ops held drain cfg now BusAck s =
     (case held (m_resp (bs_dma s)) of
        None \<Rightarrow> None
      | Some p \<Rightarrow> Some (Inr (s\<lparr>bs_dma := (bs_dma s)\<lparr>m_resp := drain (m_resp (bs_dma s))\<rparr>\<rparr>)))"
| "bus_act serve ops held drain cfg now (BusServe i) s =
     (if i < length (bs_req s)
      then Some (bindE (serve now (bs_req s ! i) (bs_slaves s)) (\<lambda>(m, rs).
             Inr (s\<lparr>bs_slaves := m, bs_req := remove_nth i (bs_req s), bs_resp := bs_resp s @ rs\<rparr>)))
      else None)"
| "bus_act serve ops held drain cfg now (BusRespond i) s =
     (if i < length (bs_resp s)
      then Some (dma_does (s\<lparr>bs_resp := remove_nth i (bs_resp s)\<rparr>) (dma_step ops cfg now (bs_ctr s) (Some (bs_resp s ! i)) (bs_dma s)))
      else None)"
| "bus_act serve ops held drain cfg now BusIdle s = Some (dma_does s (dma_step ops cfg now (bs_ctr s) None (bs_dma s)))"
| "bus_act serve ops held drain cfg now BusRetry s = Some (Inr (s\<lparr>bs_dma := dma_masterPortRetry ops (bs_dma s)\<rparr>))"
| "bus_act serve ops held drain cfg now (BusEvent i) s =
     (if i < length (dma_events (bs_dma s))
      then Some (dma_does s (dma_exec_event ops cfg (bs_ctr s) (snd (dma_events (bs_dma s) ! i))
                   ((bs_dma s)\<lparr>dma_events := remove_nth i (dma_events (bs_dma s))\<rparr>)))
      else None)"
| "bus_act serve ops held drain cfg now (BusPoll q) s =
     (if poll_ok q
      then Some (dma_does s (dma_step ops cfg now (bs_ctr s) (Some (ReadReq (single q 0 1 (rq_tid q)))) (bs_dma s)))
      else None)"

inductive bus_run ::
  "(nat \<Rightarrow> sim_packet \<Rightarrow> 'm \<Rightarrow> ('m \<times> sim_packet list) result) \<Rightarrow> 'r reg_ops \<Rightarrow> ('r \<Rightarrow> sim_packet option) \<Rightarrow> ('r \<Rightarrow> 'r)
     \<Rightarrow> sim_config \<Rightarrow> ('r, 'm) bus_sys \<Rightarrow> ('r, 'm) bus_sys \<Rightarrow> bool" for serve ops held drain cfg where
  bus_start: "bus_run serve ops held drain cfg s s"
| bus_step: "bus_run serve ops held drain cfg s s1 \<Longrightarrow> bus_act serve ops held drain cfg now a s1 = Some (Inr s2) \<Longrightarrow>
    bus_run serve ops held drain cfg s s2"

lemma bus_run_trans:
  "bus_run serve ops held drain cfg b c \<Longrightarrow> bus_run serve ops held drain cfg a b \<Longrightarrow> bus_run serve ops held drain cfg a c"
  by (induction rule: bus_run.induct) (auto intro: bus_run.intros)

section \<open>Lists of packets\<close>

lemma filter_remove_nth:
  assumes "i < length xs"
  shows "\<not> P (xs ! i) \<Longrightarrow> filter P (remove_nth i xs) = filter P xs"
    "filter P xs = [y] \<Longrightarrow> P (xs ! i) \<Longrightarrow> xs ! i = y \<and> filter P (remove_nth i xs) = []"
    "P (xs ! i) \<Longrightarrow> length (filter P xs) = Suc (length (filter P (remove_nth i xs)))"
    "set xs = insert (xs ! i) (set (remove_nth i xs))"
proof -
  have xs: "xs = take i xs @ xs ! i # drop (Suc i) xs" by (rule id_take_nth_drop [OF assms])
  have f: "filter P xs = filter P (take i xs) @ filter P (xs ! i # drop (Suc i) xs)" by (subst xs) (rule filter_append)
  show "\<not> P (xs ! i) \<Longrightarrow> filter P (remove_nth i xs) = filter P xs"
    "filter P xs = [y] \<Longrightarrow> P (xs ! i) \<Longrightarrow> xs ! i = y \<and> filter P (remove_nth i xs) = []"
    "P (xs ! i) \<Longrightarrow> length (filter P xs) = Suc (length (filter P (remove_nth i xs)))"
    using f by (auto simp: remove_nth_def append_eq_Cons_conv)
  show "set xs = insert (xs ! i) (set (remove_nth i xs))" by (subst xs) (auto simp: remove_nth_def)
qed

lemma length_remove_nth: "i < length xs \<Longrightarrow> length xs = Suc (length (remove_nth i xs))"
  by (simp add: remove_nth_def)

text \<open>A list of keys cut into packets.\<close>

lemma keys_of_packets:
  assumes "map h (concat xss) = map k ys" "distinct ys"
  shows "(\<forall>xs \<in> set xss. \<exists>gs. map h xs = map k gs \<and> distinct gs \<and> set gs \<subseteq> set ys) \<and> (\<forall>y \<in> set ys. \<exists>xs \<in> set xss. k y \<in> h ` set xs)"
  using assms
proof (induction xss arbitrary: ys)
  case (Cons xs xss)
  let ?n = "length xs"
  have "length ys = length (concat (xs # xss))" using arg_cong [OF Cons.prems(1), of length] by simp
  then have "map h xs = map k (take ?n ys)" "map h (concat xss) = map k (drop ?n ys)"
    using arg_cong [OF Cons.prems(1), of "take ?n"] arg_cong [OF Cons.prems(1), of "drop ?n"]
    by (simp_all add: take_map drop_map)
  moreover from Cons.IH [OF this(2)] Cons.prems(2)
  have "\<forall>xs \<in> set xss. \<exists>gs. map h xs = map k gs \<and> distinct gs \<and> set gs \<subseteq> set (drop ?n ys)" "\<forall>y \<in> set (drop ?n ys). \<exists>xs \<in> set xss. k y \<in> h ` set xs" by simp_all
  moreover have "set ys = set (take ?n ys) \<union> set (drop ?n ys)" by (metis append_take_drop_id set_append)
  moreover have "k ` set (take ?n ys) = h ` set xs" using arg_cong [OF calculation(1), of set] by simp
  ultimately show ?case using Cons.prems(2) distinct_take [of ys ?n] by (auto simp: image_iff) blast+
qed simp

section \<open>What a transfer needs of the memory\<close>

text \<open>
  Source and destination words are mapped, the sources on one slave and the destinations on one slave;
  no destination overlaps another or a source.
\<close>

definition transferable :: "(u32 \<Rightarrow> bool) \<Rightarrow> nat \<Rightarrow> (nat \<Rightarrow> u32) \<Rightarrow> (nat \<Rightarrow> u32) \<Rightarrow> bool" where
  "transferable mp n src dst \<longleftrightarrow>
     (\<forall>g < n. mp (src g) \<and> mp (dst g) \<and> slaveIndex (src g) = slaveIndex (src 0) \<and> slaveIndex (dst g) = slaveIndex (dst 0))
     \<and> (\<forall>g < n. \<forall>h < n. apart (src g) (dst h) \<and> (g \<noteq> h \<longrightarrow> apart (dst g) (dst h)))"

lemma transferableD:
  assumes "transferable mp n src dst"
  shows "g < n \<Longrightarrow> mp (src g) \<and> mp (dst g)" "g < n \<Longrightarrow> slaveIndex (src g) = slaveIndex (src 0)" "g < n \<Longrightarrow> slaveIndex (dst g) = slaveIndex (dst 0)"
    "g < n \<Longrightarrow> h < n \<Longrightarrow> apart (src g) (dst h)" "g < n \<Longrightarrow> h < n \<Longrightarrow> g \<noteq> h \<Longrightarrow> apart (dst g) (dst h)"
  using assms unfolding transferable_def by blast+

text \<open>A write burst of the transfer: it carries words of the first \<open>k\<close>, each once.\<close>

definition write_ok :: "(nat \<Rightarrow> u32) \<Rightarrow> (nat \<Rightarrow> u32) \<Rightarrow> nat \<Rightarrow> write_req_payload xbar_packet \<Rightarrow> bool" where
  "write_ok f dst k w \<longleftrightarrow> (\<exists>t. from_dma wq_tid wq_caller t w) \<and> dst_idx w = slaveIndex (dst 0)
     \<and> (\<exists>gs. distinct gs \<and> (\<forall>g \<in> set gs. g < k) \<and> map write_key (payloadList w) = map (\<lambda>g. (SW, dst g, f g)) gs)"

definition write_of :: "write_req_payload xbar_packet \<Rightarrow> u32 \<Rightarrow> u32 \<Rightarrow> bool" where
  "write_of w a v \<longleftrightarrow> (SW, a, v) \<in> write_key ` set (payloadList w)"

lemma read_pkt_from_dma:
  assumes "0 < words_to_read d"
  shows "from_dma rq_tid rq_caller t (read_pkt t d)" "dst_idx (read_pkt t d) = slaveIndex (src_at d (wordsTransferred d + bufferIndex d))"
proof -
  have c: "read_chunk d \<in> {1, 2, 4}" "0 < read_chunk d"
    using burst_chunk_range [of "words_to_read d"] read_chunk_burst [OF assms(1)] by auto
  have "[0..<read_chunk d] = 0 # [1..<read_chunk d]" using c(2) by (simp add: upt_conv_Cons)
  then show "from_dma rq_tid rq_caller t (read_pkt t d)" "dst_idx (read_pkt t d) = slaveIndex (src_at d (wordsTransferred d + bufferIndex d))"
    using c(1) by (auto simp: from_dma_def read_pkt_def packet_defs Let_def dma_read_req_def burst_mode_def burst_size_of_def)
qed

context word_bus
begin

text \<open>
  The slaves during a transfer that began with \<open>m0\<close>: of the first \<open>k\<close> words, sent by the controller, each is
  stored or in a request under way, and nothing but destination words changes.
\<close>

definition data_inv :: "'m \<Rightarrow> nat \<Rightarrow> (nat \<Rightarrow> u32) \<Rightarrow> (nat \<Rightarrow> u32) \<Rightarrow> nat \<Rightarrow> sim_packet set \<Rightarrow> 'm \<Rightarrow> bool" where
  "data_inv m0 n src dst k reqs m \<longleftrightarrow> ready m \<and> mapped m = mapped m0 \<and> frame m = frame m0 \<and> k \<le> n
     \<and> (\<forall>b. mapped m0 b \<longrightarrow> (\<forall>g < n. apart b (dst g)) \<longrightarrow> word_at m b = word_at m0 b)
     \<and> (\<forall>w. WriteReq w \<in> reqs \<longrightarrow> write_ok (\<lambda>g. word_at m0 (src g)) dst k w)
     \<and> (\<forall>g < k. word_at m (dst g) = word_at m0 (src g) \<or> (\<exists>w. WriteReq w \<in> reqs \<and> write_of w (dst g) (word_at m0 (src g))))"

lemma data_inv_src:
  "transferable (mapped m0) n src dst \<Longrightarrow> data_inv m0 n src dst k reqs m \<Longrightarrow> g < n \<Longrightarrow> word_at m (src g) = word_at m0 (src g)"
  unfolding transferable_def data_inv_def by blast

lemma serve_write_data:
  assumes "transferable (mapped m0) n src dst" "data_inv m0 n src dst k (insert (WriteReq w) reqs) m"
  shows "\<exists>m' rp. serve now (WriteReq w) m = Inr (m', [WriteResp rp]) \<and> data_inv m0 n src dst k reqs m'"
proof -
  let ?f = "\<lambda>g. word_at m0 (src g)"
  have inv: "ready m" "mapped m = mapped m0" "k \<le> n" "write_ok ?f dst k w" using assms(2) by (auto simp: data_inv_def)
  then obtain t gs where w: "from_dma wq_tid wq_caller t w" "dst_idx w = slaveIndex (dst 0)"
    "distinct gs" "\<forall>g \<in> set gs. g < k" "map write_key (payloadList w) = map (\<lambda>g. (SW, dst g, ?f g)) gs" by (auto simp: write_ok_def)
  let ?avs = "map (\<lambda>g. (dst g, ?f g)) gs"
  have lt: "g < n" if "g \<in> set gs" for g using that w(4) inv(3) by fastforce
  have keys: "map write_key (payloadList w) = map (\<lambda>(a, v). (SW, a, v)) ?avs" using w(5) by (simp add: comp_def)
  have mp: "\<forall>(a, v) \<in> set ?avs. mapped m a \<and> slaveIndex a = dst_idx w" using assms(1) lt inv(2) w(2) by (auto simp: transferable_def)
  have "\<forall>g \<in> set gs. \<forall>h \<in> set gs. g \<noteq> h \<longrightarrow> apart (dst g) (dst h)" using assms(1) lt by (auto simp: transferable_def)
  then have "sorted_wrt (\<lambda>g h. apart (dst g) (dst h)) gs" using w(3) by (induction gs) auto
  then have ap: "sorted_wrt apart (map fst ?avs)" by (simp add: sorted_wrt_map comp_def)
  obtain m' rp where m': "serve now (WriteReq w) m = Inr (m', [WriteResp rp])" "ready m'" "mapped m' = mapped m" "frame m' = frame m"
    "\<forall>g \<in> set gs. word_at m' (dst g) = ?f g"
    "\<And>b. mapped m b \<Longrightarrow> \<forall>g \<in> set gs. apart b (dst g) \<Longrightarrow> word_at m' b = word_at m b"
    using serve_writes [OF inv(1) w(1) keys mp ap, of now] by auto
  have same: "word_at m' (dst g) = word_at m (dst g)" if "g < k" "g \<notin> set gs" for g
  proof -
    have "g < n" using that(1) inv(3) by simp
    moreover from this have "\<forall>h \<in> set gs. apart (dst g) (dst h)" using transferableD(5) [OF assms(1)] lt that(2) by blast
    ultimately show ?thesis using m'(6) [of "dst g"] transferableD(1) [OF assms(1)] inv(2) by auto
  qed
  have "word_at m' (dst g) = ?f g \<or> (\<exists>u. WriteReq u \<in> reqs \<and> write_of u (dst g) (?f g))" if "g < k" for g
  proof (cases "g \<in> set gs")
    case False
    have "g = h" if "h \<in> set gs" "dst g = dst h" for h
    proof (rule ccontr)
      assume "g \<noteq> h"
      then have "apart (dst g) (dst h)" using transferableD(5) [OF assms(1), of g h] \<open>g < k\<close> inv(3) lt that(1) by simp
      with that(2) show False by (simp add: apart_def)
    qed
    then have "\<not> write_of w (dst g) (?f g)"
      using False arg_cong [OF w(5), of set] by (auto simp: write_of_def image_iff)
    then show ?thesis using assms(2) that same [OF that False] by (auto simp: data_inv_def)
  qed (use m'(5) in blast)
  moreover have "word_at m' b = word_at m0 b" if "mapped m0 b" "\<forall>g < n. apart b (dst g)" for b
    using m'(6) [of b] that assms(2) inv(2) lt by (auto simp: data_inv_def)
  ultimately have "data_inv m0 n src dst k reqs m'" using assms(2) m'(2-4) by (simp add: data_inv_def)
  with m'(1) show ?thesis by blast
qed

lemma serve_read_data:
  assumes "transferable (mapped m0) n (src_at d) dst" "data_inv m0 n (src_at d) dst k reqs m"
    and "0 < words_to_read d" "fill_inv (word_at m0) d" "totalWords d = n"
  shows "\<exists>m' rp. serve now (ReadReq (read_pkt t d)) m = Inr (m', [ReadResp rp]) \<and> data_inv m0 n (src_at d) dst k reqs m'
    \<and> payloadList rp = answers (word_at m0) (payloadList (read_pkt t d))"
proof -
  have c: "0 < read_chunk d" "read_chunk d \<le> words_to_read d"
    using burst_chunk_range(2,3) [of "words_to_read d"] read_chunk_burst [OF assms(3)] assms(3) by auto
  let ?i = "wordsTransferred d + bufferIndex d" and ?qs = "payloadList (read_pkt t d)"
  have lt: "?i + i < n" if "i < read_chunk d" for i
    using that c(2) words_to_read_inv [OF assms(4)] assms(4,5) by (auto simp: fill_inv_def)
  have inv: "ready m" "mapped m = mapped m0" using assms(2) by (simp_all add: data_inv_def)
  have qs: "\<exists>i < read_chunk d. rq_addr q = src_at d (?i + i) \<and> rq_op q = LW" if "q \<in> set ?qs" for q
    using that by (auto simp: Construct_read_burst(2) [OF c(1)] dma_read_req_def)
  have "\<forall>q \<in> set ?qs. rq_op q = LW \<and> mapped m (rq_addr q) \<and> slaveIndex (rq_addr q) = dst_idx (read_pkt t d)"
  proof
    fix q
    assume "q \<in> set ?qs"
    then obtain i where q: "i < read_chunk d" "rq_addr q = src_at d (?i + i)" "rq_op q = LW" using qs by blast
    have n: "?i + i < n" "?i < n" using lt [OF q(1)] by simp_all
    have "slaveIndex (src_at d (?i + i)) = slaveIndex (src_at d ?i)"
      by (rule trans [OF transferableD(2) [OF assms(1) n(1)] transferableD(2) [OF assms(1) n(2), symmetric]])
    then show "rq_op q = LW \<and> mapped m (rq_addr q) \<and> slaveIndex (rq_addr q) = dst_idx (read_pkt t d)"
      using transferableD(1) [OF assms(1) n(1)] inv(2) read_pkt_from_dma(2) [OF assms(3), of t] q by simp
  qed
  from serve_reads [OF inv(1) read_pkt_from_dma(1) [OF assms(3)] this, of now] obtain m' rp where
    m': "serve now (ReadReq (read_pkt t d)) m = Inr (m', [ReadResp rp])" "payloadList rp = answers (word_at m) ?qs"
      "ready m'" "mapped m' = mapped m" "word_at m' = word_at m" "frame m' = frame m" by blast
  have "answers (word_at m) ?qs = answers (word_at m0) ?qs"
    unfolding answers_def
  proof (intro map_cong refl)
    fix q
    assume "q \<in> set ?qs"
    then obtain i where "i < read_chunk d" "rq_addr q = src_at d (?i + i)" using qs by blast
    then have "word_at m (rq_addr q) = word_at m0 (rq_addr q)" using data_inv_src [OF assms(1,2)] lt by simp
    then show "\<lparr>rr_tid = rq_tid q, rr_instr = rq_instr q, rr_op = rq_op q, rr_data = word_at m (rq_addr q), rr_a1 = rq_a1 q\<rparr> =
      \<lparr>rr_tid = rq_tid q, rr_instr = rq_instr q, rr_op = rq_op q, rr_data = word_at m0 (rq_addr q), rr_a1 = rq_a1 q\<rparr>" by simp
  qed
  moreover have "data_inv m0 n (src_at d) dst k reqs m'" using assms(2) m'(3-6) by (simp add: data_inv_def)
  ultimately show ?thesis using m'(1,2) by auto
qed

end

section \<open>The phases of a transfer\<close>

fun is_wreq :: "sim_packet \<Rightarrow> bool" where
  "is_wreq (WriteReq _) = True"
| "is_wreq _ = False"

fun is_wresp :: "sim_packet \<Rightarrow> bool" where
  "is_wresp (WriteResp _) = True"
| "is_wresp _ = False"

text \<open>The events that start a phase.\<close>

definition tasks :: "'r dma \<Rightarrow> dma_event list" where
  "tasks d = filter (\<lambda>e. e = DmaScheduleReads \<or> e = DmaScheduleWrites) (map snd (dma_events d))"

definition polls_ok :: "'r dma \<Rightarrow> bool" where
  "polls_ok d \<longleftrightarrow> (\<forall>q. DmaReadMMIO q \<in> snd ` set (dma_events d) \<longrightarrow> poll_ok q)"

definition geometry :: "'r dma \<Rightarrow> nat \<times> nat \<times> u32 \<times> u32 \<times> nat \<times> nat" where
  "geometry d = (totalWords d, true_width d, srcAddr d, dstAddr d, Source_stride d, Dest_stride d)"

text \<open>
  What is under way: \<open>u\<close> before the register and in it, \<open>q\<close> requests and \<open>p\<close> responses in the crossbar.
  The one read of a reading phase is the last request of the controller, or in the crossbar, or answered.
\<close>

definition one_read :: "(u32 \<Rightarrow> u32) \<Rightarrow> 'r dma \<Rightarrow> sim_packet list \<Rightarrow> sim_packet list \<Rightarrow> sim_packet list \<Rightarrow> bool" where
  "one_read f d u q p \<longleftrightarrow>
     (\<exists>c ws. u = ws @ [ReadReq (read_pkt c d)] \<and> list_all is_wreq (ws @ q) \<and> list_all is_wresp p)
     \<or> u = [] \<and> (\<exists>c. filter (Not \<circ> is_wreq) q = [ReadReq (read_pkt c d)]) \<and> list_all is_wresp p
     \<or> u = [] \<and> list_all is_wreq q \<and> (\<exists>c r. filter (Not \<circ> is_wresp) p = [ReadResp r] \<and> payloadList r = answers f (payloadList (read_pkt c d)))"

definition no_read :: "sim_packet list \<Rightarrow> sim_packet list \<Rightarrow> sim_packet list \<Rightarrow> bool" where
  "no_read u q p \<longleftrightarrow> list_all is_wreq (u @ q) \<and> list_all is_wresp p"

text \<open>A last phase of one burst.\<close>

definition one_burst_end :: "nat \<Rightarrow> bool" where
  "one_burst_end n \<longleftrightarrow> n mod 256 \<in> {1, 2, 4}"

datatype bus_phase = Reading | Planned | Writing | Finished

text \<open>
  In a writing phase more responses are outstanding than the controller counts: the first burst of a phase
  is not counted. So a burst of every phase may still be under way when the next one starts or the
  transfer is finished. A last phase of one burst (1, 2 or 4 words) counts nothing and never ends.
\<close>

fun in_phase :: "(u32 \<Rightarrow> u32) \<Rightarrow> bus_phase \<Rightarrow> 'r dma \<Rightarrow> sim_packet list \<Rightarrow> sim_packet list \<Rightarrow> sim_packet list \<Rightarrow> bool" where
  "in_phase f Reading d u q p \<longleftrightarrow> tasks d = [] \<and> 0 < words_to_read d \<and> fill_inv f d \<and> wordsTransferred d mod 256 = 0
     \<and> pendingBusReadResponses d = 1 \<and> pendingBusWriteResponses d \<le> 0 \<and> \<not> dma_done d \<and> one_read f d u q p
     \<and> length (u @ q @ p) \<le> Suc (wordsTransferred d div 256)"
| "in_phase f Planned d u q p \<longleftrightarrow> tasks d = [if words_to_read d = 0 then DmaScheduleWrites else DmaScheduleReads] \<and> fill_inv f d
     \<and> 0 < bufferIndex d \<and> wordsTransferred d mod 256 = 0 \<and> pendingBusWriteResponses d \<le> 0 \<and> \<not> dma_done d
     \<and> u = [] \<and> no_read u q p \<and> length (q @ p) \<le> wordsTransferred d div 256"
| "in_phase f Writing d u q p \<longleftrightarrow> tasks d = [] \<and> 0 < pendingBusWriteResponses d \<and> pendingBusWriteResponses d < int (length (u @ q @ p))
     \<and> int (length (u @ q @ p)) \<le> pendingBusWriteResponses d + int ((wordsTransferred d + 255) div 256)
     \<and> wordsToBuffer d = wordsTransferred d \<and> wordsTransferred d \<le> totalWords d \<and> bufferIndex d \<le> 256 \<and> 0 < true_width d
     \<and> (if wordsTransferred d = totalWords d then \<not> one_burst_end (totalWords d) else wordsTransferred d mod 256 = 0)
     \<and> \<not> dma_done d \<and> no_read u q p"
| "in_phase f Finished d u q p \<longleftrightarrow> tasks d = [] \<and> pendingBusWriteResponses d \<le> 0 \<and> wordsTransferred d = totalWords d
     \<and> (dma_done d \<longleftrightarrow> \<not> one_burst_end (totalWords d)) \<and> no_read u q p \<and> length (u @ q @ p) \<le> (totalWords d + 255) div 256"

text \<open>The registers, the queues and the other events of the controller do not matter.\<close>

lemma reg_cong:
  "fill_inv f (d\<lparr>m_req := r, req_Q := q, m_resp := r', resp_Q := q', dma_events := es\<rparr>) = fill_inv f d"
  "words_to_read (d\<lparr>m_req := r, req_Q := q, m_resp := r', resp_Q := q', dma_events := es\<rparr>) = words_to_read d"
  "read_pkt t (d\<lparr>m_req := r, req_Q := q, m_resp := r', resp_Q := q', dma_events := es\<rparr>) = read_pkt t d"
  "geometry (d\<lparr>m_req := r, req_Q := q, m_resp := r', resp_Q := q', dma_events := es\<rparr>) = geometry d"
  by (simp_all add: transfer_defs geometry_def fun_eq_iff cong: map_cong)

lemma in_phase_cong:
  assumes "tasks (d\<lparr>dma_events := es\<rparr>) = tasks d"
  shows "in_phase f ph (d\<lparr>m_req := r, req_Q := q, m_resp := r', resp_Q := q', dma_events := es\<rparr>) u a p = in_phase f ph d u a p"
proof -
  have "tasks (d\<lparr>m_req := r, req_Q := q, m_resp := r', resp_Q := q', dma_events := es\<rparr>) = tasks d"
    using assms by (simp add: tasks_def)
  then show ?thesis by (cases ph) (simp_all add: reg_cong one_read_def)
qed

lemma in_phase_flush:
  "in_phase f ph (d\<lparr>m_req := r, req_Q := q, m_resp := r', resp_Q := q'\<rparr>) u a p = in_phase f ph d u a p"
  using in_phase_cong [where d = d and es = "dma_events d"] by simp

text \<open>Packets move through the crossbar.\<close>

lemma phase_take: "in_phase f ph d (x # u) q p \<Longrightarrow> in_phase f ph d u (q @ [x]) p"
proof (cases ph)
  case Reading
  assume "in_phase f ph d (x # u) q p"
  moreover from this have "one_read f d u (q @ [x]) p"
    using Reading by (auto simp: one_read_def Cons_eq_append_conv list.pred_set filter_empty_conv)
  ultimately show ?thesis using Reading by simp
qed (auto simp: no_read_def)

lemma all_remove_nth: "list_all P xs \<Longrightarrow> list_all P (remove_nth i xs)"
  by (auto simp: remove_nth_def list.pred_set dest: in_set_takeD in_set_dropD)

lemma filter_Not_all: "filter (Not \<circ> P) xs = [] \<longleftrightarrow> list_all P xs"
  by (auto simp: filter_empty_conv list.pred_set)

lemma phase_serve_write:
  assumes "in_phase f ph d u q p" "i < length q" "is_wreq (q ! i)"
  shows "in_phase f ph d u (remove_nth i q) (p @ [WriteResp w])"
proof (cases ph)
  case Reading
  then have "one_read f d u (remove_nth i q) (p @ [WriteResp w])"
    using assms(1,3) filter_remove_nth(1) [OF assms(2), of "Not \<circ> is_wreq"]
    by (auto simp: one_read_def all_remove_nth)
  then show ?thesis using assms(1) Reading length_remove_nth [OF assms(2)] by simp
qed (use assms(1) length_remove_nth [OF assms(2)] in \<open>auto simp: no_read_def all_remove_nth\<close>)

lemma phase_serve_read:
  assumes "in_phase f ph d u q p" "i < length q" "\<not> is_wreq (q ! i)"
  obtains c where "ph = Reading" "u = []" "q ! i = ReadReq (read_pkt c d)"
    "\<And>r. payloadList r = answers f (payloadList (read_pkt c d)) \<Longrightarrow> in_phase f Reading d u (remove_nth i q) (p @ [ReadResp r])"
proof -
  have "q ! i \<in> set q" using assms(2) by simp
  then have "\<not> list_all is_wreq q" using assms(3) by (auto simp: list.pred_set)
  then have ph: "ph = Reading" "\<not> list_all is_wreq q" using assms(1) by (cases ph; simp add: no_read_def)+
  with assms(1) obtain c where c: "u = []" "filter (Not \<circ> is_wreq) q = [ReadReq (read_pkt c d)]" "list_all is_wresp p"
    by (auto simp: one_read_def)
  with filter_remove_nth(2) [OF assms(2) c(2)] assms(3)
  have q: "q ! i = ReadReq (read_pkt c d)" "list_all is_wreq (remove_nth i q)" by (simp_all add: filter_Not_all)
  have "in_phase f Reading d u (remove_nth i q) (p @ [ReadResp r])" if "payloadList r = answers f (payloadList (read_pkt c d))" for r
  proof -
    have "filter (Not \<circ> is_wresp) (p @ [ReadResp r]) = [ReadResp r]" using c(3) by (simp add: filter_Not_all)
    then have "one_read f d u (remove_nth i q) (p @ [ReadResp r])" unfolding one_read_def using c(1) q(2) that by blast
    then show ?thesis using assms(1) ph(1) length_remove_nth [OF assms(2)] by simp
  qed
  with ph c q show thesis by (intro that [of c]) simp_all
qed

lemma phase_resp_kind:
  assumes "in_phase f ph d u q p" "i < length p"
  shows "(\<exists>w. p ! i = WriteResp w) \<or> ph = Reading \<and> (\<exists>r. p ! i = ReadResp r)"
proof (cases "is_wresp (p ! i)")
  case False
  have "p ! i \<in> set p" using assms(2) by simp
  then have "\<not> list_all is_wresp p" using False by (auto simp: list.pred_set)
  then have "ph = Reading" "\<not> list_all is_wresp p" using assms(1) by (cases ph; simp add: no_read_def)+
  moreover from this assms(1) obtain r where "filter (Not \<circ> is_wresp) p = [ReadResp r]" by (auto simp: one_read_def)
  from filter_remove_nth(2) [OF assms(2) this] False have "p ! i = ReadResp r" by simp
  ultimately show ?thesis by simp
qed (cases "p ! i", auto)

section \<open>The controller in its phases\<close>

text \<open>What is left to do; every useful action makes it smaller.\<close>

definition dma_todo :: "('r \<Rightarrow> sim_packet option) \<Rightarrow> 'r dma \<Rightarrow> nat" where
  "dma_todo held d = 10 * (totalWords d - wordsToBuffer d) + 5 * (totalWords d - wordsTransferred d) + 5 * length (tasks d)
     + (if 0 < pendingBusWriteResponses d then 5 else 0) + 4 * length (out_req held d) + (if held (m_req d) = None then 1 else 0)"

lemma todo_flush:
  assumes "waiting held r q = out_req held d" "settled held r q"
  shows "dma_todo held (d\<lparr>m_req := r, req_Q := q, m_resp := r', resp_Q := q'\<rparr>) \<le> dma_todo held d"
    "held (m_req d) = None \<Longrightarrow> req_Q d \<noteq> [] \<Longrightarrow> dma_todo held (d\<lparr>m_req := r, req_Q := q, m_resp := r', resp_Q := q'\<rparr>) < dma_todo held d"
  using assms by (auto simp: dma_todo_def settled_def tasks_def split: option.splits)

lemma read_answered:
  assumes "slot_contract ops held drain" "in_phase f Reading d (out_req held d) q p" "i < length p" "p ! i = ReadResp r"
  shows "\<exists>d' t e. dma_step ops cfg now ctr (Some (ReadResp r)) d = Inr (d', ctr) \<and> in_phase f Planned d' (out_req held d') q (remove_nth i p)
    \<and> geometry d' = geometry d \<and> wordsTransferred d' = wordsTransferred d \<and> out_req held d' = out_req held d
    \<and> dma_events d' = dma_events d @ [(t, e)] \<and> e \<in> {DmaScheduleReads, DmaScheduleWrites} \<and> dma_todo held d' \<le> dma_todo held d"
proof -
  have ph: "tasks d = []" "0 < words_to_read d" "fill_inv f d" "wordsTransferred d mod 256 = 0" "pendingBusReadResponses d = 1"
    "pendingBusWriteResponses d \<le> 0" "\<not> dma_done d" "one_read f d (out_req held d) q p"
    "length (out_req held d @ q @ p) \<le> Suc (wordsTransferred d div 256)" using assms(2) by simp_all
  have "p ! i \<in> set p" using assms(3) by simp
  then have "\<not> list_all is_wresp p" using assms(4) by (force simp: list.pred_set)
  with ph(8) obtain c r1 where c: "out_req held d = []" "list_all is_wreq q" "filter (Not \<circ> is_wresp) p = [ReadResp r1]"
    "payloadList r1 = answers f (payloadList (read_pkt c d))" by (auto simp: one_read_def)
  with filter_remove_nth(2) [OF assms(3) c(3)] assms(4) have r: "r1 = r" "list_all is_wresp (remove_nth i p)"
    by (simp_all add: filter_Not_all)
  obtain r2 q2 r3 q3 where fl: "dma_flush ops d = d\<lparr>m_req := r2, req_Q := q2, m_resp := r3, resp_Q := q3\<rparr>"
    "waiting held r2 q2 = out_req held d" "settled held r2 q2"
    by (rule slot_flush [OF assms(1), of d])
  let ?s = "d\<lparr>m_resp := r3, resp_Q := q3\<rparr>"
  have s: "fill_inv f ?s" "0 < words_to_read ?s" "payloadList r = answers f (payloadList (read_pkt c ?s))" "read_chunk ?s = read_chunk d"
    using ph(2,3) c(4) r(1) by (simp_all add: resp_side_cong)
  have "dma_flush ops d = ?s\<lparr>m_req := r2, req_Q := q2, pendingBusReadResponses := 1\<rparr>" using fl(1) ph(5) by simp
  from handle_answers [OF s(1-3) this, of cfg now] obtain d' where d': "dma_handleReadResponse cfg now r (dma_flush ops d) = Inr d'"
    "fill_inv f d'" "bufferIndex d' = bufferIndex d + read_chunk d" "wordsTransferred d' = wordsTransferred d" "geometry d' = geometry d"
    "m_req d' = r2" "req_Q d' = q2" "dma_events d' = dma_events d @ [(now + 1, if words_to_read d' = 0 then DmaScheduleWrites else DmaScheduleReads)]"
    "\<not> dma_done d'" "pendingBusWriteResponses d' = pendingBusWriteResponses d"
    using ph(7) s(4) by (auto simp: geometry_def)
  have "0 < read_chunk d" using burst_chunk_range(3) [of "words_to_read d"] read_chunk_burst [OF ph(2)] by simp
  have out: "out_req held d' = []" using d'(6,7) fl(2) c(1) by simp
  have tk: "tasks d' = [if words_to_read d' = 0 then DmaScheduleWrites else DmaScheduleReads]" using ph(1) d'(8) by (simp add: tasks_def)
  have "in_phase f Planned d' (out_req held d') q (remove_nth i p)"
    using tk d' ph(4,6,9) out c(1,2) r(2) \<open>0 < read_chunk d\<close> length_remove_nth [OF assms(3)] by (simp add: no_read_def)
  moreover have "dma_todo held d' \<le> dma_todo held d"
  proof -
    have "wordsToBuffer d' = wordsToBuffer d + read_chunk d" "wordsToBuffer d' \<le> totalWords d'" "totalWords d' = totalWords d"
      using d'(2-5) ph(3) by (simp_all add: fill_inv_def geometry_def)
    with \<open>0 < read_chunk d\<close> show ?thesis using tk ph(1,6) d'(4,6,10) fl(2,3) out c(1) by (auto simp: dma_todo_def settled_def split: option.splits)
  qed
  ultimately show ?thesis using d' out c(1)
    by (intro exI [of _ d'] exI [of _ "now + 1"] exI) (auto simp: dma_step_response)
qed

lemma pend_cong:
  "fill_inv f (d\<lparr>pendingBusWriteResponses := k\<rparr>) = fill_inv f d" "words_to_read (d\<lparr>pendingBusWriteResponses := k\<rparr>) = words_to_read d"
  "read_pkt t (d\<lparr>pendingBusWriteResponses := k\<rparr>) = read_pkt t d" "tasks (d\<lparr>pendingBusWriteResponses := k\<rparr>) = tasks d"
  "geometry (d\<lparr>pendingBusWriteResponses := k\<rparr>) = geometry d"
  by (simp_all add: transfer_defs geometry_def tasks_def fun_eq_iff cong: map_cong)

text \<open>A response that is not the last one counted.\<close>

lemma write_counted:
  assumes "in_phase f ph d u q p" "i < length p" "is_wresp (p ! i)" "pendingBusWriteResponses d \<noteq> 1"
  shows "in_phase f ph (d\<lparr>pendingBusWriteResponses := pendingBusWriteResponses d - 1\<rparr>) u q (remove_nth i p)"
proof (cases ph)
  case Reading
  then have "one_read f d u q (remove_nth i p)"
    using assms(1,3) filter_remove_nth(1) [OF assms(2), of "Not \<circ> is_wresp"] by (auto simp: one_read_def all_remove_nth)
  then show ?thesis using assms(1) Reading length_remove_nth [OF assms(2)] by (simp add: pend_cong one_read_def)
qed (use assms length_remove_nth [OF assms(2)] in \<open>auto simp: no_read_def all_remove_nth pend_cong\<close>)

text \<open>The last one: the buffer is empty again, and the controller finishes or asks for more.\<close>

lemma buffer_written:
  assumes "slot_contract ops held drain" "in_phase f Writing d (out_req held d) q p" "settled held (m_req d) (req_Q d)"
    and "i < length p" "pendingBusWriteResponses d = 1" "length (bufferMemory d) = 256"
  shows "\<exists>ph d' c rs. dma_handleWriteCompletion ops cfg ctr d = Inr (d', c) \<and> in_phase f ph d' (out_req held d') q (remove_nth i p)
    \<and> geometry d' = geometry d \<and> wordsTransferred d' = wordsTransferred d \<and> out_req held d' = out_req held d @ rs \<and> list_all (Not \<circ> is_wreq) rs
    \<and> dma_events d' = dma_events d \<and> length (bufferMemory d') = 256 \<and> dma_todo held d' \<le> dma_todo held d"
proof -
  let ?b = "replicate (bufferIndex d) 0 @ drop (bufferIndex d) (bufferMemory d)"
  let ?d = "d\<lparr>pendingBusWriteResponses := 0, bufferMemory := ?b, bufferIndex := 0\<rparr>"
  have ph: "tasks d = []" "bufferIndex d \<le> 256" "wordsToBuffer d = wordsTransferred d" "wordsTransferred d \<le> totalWords d" "0 < true_width d"
    "if wordsTransferred d = totalWords d then \<not> one_burst_end (totalWords d) else wordsTransferred d mod 256 = 0"
    "no_read (out_req held d) q p" "length (out_req held d @ q @ p) \<le> Suc ((wordsTransferred d + 255) div 256)" "\<not> dma_done d"
    using assms(2,5) by simp_all
  have p': "no_read u q p \<Longrightarrow> no_read u q (remove_nth i p)" "length p = Suc (length (remove_nth i p))" for u
    using length_remove_nth [OF assms(4)] by (simp_all add: no_read_def all_remove_nth)
  have len: "length ?b = 256" using ph(2) assms(6) by simp
  show ?thesis
  proof (cases "wordsTransferred d = totalWords d")
    case True
    let ?d' = "transaction_complete ?d"
    have "dma_handleWriteCompletion ops cfg ctr d = Inr (?d', ctr)"
      using assms(5,6) ph(2) True by (simp add: dma_handleWriteCompletion_def clear_buffer_def Let_def)
    moreover have "in_phase f Finished ?d' (out_req held ?d') q (remove_nth i p)"
      using True ph(1,6,8) p'(1) [OF ph(7)] p'(2) by (simp add: transaction_complete_def tasks_def)
    moreover have "dma_todo held ?d' \<le> dma_todo held d" using assms(5) by (simp add: transaction_complete_def dma_todo_def tasks_def)
    ultimately show ?thesis using len
      by (intro exI [of _ Finished] exI [of _ ?d'] exI [of _ ctr] exI [of _ "[]"]) (simp add: transaction_complete_def geometry_def)
  next
    case False
    let ?s = "?d\<lparr>currentState := READING\<rparr>"
    have inv: "fill_inv f ?s" using ph(3-5) len by (simp add: fill_inv_def)
    then have w: "0 < words_to_read ?s" using words_to_read_inv [OF inv] False ph(3,4) by simp
    have st: "settled held (m_req ?s) (req_Q ?s)" "0 < true_width ?s" using assms(3) ph(5) by simp_all
    obtain r b where sch: "scheduleReadsForBuffer ops cfg ctr ?s = Inr (?s\<lparr>m_req := r, req_Q := b, pendingBusReadResponses := 1\<rparr>, ctr + 1)"
      "waiting held r b = out_req held ?s @ [ReadReq (read_pkt ctr ?s)]" "held r \<noteq> None"
      by (rule slot_read_phase [OF assms(1) st(1) w st(2), of cfg ctr])
    let ?d' = "?s\<lparr>m_req := r, req_Q := b, pendingBusReadResponses := 1\<rparr>"
    have cong: "fill_inv f ?d' = fill_inv f ?s" "words_to_read ?d' = words_to_read ?s" "read_pkt ctr ?d' = read_pkt ctr ?s"
      by (simp_all add: transfer_defs fun_eq_iff cong: map_cong)
    have "dma_handleWriteCompletion ops cfg ctr d = Inr (?d', ctr + 1)"
      using assms(5,6) ph(2,4) False sch(1) by (simp add: dma_handleWriteCompletion_def clear_buffer_def Let_def)
    moreover have "in_phase f Reading ?d' (out_req held ?d') q (remove_nth i p)"
    proof -
      have "list_all is_wreq (out_req held d @ q)" "list_all is_wresp (remove_nth i p)" using p'(1) [OF ph(7)] by (simp_all add: no_read_def)
      then have "one_read f ?d' (out_req held ?d') q (remove_nth i p)"
        unfolding one_read_def using sch(2) cong(3) by (intro disjI1 exI [of _ ctr] exI [of _ "out_req held d"]) simp
      moreover have "(wordsTransferred d + 255) div 256 = wordsTransferred d div 256" using ph(6) False by auto
      moreover have "length (out_req held ?d') = Suc (length (out_req held d))" using arg_cong [OF sch(2), of length] by simp
      ultimately show ?thesis using inv w ph False p'(2) unfolding in_phase.simps cong by (simp add: tasks_def)
    qed
    moreover have "dma_todo held ?d' \<le> dma_todo held d"
      using assms(5) arg_cong [OF sch(2), of length] sch(3) by (simp add: dma_todo_def tasks_def)
    ultimately show ?thesis using len sch(2)
      by (intro exI [of _ Reading] exI [of _ ?d'] exI [of _ "ctr + 1"] exI [of _ "[ReadReq (read_pkt ctr ?s)]"]) (simp add: geometry_def)
  qed
qed

declare in_phase.simps [simp del]

lemma write_acked:
  assumes "slot_contract ops held drain" "in_phase f ph d (out_req held d) q p" "i < length p" "p ! i = WriteResp w" "length (bufferMemory d) = 256"
  shows "\<exists>ph' d' c rs. dma_step ops cfg now ctr (Some (WriteResp w)) d = Inr (d', c) \<and> in_phase f ph' d' (out_req held d') q (remove_nth i p)
    \<and> geometry d' = geometry d \<and> wordsTransferred d' = wordsTransferred d \<and> out_req held d' = out_req held d @ rs \<and> list_all (Not \<circ> is_wreq) rs
    \<and> dma_events d' = dma_events d \<and> length (bufferMemory d') = 256 \<and> dma_todo held d' \<le> dma_todo held d"
proof -
  obtain r a r' a' where fl: "dma_flush ops d = d\<lparr>m_req := r, req_Q := a, m_resp := r', resp_Q := a'\<rparr>" (is "_ = ?d")
    "waiting held r a = out_req held d" "settled held r a" by (rule slot_flush [OF assms(1), of d])
  have ph: "in_phase f ph ?d (out_req held ?d) q p" using assms(2) fl(2) by (simp add: in_phase_flush)
  have geo: "geometry ?d = geometry d" "out_req held ?d = out_req held d" "dma_todo held ?d \<le> dma_todo held d" "settled held (m_req ?d) (req_Q ?d)"
    using fl(2,3) todo_flush(1) [OF fl(2,3)] by (simp_all add: geometry_def)
  have step: "dma_step ops cfg now ctr (Some (WriteResp w)) d = dma_handleWriteCompletion ops cfg ctr ?d"
    by (simp add: dma_step_response fl(1))
  show ?thesis
  proof (cases "pendingBusWriteResponses d = 1")
    case True
    then have "ph = Writing" using assms(2) by (cases ph) (simp_all add: in_phase.simps)
    then have wr: "in_phase f Writing ?d (out_req held ?d) q p" using ph by simp
    obtain ph' d' c rs where "dma_handleWriteCompletion ops cfg ctr ?d = Inr (d', c)" "in_phase f ph' d' (out_req held d') q (remove_nth i p)"
      "geometry d' = geometry ?d" "wordsTransferred d' = wordsTransferred ?d" "out_req held d' = out_req held ?d @ rs" "list_all (Not \<circ> is_wreq) rs"
      "dma_events d' = dma_events ?d" "length (bufferMemory d') = 256" "dma_todo held d' \<le> dma_todo held ?d"
      using buffer_written [OF assms(1) wr geo(4) assms(3), of cfg ctr] True assms(5) by auto
    then show ?thesis unfolding step using geo
      by (intro exI [of _ ph'] exI [of _ d'] exI [of _ c] exI [of _ rs]) simp
  next
    case False
    let ?e = "?d\<lparr>pendingBusWriteResponses := pendingBusWriteResponses ?d - 1\<rparr>"
    have "in_phase f ph ?e (out_req held ?d) q (remove_nth i p)"
      by (rule write_counted [OF ph assms(3)]) (use False assms(4) in simp_all)
    moreover have "dma_handleWriteCompletion ops cfg ctr ?d = Inr (?e, ctr)" using False by (simp add: dma_handleWriteCompletion_def Let_def)
    moreover have "dma_todo held ?e \<le> dma_todo held ?d" by (simp add: dma_todo_def tasks_def)
    moreover have "geometry ?e = geometry ?d" by (simp add: geometry_def)
    ultimately show ?thesis unfolding step using geo assms(5)
      by (intro exI [of _ ph] exI [of _ ?e] exI [of _ ctr] exI [of _ "[]"]) simp
  qed
qed

section \<open>The tasks\<close>

lemma nbursts_one: "nbursts n = 1 \<longleftrightarrow> n \<in> {1, 2, 4}" "nbursts n \<le> n" "0 < n \<Longrightarrow> 0 < nbursts n"
proof -
  have "n = 4 * (n div 4) + n mod 4" "n mod 4 < 4" by simp_all
  then show "nbursts n = 1 \<longleftrightarrow> n \<in> {1, 2, 4}" "nbursts n \<le> n" "0 < n \<Longrightarrow> 0 < nbursts n"
    by (auto simp: nbursts.simps split: if_splits)
qed

lemma task_cong:
  "fill_inv f (d\<lparr>dma_events := es\<rparr>) = fill_inv f d" "words_to_read (d\<lparr>dma_events := es\<rparr>) = words_to_read d"
  "read_pkt t (d\<lparr>dma_events := es\<rparr>) = read_pkt t d" "geometry (d\<lparr>dma_events := es\<rparr>) = geometry d"
  by (simp_all add: transfer_defs geometry_def fun_eq_iff cong: map_cong)

lemma reads_task:
  assumes "slot_contract ops held drain" "in_phase f Planned d (out_req held d) q p" "words_to_read d \<noteq> 0" "tasks (d\<lparr>dma_events := es\<rparr>) = []"
  shows "\<exists>d' t. scheduleReadsForBuffer ops cfg ctr (d\<lparr>dma_events := es\<rparr>) = Inr (d', ctr + 1) \<and> in_phase f Reading d' (out_req held d') q p
    \<and> geometry d' = geometry d \<and> wordsTransferred d' = wordsTransferred d \<and> out_req held d' = out_req held d @ [ReadReq t]
    \<and> dma_events d' = es \<and> dma_todo held d' < dma_todo held d"
proof -
  let ?s = "d\<lparr>dma_events := es\<rparr>"
  have ph: "tasks d = [DmaScheduleReads]" "fill_inv f d" "wordsTransferred d mod 256 = 0" "pendingBusWriteResponses d \<le> 0" "\<not> dma_done d"
    "out_req held d = []" "no_read [] q p" "length (q @ p) \<le> wordsTransferred d div 256" using assms(2,3) by (auto simp: in_phase.simps)
  have empty: "held (m_req d) = None" "req_Q d = []" using ph(6) by (auto split: option.splits)
  have st: "settled held (m_req ?s) (req_Q ?s)" "0 < words_to_read ?s" "0 < true_width ?s"
    using empty assms(3) ph(2) by (simp_all add: settled_def task_cong fill_inv_def)
  obtain r b where sch: "scheduleReadsForBuffer ops cfg ctr ?s = Inr (?s\<lparr>m_req := r, req_Q := b, pendingBusReadResponses := 1\<rparr>, ctr + 1)"
    "waiting held r b = out_req held ?s @ [ReadReq (read_pkt ctr ?s)]" "held r \<noteq> None"
    by (rule slot_read_phase [OF assms(1) st, of cfg ctr])
  let ?d = "?s\<lparr>m_req := r, req_Q := b, pendingBusReadResponses := 1\<rparr>"
  have cong: "fill_inv f ?d = fill_inv f d" "words_to_read ?d = words_to_read d" "read_pkt ctr ?d = read_pkt ctr d" "read_pkt ctr ?s = read_pkt ctr d"
    by (simp_all add: transfer_defs fun_eq_iff cong: map_cong)
  have out: "out_req held ?d = [ReadReq (read_pkt ctr d)]" using sch(2) empty cong(4) by simp
  have "one_read f ?d (out_req held ?d) q p" unfolding out one_read_def cong(3)
    using ph(7) cong(3) by (intro disjI1 exI [of _ ctr] exI [of _ "[]"]) (simp add: no_read_def)
  then have "in_phase f Reading ?d (out_req held ?d) q p"
    unfolding in_phase.simps cong using ph assms(3,4) arg_cong [OF out, of length] by (simp add: tasks_def)
  moreover have "dma_todo held ?d < dma_todo held d"
    using ph(1,4) assms(4) arg_cong [OF out, of length] sch(3) empty by (simp add: dma_todo_def tasks_def)
  ultimately show ?thesis using sch(1) out ph(6)
    by (intro exI [of _ ?d] exI [of _ "read_pkt ctr d"]) (simp add: geometry_def)
qed

text \<open>The writes: what the packets carry, and the phase that follows.\<close>

lemma writes_task:
  assumes "slot_contract ops held drain" "in_phase f Planned d (out_req held d) q p" "words_to_read d = 0" "tasks (d\<lparr>dma_events := es\<rparr>) = []"
  shows "\<exists>ph d' c pkts. scheduleWritesFromBuffer ops cfg ctr (d\<lparr>dma_events := es\<rparr>) = Inr (d', c) \<and> in_phase f ph d' (out_req held d') q p
    \<and> geometry d' = geometry d \<and> wordsTransferred d' = wordsTransferred d + bufferIndex d \<and> bufferIndex d \<le> totalWords d - wordsTransferred d
    \<and> out_req held d' = out_req held d @ map WriteReq pkts \<and> (\<forall>w \<in> set pkts. legal_burst w \<and> write_tagged w)
    \<and> map write_key (concat (map payloadList pkts)) = map (\<lambda>g. (SW, dst_at d g, f (src_at d g))) [wordsTransferred d..<wordsTransferred d + bufferIndex d]
    \<and> dma_events d' = es \<and> length (bufferMemory d') = 256 \<and> dma_todo held d' < dma_todo held d"
proof -
  let ?s = "d\<lparr>dma_events := es\<rparr>" and ?n = "bufferIndex d" and ?w = "wordsTransferred d"
  have ph: "tasks d = [DmaScheduleWrites]" "fill_inv f d" "0 < ?n" "?w mod 256 = 0" "pendingBusWriteResponses d \<le> 0" "\<not> dma_done d"
    "out_req held d = []" "no_read [] q p" "length (q @ p) \<le> ?w div 256" using assms(2,3) by (auto simp: in_phase.simps)
  have fi: "0 < true_width d" "length (bufferMemory d) = 256" "?n \<le> 256" "wordsToBuffer d = ?w + ?n" "?w + ?n \<le> totalWords d"
    using ph(2) by (simp_all add: fill_inv_def)
  have full: "?n = 256 \<or> ?w + ?n = totalWords d" using words_to_read_inv [OF ph(2)] assms(3) fi by auto
  obtain r b pkts c where sch: "scheduleWritesFromBuffer ops cfg ctr ?s = Inr (?s\<lparr>m_req := r, req_Q := b,
      pendingBusWriteResponses := int (length pkts) - 1, wordsTransferred := wordsTransferred ?s + bufferIndex ?s\<rparr>, c)"
    "waiting held r b = map WriteReq pkts" "held r \<noteq> None" "\<forall>p \<in> set pkts. legal_burst p \<and> write_tagged p" "length pkts = nbursts (bufferIndex ?s)"
    "map write_key (concat (map payloadList pkts)) = map (write_key \<circ> buffer_write ?s) [0..<bufferIndex ?s]"
    by (rule slot_write_phase [OF assms(1), of ?s cfg ctr]) (use ph(3,7) fi(1-3) in simp_all)
  let ?d = "?s\<lparr>m_req := r, req_Q := b, pendingBusWriteResponses := int (length pkts) - 1, wordsTransferred := ?w + ?n\<rparr>"
  let ?k = "length pkts"
  have k: "?k = 1 \<longleftrightarrow> ?n \<in> {1, 2, 4}" "?k \<le> ?n" "0 < ?k" using nbursts_one [of ?n] ph(3) sch(5) by simp_all
  have out: "out_req held ?d = map WriteReq pkts" using sch(2) by simp
  have rd: "no_read (map WriteReq pkts) q p" using ph(8) by (auto simp: no_read_def list.pred_set)
  obtain j where j: "?w = 256 * j" using ph(4) by (auto simp: mod_eq_0_iff_dvd elim: dvdE)
  have "(?n + 255) div 256 = 1" using ph(3) fi(3) by (intro div_nat_eqI) auto
  then have "?w div 256 + 1 = (?w + ?n + 255) div 256" using j by (simp add: add.assoc)
  then have b: "length (q @ p) < (?w + ?n + 255) div 256" using ph(9) by simp
  have "\<exists>ph. in_phase f ph ?d (out_req held ?d) q p"
  proof (cases "?k = 1")
    case True
    then have "?n \<in> {1, 2, 4}" using k(1) by simp
    moreover from this have n: "?w + ?n = totalWords d" using full by auto
    ultimately have "one_burst_end (totalWords d)" unfolding n [symmetric] one_burst_end_def j by auto
    then have "in_phase f Finished ?d (out_req held ?d) q p"
      using True rd out b n ph(6) assms(4) by (simp add: in_phase.simps tasks_def)
    then show ?thesis by blast
  next
    case False
    have "\<not> one_burst_end (totalWords d)" if "?w + ?n = totalWords d"
    proof -
      have "(?w + ?n) mod 256 = (if ?n = 256 then 0 else ?n)" using fi(3) j by simp
      then show ?thesis using k(1) False unfolding one_burst_end_def that [symmetric] by (auto split: if_splits)
    qed
    moreover have "1 < ?k" using False k(3) by linarith
    moreover have bi: "int (length q) + int (length p) < int ((?w + ?n + 255) div 256)" using b by simp
    moreover have "(?w + ?n) mod 256 = 0" if "?w + ?n \<noteq> totalWords d" using that full ph(4) by auto
    ultimately have "in_phase f Writing ?d (out_req held ?d) q p"
      using bi rd out ph(6) fi assms(4) arg_cong [OF out, of length] by (auto simp: in_phase.simps tasks_def)
    then show ?thesis by blast
  qed
  then obtain ph' where "in_phase f ph' ?d (out_req held ?d) q p" ..
  moreover have "dma_todo held ?d < dma_todo held d"
  proof -
    have "5 * (totalWords d - (?w + ?n)) + 4 * ?k < 5 * (totalWords d - ?w)" using k(2) ph(3) fi(5) by arith
    then show ?thesis using ph(1,5) assms(4) arg_cong [OF out, of length] sch(3) fi(4) by (auto simp: dma_todo_def tasks_def)
  qed
  moreover have "map (write_key \<circ> buffer_write ?s) [0..<?n] = map (\<lambda>g. (SW, dst_at d g, f (src_at d g))) [?w..<?w + ?n]"
    using buffer_write_keys [of f ?s] ph(2) by (simp add: task_cong src_word_def word_addr_def words_per_row_def)
  ultimately show ?thesis using sch(1,4,6) out ph(7) fi(2,5)
    by (intro exI [of _ ph'] exI [of _ ?d] exI [of _ c] exI [of _ pkts]) (simp add: geometry_def)
qed

end
