(* ===== verification/BusTransfer.thy ===== *)
theory BusTransfer
  imports BusPhases
begin

text \<open>
  A whole transfer of the DMA controller over a crossbar whose request registers hold one packet: the invariant,
  that every action of the system keeps it and the useful ones lead to an end, and the transfers of the SoC.
\<close>

section \<open>The invariant of a transfer\<close>

lemma map_remove_nth: "map f (remove_nth i xs) = remove_nth i (map f xs)"
  by (simp add: remove_nth_def take_map drop_map)

lemma set_remove_nth: "set (remove_nth i xs) \<subseteq> set xs"
  by (auto simp: remove_nth_def dest: in_set_takeD in_set_dropD)

lemma tasks_remove:
  assumes "i < length (dma_events d)"
  shows "snd (dma_events d ! i) \<notin> {DmaScheduleReads, DmaScheduleWrites} \<Longrightarrow> tasks (d\<lparr>dma_events := remove_nth i (dma_events d)\<rparr>) = tasks d"
    "snd (dma_events d ! i) \<in> {DmaScheduleReads, DmaScheduleWrites} \<Longrightarrow> tasks d = [e] \<Longrightarrow>
     snd (dma_events d ! i) = e \<and> tasks (d\<lparr>dma_events := remove_nth i (dma_events d)\<rparr>) = []"
  using filter_remove_nth(1,2) [of i "map snd (dma_events d)" "\<lambda>e. e = DmaScheduleReads \<or> e = DmaScheduleWrites"] assms
  by (auto simp: tasks_def map_remove_nth)

lemma polls_remove: "polls_ok d \<Longrightarrow> polls_ok (d\<lparr>dma_events := remove_nth i (dma_events d)\<rparr>)"
  using set_remove_nth [of i "dma_events d"] by (fastforce simp: polls_ok_def)

lemma poll_reads: "poll_ok q \<Longrightarrow> \<exists>v. dma_reg_read d (rq_addr q AND 0x3F) = Some v"
  unfolding poll_ok_def by (auto simp: dma_reg_read_def)

lemma events_last:
  "d\<lparr>dma_events := es, m_req := r, req_Q := q, m_resp := r', resp_Q := q'\<rparr> = d\<lparr>m_req := r, req_Q := q, m_resp := r', resp_Q := q', dma_events := es\<rparr>"
  "d\<lparr>dma_events := es, resp_Q := q'\<rparr> = d\<lparr>resp_Q := q', dma_events := es\<rparr>"
  by (rule dma.equality, simp_all)+

definition bus_todo :: "('r \<Rightarrow> sim_packet option) \<Rightarrow> ('r, 'm) bus_sys \<Rightarrow> nat" where
  "bus_todo held s = dma_todo held (bs_dma s) + 2 * length (bs_req s) + length (bs_resp s)"

definition at_rest :: "('r \<Rightarrow> sim_packet option) \<Rightarrow> ('r, 'm) bus_sys \<Rightarrow> bool" where
  "at_rest held s \<longleftrightarrow> bs_req s = [] \<and> bs_resp s = [] \<and> out_req held (bs_dma s) = [] \<and> tasks (bs_dma s) = []"

context word_bus
begin

definition bus_inv :: "('r \<Rightarrow> sim_packet option) \<Rightarrow> 'm \<Rightarrow> 'r dma \<Rightarrow> ('r, 'm) bus_sys \<Rightarrow> bool" where
  "bus_inv held m0 d0 s \<longleftrightarrow> (\<exists>ph. in_phase (word_at m0) ph (bs_dma s) (out_req held (bs_dma s)) (bs_req s) (bs_resp s))
     \<and> data_inv m0 (totalWords d0) (src_at d0) (dst_at d0) (wordsTransferred (bs_dma s)) (set (bs_req s) \<union> set (out_req held (bs_dma s))) (bs_slaves s)
     \<and> geometry (bs_dma s) = geometry d0 \<and> length (bufferMemory (bs_dma s)) = 256 \<and> polls_ok (bs_dma s)"

lemma inv_regs:
  assumes "bus_inv held m0 d0 s" "waiting held r q = out_req held (bs_dma s)"
    and "tasks ((bs_dma s)\<lparr>dma_events := es\<rparr>) = tasks (bs_dma s)" "polls_ok ((bs_dma s)\<lparr>dma_events := es\<rparr>)"
  shows "bus_inv held m0 d0 (s\<lparr>bs_dma := (bs_dma s)\<lparr>m_req := r, req_Q := q, m_resp := r', resp_Q := q', dma_events := es\<rparr>\<rparr>)"
  using assms(1,2,4) by (simp add: bus_inv_def in_phase_cong [OF assms(3)] reg_cong polls_ok_def)

lemma inv_flush:
  assumes "bus_inv held m0 d0 s" "waiting held r q = out_req held (bs_dma s)"
  shows "bus_inv held m0 d0 (s\<lparr>bs_dma := (bs_dma s)\<lparr>m_req := r, req_Q := q, m_resp := r', resp_Q := q'\<rparr>\<rparr>)"
  using inv_regs [OF assms, where es = "dma_events (bs_dma s)"] assms(1) by (simp add: bus_inv_def)

lemma act_take:
  assumes "slot_contract ops held drain" "bus_inv held m0 d0 s" "bus_act serve ops held drain cfg now BusTake s = Some res"
  shows "\<exists>s'. res = Inr s' \<and> bus_inv held m0 d0 s' \<and> bus_todo held s' < bus_todo held s"
proof -
  let ?d = "bs_dma s" and ?r = "drain (m_req (bs_dma s))"
  obtain x where x: "held (m_req ?d) = Some x" and res: "res = Inr (s\<lparr>bs_dma := ?d\<lparr>m_req := ?r\<rparr>, bs_req := bs_req s @ [x]\<rparr>)"
    using assms(3) by (auto split: option.splits)
  let ?s = "s\<lparr>bs_dma := ?d\<lparr>m_req := ?r\<rparr>, bs_req := bs_req s @ [x]\<rparr>"
  have none: "held ?r = None" by (rule slot_drain [OF assms(1)])
  obtain ph where ph: "in_phase (word_at m0) ph ?d (x # req_Q ?d) (bs_req s) (bs_resp s)" using assms(2) x by (auto simp: bus_inv_def)
  then have "in_phase (word_at m0) ph (?d\<lparr>m_req := ?r\<rparr>) (req_Q ?d) (bs_req s @ [x]) (bs_resp s)"
    using in_phase_flush [where d = ?d and r = ?r and q = "req_Q ?d" and r' = "m_resp ?d" and q' = "resp_Q ?d"] by (simp add: phase_take)
  moreover have "set (bs_req s) \<union> set (out_req held ?d) = set (bs_req s @ [x]) \<union> set (req_Q ?d)" using x by auto
  moreover have "geometry (?d\<lparr>m_req := ?r\<rparr>) = geometry ?d" by (simp add: geometry_def)
  ultimately have "bus_inv held m0 d0 ?s" using assms(2) none by (auto simp: bus_inv_def polls_ok_def)
  moreover have "bus_todo held ?s < bus_todo held s" using x none by (simp add: bus_todo_def dma_todo_def tasks_def)
  ultimately show ?thesis using res by blast
qed

lemma act_serve:
  assumes "transferable (mapped m0) (totalWords d0) (src_at d0) (dst_at d0)" "bus_inv held m0 d0 s"
    and "bus_act serve ops held drain cfg now (BusServe i) s = Some res"
  shows "\<exists>s'. res = Inr s' \<and> bus_inv held m0 d0 s' \<and> bus_todo held s' < bus_todo held s"
proof -
  let ?d = "bs_dma s" and ?q = "bs_req s" and ?u = "out_req held (bs_dma s)" and ?k = "wordsTransferred (bs_dma s)"
  let ?R = "set (remove_nth i ?q) \<union> set ?u"
  have i: "i < length ?q" and res: "res = bindE (serve now (?q ! i) (bs_slaves s)) (\<lambda>(m, rs).
      Inr (s\<lparr>bs_slaves := m, bs_req := remove_nth i ?q, bs_resp := bs_resp s @ rs\<rparr>))"
    using assms(3) by (auto split: if_splits)
  obtain ph where ph: "in_phase (word_at m0) ph ?d ?u ?q (bs_resp s)" using assms(2) by (auto simp: bus_inv_def)
  have geo: "geometry ?d = geometry d0" using assms(2) by (simp add: bus_inv_def)
  then have src: "src_at ?d = src_at d0" "totalWords ?d = totalWords d0"
    by (simp_all add: geometry_def fun_eq_iff word_addr_def words_per_row_def)
  have set_q: "set ?q \<union> set ?u = insert (?q ! i) ?R" using filter_remove_nth(4) [OF i] by auto
  have data: "data_inv m0 (totalWords d0) (src_at d0) (dst_at d0) ?k (insert (?q ! i) ?R) (bs_slaves s)"
    using assms(2) unfolding bus_inv_def set_q by blast
  obtain m' rp where srv: "serve now (?q ! i) (bs_slaves s) = Inr (m', [rp])"
    "in_phase (word_at m0) ph ?d ?u (remove_nth i ?q) (bs_resp s @ [rp])" "data_inv m0 (totalWords d0) (src_at d0) (dst_at d0) ?k ?R m'"
  proof (cases "is_wreq (?q ! i)")
    case True
    then obtain w where w: "?q ! i = WriteReq w" by (cases "?q ! i") auto
    show thesis using serve_write_data [OF assms(1) data [unfolded w], of now] phase_serve_write [OF ph i True] that w by metis
  next
    case False
    from phase_serve_read [OF ph i False] obtain c where c: "ph = Reading" "?q ! i = ReadReq (read_pkt c ?d)"
      "\<And>r. payloadList r = answers (word_at m0) (payloadList (read_pkt c ?d)) \<Longrightarrow> in_phase (word_at m0) Reading ?d ?u (remove_nth i ?q) (bs_resp s @ [ReadResp r])"
      by metis
    have "data_inv m0 (totalWords d0) (src_at ?d) (dst_at d0) ?k ?R (bs_slaves s)"
      using data c(2) unfolding data_inv_def src by auto
    from serve_read_data [OF assms(1) [folded src(1)] this, of now c] ph c(1) src obtain m' r where
      "serve now (ReadReq (read_pkt c ?d)) (bs_slaves s) = Inr (m', [ReadResp r])" "data_inv m0 (totalWords d0) (src_at d0) (dst_at d0) ?k ?R m'"
      "payloadList r = answers (word_at m0) (payloadList (read_pkt c ?d))" by (auto simp: in_phase.simps)
    with c show thesis by (intro that [of m' "ReadResp r"]) simp_all
  qed
  have "bus_inv held m0 d0 (s\<lparr>bs_slaves := m', bs_req := remove_nth i ?q, bs_resp := bs_resp s @ [rp]\<rparr>)"
    using assms(2) srv(2,3) by (auto simp: bus_inv_def)
  then show ?thesis using res srv(1) length_remove_nth [OF i] by (simp add: bus_todo_def)
qed

lemma data_inv_reads: "(\<And>w. WriteReq w \<in> R \<longleftrightarrow> WriteReq w \<in> R') \<Longrightarrow> data_inv m0 n src dst k R m = data_inv m0 n src dst k R' m"
  by (simp add: data_inv_def)

text \<open>The packets of a write phase.\<close>

lemma write_ok_packet:
  assumes "transferable mp n src dst" "legal_burst w" "write_tagged w"
    and "map write_key (payloadList w) = map (\<lambda>g. (SW, dst g, f g)) gs" "distinct gs" "\<forall>g \<in> set gs. g < k" "k \<le> n"
  shows "write_ok f dst k w"
proof -
  obtain t where t: "dst_idx w = slaveIndex (wq_addr (hd (payloadList w)))" "TransactionID w = Some t"
    "\<forall>q \<in> set (payloadList w). wq_tid q = t \<and> wq_caller q = ''dma''" using assms(3) by (auto simp: write_tagged_def)
  have ne: "payloadList w \<noteq> []" "burstSize w = int (length (payloadList w))" using assms(2) by (auto simp: legal_burst_def)
  then obtain g gs' where gs: "gs = g # gs'" using assms(4) by (cases gs) auto
  with assms(4) ne(1) have "wq_addr (hd (payloadList w)) = dst g" by (cases "payloadList w") (auto simp: write_key_def)
  moreover have "g < n" using gs assms(6,7) by auto
  ultimately have "dst_idx w = slaveIndex (dst 0)" using t(1) transferableD(3) [OF assms(1)] by metis
  moreover have "from_dma wq_tid wq_caller t w" using t(2,3) ne by (simp add: from_dma_def)
  ultimately show ?thesis using assms(4-6) by (auto simp: write_ok_def)
qed

lemma data_inv_extend:
  assumes "transferable (mapped m0) n src dst" "data_inv m0 n src dst k R m" "k + j \<le> n" "\<forall>w \<in> set pkts. legal_burst w \<and> write_tagged w"
    and "map write_key (concat (map payloadList pkts)) = map (\<lambda>g. (SW, dst g, word_at m0 (src g))) [k..<k + j]"
  shows "data_inv m0 n src dst (k + j) (R \<union> WriteReq ` set pkts) m"
proof -
  let ?f = "\<lambda>g. word_at m0 (src g)" and ?key = "\<lambda>g. (SW, dst g, word_at m0 (src g))"
  have keys: "\<forall>xs \<in> set (map payloadList pkts). \<exists>gs. map write_key xs = map ?key gs \<and> distinct gs \<and> set gs \<subseteq> set [k..<k + j]"
    "\<forall>g \<in> set [k..<k + j]. \<exists>xs \<in> set (map payloadList pkts). ?key g \<in> write_key ` set xs"
    using keys_of_packets [OF assms(5)] by simp_all
  have "write_ok ?f dst (k + j) w" if "w \<in> set pkts" for w
  proof -
    from that keys(1) obtain gs where gs: "map write_key (payloadList w) = map ?key gs" "distinct gs" "set gs \<subseteq> set [k..<k + j]" by auto
    have "\<forall>g \<in> set gs. g < k + j" using gs(3) by (auto simp: subset_iff)
    then show ?thesis using write_ok_packet [OF assms(1) _ _ gs(1,2) _ assms(3)] assms(4) that by blast
  qed
  moreover have "write_ok ?f dst (k + j) w" if "WriteReq w \<in> R" for w
  proof -
    have "write_ok ?f dst k w" using assms(2) that by (simp add: data_inv_def)
    then show ?thesis unfolding write_ok_def by (meson trans_less_add1)
  qed
  moreover have "\<exists>w. WriteReq w \<in> R \<union> WriteReq ` set pkts \<and> write_of w (dst g) (?f g)" if g: "k \<le> g" "g < k + j" for g
  proof -
    obtain w where "w \<in> set pkts" "?key g \<in> write_key ` set (payloadList w)" using bspec [OF keys(2), of g] g by auto
    then show ?thesis unfolding write_of_def by blast
  qed
  moreover have "word_at m (dst g) = ?f g \<or> (\<exists>w. WriteReq w \<in> R \<union> WriteReq ` set pkts \<and> write_of w (dst g) (?f g))" if "g < k" for g
    using assms(2) that by (auto simp: data_inv_def)
  ultimately show ?thesis using assms(2,3) unfolding data_inv_def by (auto simp: not_le) (metis not_le)
qed

lemma act_respond:
  assumes "slot_contract ops held drain" "bus_inv held m0 d0 s" "bus_act serve ops held drain cfg now (BusRespond i) s = Some res"
  shows "\<exists>s'. res = Inr s' \<and> bus_inv held m0 d0 s' \<and> bus_todo held s' < bus_todo held s"
proof -
  let ?d = "bs_dma s" and ?p = "bs_resp s" and ?q = "bs_req s"
  have i: "i < length ?p" and res: "res = dma_does (s\<lparr>bs_resp := remove_nth i ?p\<rparr>) (dma_step ops cfg now (bs_ctr s) (Some (?p ! i)) ?d)"
    using assms(3) by (auto split: if_splits)
  obtain ph where ph: "in_phase (word_at m0) ph ?d (out_req held ?d) ?q ?p" using assms(2) by (auto simp: bus_inv_def)
  have inv: "geometry ?d = geometry d0" "length (bufferMemory ?d) = 256" "polls_ok ?d" using assms(2) by (simp_all add: bus_inv_def)
  have data: "data_inv m0 (totalWords d0) (src_at d0) (dst_at d0) (wordsTransferred ?d) (set ?q \<union> set (out_req held ?d)) (bs_slaves s)"
    using assms(2) by (simp add: bus_inv_def)
  have "\<exists>ph' d' c rs. dma_step ops cfg now (bs_ctr s) (Some (?p ! i)) ?d = Inr (d', c)
    \<and> in_phase (word_at m0) ph' d' (out_req held d') ?q (remove_nth i ?p) \<and> geometry d' = geometry ?d \<and> wordsTransferred d' = wordsTransferred ?d
    \<and> out_req held d' = out_req held ?d @ rs \<and> list_all (Not \<circ> is_wreq) rs \<and> polls_ok d' \<and> length (bufferMemory d') = 256 \<and> dma_todo held d' \<le> dma_todo held ?d"
    using phase_resp_kind [OF ph i]
  proof (elim disjE conjE exE)
    fix w
    assume w: "?p ! i = WriteResp w"
    from write_acked [OF assms(1) ph i w inv(2), of cfg now "bs_ctr s"] inv(3) show ?thesis unfolding w polls_ok_def by metis
  next
    fix r
    assume rd: "ph = Reading" and r: "?p ! i = ReadResp r"
    from read_answered [OF assms(1) ph [unfolded rd] i r, of cfg now "bs_ctr s"] obtain d' t e where
      d': "dma_step ops cfg now (bs_ctr s) (Some (ReadResp r)) ?d = Inr (d', bs_ctr s)" "in_phase (word_at m0) Planned d' (out_req held d') ?q (remove_nth i ?p)"
        "geometry d' = geometry ?d" "wordsTransferred d' = wordsTransferred ?d" "out_req held d' = out_req held ?d"
        "dma_events d' = dma_events ?d @ [(t, e)]" "e \<in> {DmaScheduleReads, DmaScheduleWrites}" "dma_todo held d' \<le> dma_todo held ?d" by blast
    moreover have "polls_ok d'" "length (bufferMemory d') = 256" using inv(3) d'(2,6,7) by (auto simp: polls_ok_def in_phase.simps fill_inv_def)
    ultimately show ?thesis unfolding r
      by (intro exI [of _ Planned] exI [of _ d'] exI [of _ "bs_ctr s"] exI [of _ "[]"]) simp
  qed
  then obtain ph' d' c rs where d': "dma_step ops cfg now (bs_ctr s) (Some (?p ! i)) ?d = Inr (d', c)"
    "in_phase (word_at m0) ph' d' (out_req held d') ?q (remove_nth i ?p)" "geometry d' = geometry ?d" "wordsTransferred d' = wordsTransferred ?d"
    "out_req held d' = out_req held ?d @ rs" "list_all (Not \<circ> is_wreq) rs" "polls_ok d'" "length (bufferMemory d') = 256" "dma_todo held d' \<le> dma_todo held ?d"
    by blast
  have "WriteReq w \<in> set ?q \<union> set (out_req held d') \<longleftrightarrow> WriteReq w \<in> set ?q \<union> set (out_req held ?d)" for w
    using d'(6) by (auto simp: d'(5) list.pred_set)
  from data_inv_reads [OF this] d'(2-5,7,8) inv data
  have "bus_inv held m0 d0 (s\<lparr>bs_resp := remove_nth i ?p, bs_dma := d', bs_ctr := c\<rparr>)" by (auto simp: bus_inv_def)
  then show ?thesis using res d'(1,9) length_remove_nth [OF i] by (auto simp: dma_does_def bus_todo_def)
qed

text \<open>A task starts the next phase.\<close>

lemma act_task:
  assumes "slot_contract ops held drain" "transferable (mapped m0) (totalWords d0) (src_at d0) (dst_at d0)" "bus_inv held m0 d0 s"
    and "i < length (dma_events (bs_dma s))" "snd (dma_events (bs_dma s) ! i) \<in> {DmaScheduleReads, DmaScheduleWrites}"
  shows "\<exists>s'. bus_act serve ops held drain cfg now (BusEvent i) s = Some (Inr s') \<and> bus_inv held m0 d0 s' \<and> bus_todo held s' < bus_todo held s"
proof -
  let ?d = "bs_dma s" and ?q = "bs_req s" and ?p = "bs_resp s" and ?es = "remove_nth i (dma_events (bs_dma s))"
  obtain ph where ph: "in_phase (word_at m0) ph ?d (out_req held ?d) ?q ?p" using assms(3) by (auto simp: bus_inv_def)
  have inv: "geometry ?d = geometry d0" "length (bufferMemory ?d) = 256" "polls_ok ?d" using assms(3) by (simp_all add: bus_inv_def)
  have geo: "src_at ?d = src_at d0" "dst_at ?d = dst_at d0" "totalWords ?d = totalWords d0"
    using inv(1) by (simp_all add: geometry_def fun_eq_iff word_addr_def words_per_row_def)
  have data: "data_inv m0 (totalWords d0) (src_at d0) (dst_at d0) (wordsTransferred ?d) (set ?q \<union> set (out_req held ?d)) (bs_slaves s)"
    using assms(3) by (simp add: bus_inv_def)
  have "snd (dma_events ?d ! i) \<in> set (tasks ?d)" using assms(4,5) by (auto simp: tasks_def)
  then have "ph = Planned" using ph by (cases ph) (auto simp: in_phase.simps)
  note ph = ph [unfolded this]
  have ev: "snd (dma_events ?d ! i) = (if words_to_read ?d = 0 then DmaScheduleWrites else DmaScheduleReads)" "tasks (?d\<lparr>dma_events := ?es\<rparr>) = []"
    using tasks_remove(2) [OF assms(4,5)] ph by (auto simp: in_phase.simps)
  have polls: "polls_ok (?d\<lparr>dma_events := ?es\<rparr>)" using polls_remove [OF inv(3)] .
  show ?thesis
  proof (cases "words_to_read ?d = 0")
    case False
    from reads_task [OF assms(1) ph False ev(2), of cfg "bs_ctr s"] obtain d' t where
      d': "scheduleReadsForBuffer ops cfg (bs_ctr s) (?d\<lparr>dma_events := ?es\<rparr>) = Inr (d', bs_ctr s + 1)" "in_phase (word_at m0) Reading d' (out_req held d') ?q ?p"
        "geometry d' = geometry ?d" "wordsTransferred d' = wordsTransferred ?d" "out_req held d' = out_req held ?d @ [ReadReq t]" "dma_events d' = ?es"
        "dma_todo held d' < dma_todo held ?d" by blast
    let ?s = "s\<lparr>bs_dma := d', bs_ctr := bs_ctr s + 1\<rparr>"
    have "length (bufferMemory d') = 256" "polls_ok d'" using d'(2,6) polls by (simp_all add: in_phase.simps fill_inv_def polls_ok_def)
    moreover have "data_inv m0 (totalWords d0) (src_at d0) (dst_at d0) (wordsTransferred d') (set ?q \<union> set (out_req held d')) (bs_slaves s)"
      using data data_inv_reads [of "set ?q \<union> set (out_req held d')" "set ?q \<union> set (out_req held ?d)"] unfolding d'(4,5) by simp
    ultimately have "bus_inv held m0 d0 ?s" using d'(2,3) inv(1) by (auto simp: bus_inv_def)
    then show ?thesis using assms(4) ev(1) False d'(1,7) by (simp add: dma_does_def bus_todo_def)
  next
    case True
    from writes_task [OF assms(1) ph True ev(2), of cfg "bs_ctr s"] obtain ph' d' c pkts where
      d': "scheduleWritesFromBuffer ops cfg (bs_ctr s) (?d\<lparr>dma_events := ?es\<rparr>) = Inr (d', c)" "in_phase (word_at m0) ph' d' (out_req held d') ?q ?p"
        "geometry d' = geometry ?d" "wordsTransferred d' = wordsTransferred ?d + bufferIndex ?d" "bufferIndex ?d \<le> totalWords ?d - wordsTransferred ?d"
        "out_req held d' = out_req held ?d @ map WriteReq pkts" "\<forall>w \<in> set pkts. legal_burst w \<and> write_tagged w"
        "map write_key (concat (map payloadList pkts)) = map (\<lambda>g. (SW, dst_at ?d g, word_at m0 (src_at ?d g))) [wordsTransferred ?d..<wordsTransferred ?d + bufferIndex ?d]"
        "dma_events d' = ?es" "length (bufferMemory d') = 256" "dma_todo held d' < dma_todo held ?d" by blast
    have "wordsTransferred ?d \<le> totalWords d0" using data by (simp add: data_inv_def)
    then have n: "wordsTransferred ?d + bufferIndex ?d \<le> totalWords d0" using d'(5) geo(3) by simp
    have "data_inv m0 (totalWords d0) (src_at d0) (dst_at d0) (wordsTransferred d') (set ?q \<union> set (out_req held d')) (bs_slaves s)"
      unfolding d'(4,6) using data_inv_extend [OF assms(2) data n d'(7) d'(8) [unfolded geo(1,2)]] by (simp add: Un_assoc)
    then have "bus_inv held m0 d0 (s\<lparr>bs_dma := d', bs_ctr := c\<rparr>)"
      using d' inv polls by (auto simp: bus_inv_def polls_ok_def)
    then show ?thesis using assms(4) ev(1) True d'(1,11) by (simp add: dma_does_def bus_todo_def)
  qed
qed

text \<open>The actions that only move what waits on the response side.\<close>

lemma act_rest:
  assumes "slot_contract ops held drain" "bus_inv held m0 d0 s"
    and "bus_act serve ops held drain cfg now a s = Some res"
    and "a \<in> {BusAck, BusIdle, BusRetry} \<or> (\<exists>q. a = BusPoll q)
      \<or> (\<exists>i. a = BusEvent i \<and> snd (dma_events (bs_dma s) ! i) \<notin> {DmaScheduleReads, DmaScheduleWrites})"
  shows "\<exists>s'. res = Inr s' \<and> bus_inv held m0 d0 s'"
proof -
  let ?d = "bs_dma s"
  have polls: "polls_ok ?d" using assms(2) by (simp add: bus_inv_def)
  obtain r q r' q' where fl: "dma_flush ops ?d = ?d\<lparr>m_req := r, req_Q := q, m_resp := r', resp_Q := q'\<rparr>" "waiting held r q = out_req held ?d"
    by (rule slot_flush [OF assms(1), of ?d])
  from assms(4) show ?thesis
  proof (elim disjE insertE emptyE exE conjE)
    assume a: "a = BusAck"
    with assms(3) have "res = Inr (s\<lparr>bs_dma := ?d\<lparr>m_req := m_req ?d, req_Q := req_Q ?d, m_resp := drain (m_resp ?d), resp_Q := resp_Q ?d\<rparr>\<rparr>)"
      by (auto split: option.splits)
    then show ?thesis using inv_flush [OF assms(2) refl] by blast
  next
    assume a: "a = BusIdle"
    have "dma_step ops cfg now (bs_ctr s) None ?d = Inr (dma_flush ops ?d, bs_ctr s)" by (simp add: dma_step_def dma_flush_def Let_def)
    with assms(3) a fl(1) have "res = Inr (s\<lparr>bs_dma := ?d\<lparr>m_req := r, req_Q := q, m_resp := r', resp_Q := q'\<rparr>\<rparr>)" by (simp add: dma_does_def)
    then show ?thesis using inv_flush [OF assms(2) fl(2)] by blast
  next
    assume a: "a = BusRetry"
    obtain r q r' q' where "dma_trySendPacket ops ?d = ?d\<lparr>m_req := r, req_Q := q, m_resp := r', resp_Q := q'\<rparr>" "waiting held r q = out_req held ?d"
      by (rule slot_trySendPacket [OF assms(1), of ?d])
    with assms(3) a inv_flush [OF assms(2)] show ?thesis by (auto simp: dma_masterPortRetry_def)
  next
    fix p
    assume a: "a = BusPoll p"
    with assms(3) have p: "poll_ok p" by (auto split: if_splits)
    let ?es = "dma_events ?d @ [(now + memory_read_latency cfg, DmaReadMMIO p), (now + 1 + memory_read_latency cfg, DmaTrySend)]"
    have "dma_step ops cfg now (bs_ctr s) (Some (ReadReq (single p 0 1 (rq_tid p)))) ?d = Inr ((dma_flush ops ?d)\<lparr>dma_events := ?es\<rparr>, bs_ctr s)"
      using fl(1) by (simp add: dma_step_def dma_flush_def dma_schedule_def renew_packet_def burst_size_of_def Let_def)
    with assms(3) a p fl(1) have "res = Inr (s\<lparr>bs_dma := ?d\<lparr>m_req := r, req_Q := q, m_resp := r', resp_Q := q', dma_events := ?es\<rparr>\<rparr>)"
      by (simp add: dma_does_def)
    moreover have "tasks (?d\<lparr>dma_events := ?es\<rparr>) = tasks ?d" "polls_ok (?d\<lparr>dma_events := ?es\<rparr>)" using polls p by (auto simp: tasks_def polls_ok_def)
    ultimately show ?thesis using inv_regs [OF assms(2) fl(2)] by blast
  next
    fix i
    assume a: "a = BusEvent i" and ne: "snd (dma_events ?d ! i) \<notin> {DmaScheduleReads, DmaScheduleWrites}"
    let ?es = "remove_nth i (dma_events ?d)"
    have i: "i < length (dma_events ?d)" using assms(3) a by (auto split: if_splits)
    note es = tasks_remove(1) [OF i ne] polls_remove [OF polls, of i]
    show ?thesis
    proof (cases "snd (dma_events ?d ! i)")
      case DmaTrySend
      obtain r q r' q' where t: "dma_trySendPacket ops (?d\<lparr>dma_events := ?es\<rparr>) = ?d\<lparr>dma_events := ?es\<rparr>\<lparr>m_req := r, req_Q := q, m_resp := r', resp_Q := q'\<rparr>"
        "waiting held r q = out_req held (?d\<lparr>dma_events := ?es\<rparr>)"
        by (rule slot_trySendPacket [OF assms(1), of "?d\<lparr>dma_events := ?es\<rparr>"])
      then have "res = Inr (s\<lparr>bs_dma := ?d\<lparr>m_req := r, req_Q := q, m_resp := r', resp_Q := q', dma_events := ?es\<rparr>\<rparr>)"
        using assms(3) a i DmaTrySend by (auto simp: dma_does_def events_last)
      then show ?thesis using inv_regs [OF assms(2) _ es] t(2) by auto
    next
      case (DmaReadMMIO p)
      then have p: "poll_ok p" using polls i unfolding polls_ok_def by (metis image_eqI nth_mem)
      then obtain v where "dma_reg_read (?d\<lparr>dma_events := ?es\<rparr>) (rq_addr p AND 0x3F) = Some v" using poll_reads by blast
      then obtain l where "dma_readMMIO cfg p (?d\<lparr>dma_events := ?es\<rparr>) = Inr (?d\<lparr>dma_events := ?es, resp_Q := l\<rparr>)"
        using p by (auto simp: dma_readMMIO_def poll_ok_def Let_def)
      then have "res = Inr (s\<lparr>bs_dma := ?d\<lparr>m_req := m_req ?d, req_Q := req_Q ?d, m_resp := m_resp ?d, resp_Q := l, dma_events := ?es\<rparr>\<rparr>)"
        using assms(3) a i DmaReadMMIO by (auto simp: dma_does_def events_last)
      then show ?thesis using inv_regs [OF assms(2) refl es] by blast
    qed (use ne in simp_all)
  qed
qed

text \<open>No action of a transfer fails, and every action keeps the invariant.\<close>

lemma act_inv:
  assumes "slot_contract ops held drain" "transferable (mapped m0) (totalWords d0) (src_at d0) (dst_at d0)" "bus_inv held m0 d0 s"
    and "bus_act serve ops held drain cfg now a s = Some res"
  shows "\<exists>s'. res = Inr s' \<and> bus_inv held m0 d0 s'"
proof (cases a)
  case BusTake
  with act_take [OF assms(1,3)] assms(4) show ?thesis by blast
next
  case (BusServe i)
  with act_serve [OF assms(2,3)] assms(4) show ?thesis by blast
next
  case (BusRespond i)
  with act_respond [OF assms(1,3)] assms(4) show ?thesis by blast
next
  case (BusEvent i)
  show ?thesis
  proof (cases "snd (dma_events (bs_dma s) ! i) \<in> {DmaScheduleReads, DmaScheduleWrites}")
    case True
    have "i < length (dma_events (bs_dma s))" using assms(4) BusEvent by (auto split: if_splits)
    from act_task [OF assms(1-3) this True] BusEvent assms(4) show ?thesis by (metis option.inject)
  qed (use act_rest [OF assms(1,3,4)] BusEvent in blast)
qed (use act_rest [OF assms(1,3,4)] in blast)+

lemma run_inv:
  assumes "bus_run serve ops held drain cfg s s'" "slot_contract ops held drain"
    and "transferable (mapped m0) (totalWords d0) (src_at d0) (dst_at d0)" "bus_inv held m0 d0 s"
  shows "bus_inv held m0 d0 s'"
  using assms
proof (induction rule: bus_run.induct)
  case (bus_step s s1 now a s2)
  with act_inv [of ops held drain m0 d0 s1 cfg now a] show ?case by blast
qed simp

text \<open>While something is under way there is an action that brings the transfer on.\<close>

lemma progress:
  assumes "slot_contract ops held drain" "transferable (mapped m0) (totalWords d0) (src_at d0) (dst_at d0)" "bus_inv held m0 d0 s"
    and "\<not> at_rest held s"
  shows "\<exists>a s'. bus_act serve ops held drain cfg 0 a s = Some (Inr s') \<and> bus_inv held m0 d0 s' \<and> bus_todo held s' < bus_todo held s"
proof -
  let ?d = "bs_dma s"
  consider "bs_resp s \<noteq> []" | "bs_req s \<noteq> []" | x where "held (m_req ?d) = Some x" | "held (m_req ?d) = None" "req_Q ?d \<noteq> []" | "tasks ?d \<noteq> []"
    using assms(4) by (auto simp: at_rest_def split: option.splits)
  then show ?thesis
  proof cases
    case 1
    then obtain res where "bus_act serve ops held drain cfg 0 (BusRespond 0) s = Some res" by simp
    with act_respond [OF assms(1,3) this] show ?thesis by blast
  next
    case 2
    then obtain res where "bus_act serve ops held drain cfg 0 (BusServe 0) s = Some res" by simp
    with act_serve [OF assms(2,3) this] show ?thesis by blast
  next
    case (3 x)
    then obtain res where "bus_act serve ops held drain cfg 0 BusTake s = Some res" by simp
    with act_take [OF assms(1,3) this] show ?thesis by blast
  next
    case 4
    obtain r q r' q' where fl: "dma_flush ops ?d = ?d\<lparr>m_req := r, req_Q := q, m_resp := r', resp_Q := q'\<rparr>" "waiting held r q = out_req held ?d"
      "settled held r q" by (rule slot_flush [OF assms(1), of ?d])
    let ?s = "s\<lparr>bs_dma := ?d\<lparr>m_req := r, req_Q := q, m_resp := r', resp_Q := q'\<rparr>\<rparr>"
    have "dma_step ops cfg 0 (bs_ctr s) None ?d = Inr (dma_flush ops ?d, bs_ctr s)" by (simp add: dma_step_def dma_flush_def Let_def)
    then have "bus_act serve ops held drain cfg 0 BusIdle s = Some (Inr ?s)" using fl(1) by (simp add: dma_does_def)
    moreover have "bus_todo held ?s < bus_todo held s" using todo_flush(2) [OF fl(2,3) 4] by (simp add: bus_todo_def)
    ultimately show ?thesis using inv_flush [OF assms(3) fl(2)] by blast
  next
    case 5
    then obtain e where "e \<in> set (tasks ?d)" by (cases "tasks ?d") auto
    then obtain i where "i < length (dma_events ?d)" "snd (dma_events ?d ! i) \<in> {DmaScheduleReads, DmaScheduleWrites}"
      by (auto simp: tasks_def in_set_conv_nth)
    from act_task [OF assms(1-3) this] show ?thesis by blast
  qed
qed

lemma completes:
  assumes "slot_contract ops held drain" "transferable (mapped m0) (totalWords d0) (src_at d0) (dst_at d0)" "bus_inv held m0 d0 s"
  shows "\<exists>s'. bus_run serve ops held drain cfg s s' \<and> at_rest held s' \<and> bus_inv held m0 d0 s'"
  using assms(3)
proof (induction "bus_todo held s" arbitrary: s rule: less_induct)
  case less
  show ?case
  proof (cases "at_rest held s")
    case False
    from progress [OF assms(1,2) less.prems False, of cfg] obtain a s1 where
      s1: "bus_act serve ops held drain cfg 0 a s = Some (Inr s1)" "bus_inv held m0 d0 s1" "bus_todo held s1 < bus_todo held s" by blast
    from less.hyps [OF s1(3,2)] obtain s' where "bus_run serve ops held drain cfg s1 s'" "at_rest held s'" "bus_inv held m0 d0 s'" by blast
    moreover have "bus_run serve ops held drain cfg s s1" by (rule bus_step [OF bus_start s1(1)])
    ultimately show ?thesis using bus_run_trans by blast
  qed (use less.prems bus_start in blast)
qed

text \<open>What holds when \<open>done\<close> is set, and when nothing is under way any more.\<close>

lemma inv_done:
  assumes "bus_inv held m0 d0 s" "dma_done (bs_dma s)"
  shows "length (bs_req s @ out_req held (bs_dma s)) \<le> (totalWords d0 + 255) div 256"
    "\<forall>g < totalWords d0. word_at (bs_slaves s) (dst_at d0 g) = word_at m0 (src_at d0 g)
      \<or> (\<exists>w. WriteReq w \<in> set (bs_req s @ out_req held (bs_dma s)) \<and> write_of w (dst_at d0 g) (word_at m0 (src_at d0 g)))"
proof -
  let ?d = "bs_dma s"
  obtain ph where ph: "in_phase (word_at m0) ph ?d (out_req held ?d) (bs_req s) (bs_resp s)" using assms(1) by (auto simp: bus_inv_def)
  then have "ph = Finished" using assms(2) by (cases ph) (simp_all add: in_phase.simps)
  with ph have fin: "wordsTransferred ?d = totalWords ?d" "length (out_req held ?d @ bs_req s @ bs_resp s) \<le> (totalWords ?d + 255) div 256"
    by (simp_all add: in_phase.simps)
  have "totalWords ?d = totalWords d0" using assms(1) by (simp add: bus_inv_def geometry_def)
  with fin assms(1) show "length (bs_req s @ out_req held ?d) \<le> (totalWords d0 + 255) div 256"
    "\<forall>g < totalWords d0. word_at (bs_slaves s) (dst_at d0 g) = word_at m0 (src_at d0 g)
      \<or> (\<exists>w. WriteReq w \<in> set (bs_req s @ out_req held ?d) \<and> write_of w (dst_at d0 g) (word_at m0 (src_at d0 g)))"
    by (auto simp: bus_inv_def data_inv_def)
qed

lemma inv_rest:
  assumes "bus_inv held m0 d0 s" "at_rest held s"
  shows "wordsTransferred (bs_dma s) = totalWords d0" "dma_done (bs_dma s) \<longleftrightarrow> \<not> one_burst_end (totalWords d0)"
    "\<forall>g < totalWords d0. word_at (bs_slaves s) (dst_at d0 g) = word_at m0 (src_at d0 g)"
    "\<forall>b. mapped m0 b \<longrightarrow> (\<forall>g < totalWords d0. apart b (dst_at d0 g)) \<longrightarrow> word_at (bs_slaves s) b = word_at m0 b" "frame (bs_slaves s) = frame m0"
proof -
  let ?d = "bs_dma s"
  have rest: "bs_req s = []" "bs_resp s = []" "out_req held ?d = []" "tasks ?d = []" using assms(2) by (simp_all add: at_rest_def)
  obtain ph where ph: "in_phase (word_at m0) ph ?d (out_req held ?d) (bs_req s) (bs_resp s)" using assms(1) by (auto simp: bus_inv_def)
  then have "ph = Finished" using rest by (cases ph) (auto simp: in_phase.simps one_read_def)
  moreover have "totalWords ?d = totalWords d0" using assms(1) by (simp add: bus_inv_def geometry_def)
  ultimately show fin: "wordsTransferred ?d = totalWords d0" "dma_done ?d \<longleftrightarrow> \<not> one_burst_end (totalWords d0)"
    using ph by (simp_all add: in_phase.simps)
  have "data_inv m0 (totalWords d0) (src_at d0) (dst_at d0) (totalWords d0) {} (bs_slaves s)"
    using assms(1) fin(1) rest(1,3) unfolding bus_inv_def by (metis Un_empty set_empty)
  then show "\<forall>g < totalWords d0. word_at (bs_slaves s) (dst_at d0 g) = word_at m0 (src_at d0 g)"
    "\<forall>b. mapped m0 b \<longrightarrow> (\<forall>g < totalWords d0. apart b (dst_at d0 g)) \<longrightarrow> word_at (bs_slaves s) b = word_at m0 b" "frame (bs_slaves s) = frame m0"
    by (simp_all add: data_inv_def)
qed

end

section \<open>Transfers of the SoC\<close>

text \<open>A controller that can be enabled: nothing under way, and no response expected.\<close>

definition dma_free :: "('r \<Rightarrow> sim_packet option) \<Rightarrow> 'r dma \<Rightarrow> bool" where
  "dma_free held d \<longleftrightarrow> length (bufferMemory d) = 256 \<and> out_req held d = [] \<and> tasks d = [] \<and> polls_ok d \<and> pendingBusWriteResponses d \<le> 0"

text \<open>
  A packet that stores \<open>v\<close> to the enable register, from the processor or the array: the crossbar delivers it, the
  controller queues an answer and the event that sends it.
\<close>

definition enables :: "'r reg_ops \<Rightarrow> sim_config \<Rightarrow> nat \<Rightarrow> sim_packet \<Rightarrow> u32 \<Rightarrow> 'r soc \<Rightarrow> bool" where
  "enables ops cfg now p v x \<longleftrightarrow> bit v 0 \<and> (\<exists>q t. soc_request ops cfg now p x =
     bindE (dma_reg_write ops cfg (soc_ctr x) 0 v (dma_flush ops (soc_dma x)))
       (\<lambda>(d, c). Inr (x\<lparr>soc_dma := d\<lparr>resp_Q := resp_Q d @ q, dma_events := dma_events d @ [(t, DmaTrySend)]\<rparr>, soc_ctr := c\<rparr>)))"

text \<open>The system with nothing on its way through the crossbar, and the one the store of the processor starts.\<close>

definition bus_started :: "'r soc \<Rightarrow> ('r, 'r soc) bus_sys" where
  "bus_started x = \<lparr>bs_dma = soc_dma x, bs_ctr = soc_ctr x, bs_slaves = x, bs_req = [], bs_resp = []\<rparr>"

definition enable_store :: "int \<Rightarrow> u32 \<Rightarrow> sim_packet" where
  "enable_store tid v = WriteReq (single ((dma_store 0xF000 v)\<lparr>wq_tid := tid\<rparr>) 0 (slaveIndex 0xF000) tid)"

definition bus_enable :: "'r reg_ops \<Rightarrow> sim_config \<Rightarrow> nat \<Rightarrow> int \<Rightarrow> u32 \<Rightarrow> 'r soc \<Rightarrow> ('r, 'r soc) bus_sys result" where
  "bus_enable ops cfg now tid v x = bindE (soc_request ops cfg now (enable_store tid v) x) (\<lambda>x'. Inr (bus_started x'))"

lemma enable_store_enables: "bit v 0 \<Longrightarrow> enables ops cfg now (enable_store tid v) v x"
  unfolding enables_def enable_store_def soc_request_enable by blast

lemma begun_config:
  "src_at (transfer_begun d) = cfg_src d" "dst_at (transfer_begun d) = cfg_dst d" "totalWords (transfer_begun d) = cfg_words d"
  by (simp_all add: fun_eq_iff transfer_begun_def Let_def cfg_src_def cfg_dst_def cfg_words_def cfg_width_def matrix_addr_def word_addr_def words_per_row_def)

lemma enable_phase:
  assumes "slot_contract ops held drain" "dma_free held d" "bit v 0"
  shows "\<exists>d'. dma_reg_write ops cfg ctr 0 v (dma_flush ops d) = Inr (d', ctr + 1) \<and> in_phase f Reading d' (out_req held d') [] []
    \<and> src_at d' = cfg_src d \<and> dst_at d' = cfg_dst d \<and> totalWords d' = cfg_words d \<and> length (bufferMemory d') = 256 \<and> dma_events d' = dma_events d
    \<and> wordsTransferred d' = 0 \<and> (\<exists>t. out_req held d' = [ReadReq t])"
proof -
  have free: "length (bufferMemory d) = 256" "out_req held d = []" "tasks d = []" "pendingBusWriteResponses d \<le> 0"
    using assms(2) by (simp_all add: dma_free_def)
  obtain r q r' q' where fl: "dma_flush ops d = d\<lparr>m_req := r, req_Q := q, m_resp := r', resp_Q := q'\<rparr>" "waiting held r q = out_req held d"
    "settled held r q" by (rule slot_flush [OF assms(1), of d])
  let ?e = "d\<lparr>m_req := r, req_Q := q, m_resp := r', resp_Q := q'\<rparr>"
  let ?s = "transfer_begun ?e"
  have "length (bufferMemory ?e) = 256" using free(1) by simp
  note begun = enable_begins [OF this assms(3)]
  have s: "m_req ?s = r" "req_Q ?s = q" "dma_events ?s = dma_events d" "bufferMemory ?s = bufferMemory d" "wordsTransferred ?s = 0"
    "pendingBusWriteResponses ?s = pendingBusWriteResponses d" "\<not> dma_done ?s" by (simp_all add: transfer_begun_def Let_def)
  have "settled held (m_req ?s) (req_Q ?s)" using fl(3) s(1,2) by simp
  from slot_read_phase [OF assms(1) this begun(3,4)] obtain a b where
    sch: "scheduleReadsForBuffer ops cfg ctr ?s = Inr (?s\<lparr>m_req := a, req_Q := b, pendingBusReadResponses := 1\<rparr>, ctr + 1)"
      "waiting held a b = out_req held ?s @ [ReadReq (read_pkt ctr ?s)]" by metis
  let ?d = "?s\<lparr>m_req := a, req_Q := b, pendingBusReadResponses := 1\<rparr>"
  have cong: "fill_inv f ?d = fill_inv f ?s" "words_to_read ?d = words_to_read ?s" "read_pkt ctr ?d = read_pkt ctr ?s"
    "src_at ?d = src_at ?s" "dst_at ?d = dst_at ?s"
    by (simp_all add: transfer_defs fun_eq_iff cong: map_cong)
  have out: "out_req held ?d = [ReadReq (read_pkt ctr ?s)]" using sch(2) s(1,2) fl(2) free(2) by simp
  have "one_read f ?d (out_req held ?d) [] []" unfolding one_read_def out cong(3) by (intro disjI1 exI [of _ ctr] exI [of _ "[]"]) (simp add: cong(3))
  then have "in_phase f Reading ?d (out_req held ?d) [] []"
    unfolding in_phase.simps cong using begun(2) [of f] begun(3) s free(3,4) out by (simp add: tasks_def)
  moreover have "cfg_src ?e = cfg_src d" "cfg_dst ?e = cfg_dst d" "cfg_words ?e = cfg_words d"
    by (simp_all add: cfg_src_def cfg_dst_def cfg_words_def cfg_width_def)
  ultimately show ?thesis using begun(1) sch(1) fl(1) cong(4,5) out s free(1) begun_config [of ?e]
    by (intro exI [of _ ?d]) simp
qed

text \<open>The state after the store, and the invariant there.\<close>

lemma enable_inv:
  assumes "slot_contract ops held drain" "dma_free held (soc_dma x)" "enables ops cfg now p v x" "bus_ready ops held drain x"
  obtains y where "soc_request ops cfg now p x = Inr y" "soc_bus.bus_inv ops held drain held y (soc_dma y) (bus_started y)"
    "totalWords (soc_dma y) = cfg_words (soc_dma x)" "src_at (soc_dma y) = cfg_src (soc_dma x)" "dst_at (soc_dma y) = cfg_dst (soc_dma x)"
    "bus_word y = bus_word x" "bus_mapped y = bus_mapped x" "others y = others x"
proof -
  from assms(3) obtain q u where bit: "bit v 0" and req: "soc_request ops cfg now p x =
     bindE (dma_reg_write ops cfg (soc_ctr x) 0 v (dma_flush ops (soc_dma x)))
       (\<lambda>(d, c). Inr (x\<lparr>soc_dma := d\<lparr>resp_Q := resp_Q d @ q, dma_events := dma_events d @ [(u, DmaTrySend)]\<rparr>, soc_ctr := c\<rparr>))"
    by (auto simp: enables_def)
  from enable_phase [OF assms(1,2) bit, of cfg "soc_ctr x" "bus_word x"] obtain d t where
    d: "dma_reg_write ops cfg (soc_ctr x) 0 v (dma_flush ops (soc_dma x)) = Inr (d, soc_ctr x + 1)"
      "in_phase (bus_word x) Reading d (out_req held d) [] []" "src_at d = cfg_src (soc_dma x)" "dst_at d = cfg_dst (soc_dma x)"
      "totalWords d = cfg_words (soc_dma x)" "length (bufferMemory d) = 256" "dma_events d = dma_events (soc_dma x)"
      "wordsTransferred d = 0" "out_req held d = [ReadReq t]" by blast
  let ?es = "dma_events d @ [(u, DmaTrySend)]" and ?l = "resp_Q d @ q"
  let ?d = "d\<lparr>resp_Q := ?l, dma_events := ?es\<rparr>"
  let ?x = "x\<lparr>soc_dma := ?d, soc_ctr := soc_ctr x + 1\<rparr>"
  have word: "bus_word ?x = bus_word x" "bus_mapped ?x = bus_mapped x" by (simp_all add: fun_eq_iff bus_word_def bus_mapped_def)
  have addr: "src_at ?d = cfg_src (soc_dma x)" "dst_at ?d = cfg_dst (soc_dma x)"
    unfolding d(3,4) [symmetric] by (simp_all add: fun_eq_iff word_addr_def words_per_row_def)
  have "in_phase (bus_word x) Reading ?d (out_req held ?d) [] []"
    using in_phase_cong [where d = d and es = ?es and r = "m_req d" and q = "req_Q d" and r' = "m_resp d" and q' = ?l] d(2) by (simp add: tasks_def)
  moreover have "soc_bus.data_inv ops held drain ?x (totalWords ?d) (src_at ?d) (dst_at ?d) 0 {ReadReq t} ?x"
    using assms(4) by (simp add: soc_bus.data_inv_def bus_ready_def slaves_idle_def)
  moreover have "polls_ok ?d" using assms(2) d(7) by (auto simp: dma_free_def polls_ok_def)
  ultimately have "soc_bus.bus_inv ops held drain held ?x ?d (bus_started ?x)"
    unfolding soc_bus.bus_inv_def word bus_started_def using d(6,8,9) by auto
  then show thesis using req d(1,5) word addr by (intro that [of ?x]) (simp_all add: others_def)
qed

text \<open>What a transfer leaves alone: the processor, the CFU, and all of the array but its SRAM and its response register.\<close>

definition bystanders :: "'r soc \<Rightarrow> 'r cpu \<times> cfu \<times> 'r sa" where
  "bystanders x = (soc_cpu x, soc_cfu x, (soc_sa x)\<lparr>sram := [], sa_m_resp := sa_m_req (soc_sa x)\<rparr>)"

lemma frame_bystanders: "bus_frame x = bus_frame y \<Longrightarrow> bystanders x = bystanders y"
  by (simp add: bus_frame_def bystanders_def)

lemma others_bystanders: "others x = others y \<Longrightarrow> bystanders x = bystanders y"
  by (simp add: others_def bystanders_def)

text \<open>The states of a transfer.\<close>

lemma transfer_states:
  assumes "slot_contract ops held drain" "dma_free held (soc_dma x)" "enables ops cfg now p v x" "bus_ready ops held drain x"
    and "transferable (bus_mapped x) (cfg_words (soc_dma x)) (cfg_src (soc_dma x)) (cfg_dst (soc_dma x))"
  obtains y where "soc_request ops cfg now p x = Inr y"
    "totalWords (soc_dma y) = cfg_words (soc_dma x)" "src_at (soc_dma y) = cfg_src (soc_dma x)" "dst_at (soc_dma y) = cfg_dst (soc_dma x)"
    "bus_word y = bus_word x" "transferable (bus_mapped y) (totalWords (soc_dma y)) (src_at (soc_dma y)) (dst_at (soc_dma y))"
    "\<And>s. bus_run (bus_serve ops held drain cfg) ops held drain cfg (bus_started y) s \<Longrightarrow> soc_bus.bus_inv ops held drain held y (soc_dma y) s"
    "\<And>s. bus_run (bus_serve ops held drain cfg) ops held drain cfg (bus_started y) s \<Longrightarrow> bystanders (bs_slaves s) = bystanders x
       \<and> (\<forall>b. bus_mapped x b \<longrightarrow> (\<forall>g < cfg_words (soc_dma x). apart b (cfg_dst (soc_dma x) g)) \<longrightarrow> bus_word (bs_slaves s) b = bus_word x b)"
proof -
  obtain y where y: "soc_request ops cfg now p x = Inr y" "soc_bus.bus_inv ops held drain held y (soc_dma y) (bus_started y)"
    "totalWords (soc_dma y) = cfg_words (soc_dma x)" "src_at (soc_dma y) = cfg_src (soc_dma x)" "dst_at (soc_dma y) = cfg_dst (soc_dma x)"
    "bus_word y = bus_word x" "bus_mapped y = bus_mapped x" "others y = others x"
    by (rule enable_inv [OF assms(1-4)])
  have tr: "transferable (bus_mapped y) (totalWords (soc_dma y)) (src_at (soc_dma y)) (dst_at (soc_dma y))"
    using assms(5) unfolding y(3-5,7) .
  have inv: "soc_bus.bus_inv ops held drain held y (soc_dma y) s"
    if "bus_run (bus_serve ops held drain cfg) ops held drain cfg (bus_started y) s" for s
    by (rule soc_bus.run_inv [OF that assms(1) tr y(2)])
  have "bystanders (bs_slaves s) = bystanders x
       \<and> (\<forall>b. bus_mapped x b \<longrightarrow> (\<forall>g < cfg_words (soc_dma x). apart b (cfg_dst (soc_dma x) g)) \<longrightarrow> bus_word (bs_slaves s) b = bus_word x b)"
    if "bus_run (bus_serve ops held drain cfg) ops held drain cfg (bus_started y) s" for s
    using inv [OF that] frame_bystanders [of "bs_slaves s" y] others_bystanders [OF y(8)]
    unfolding soc_bus.bus_inv_def soc_bus.data_inv_def y(3-7) by simp
  then show thesis using y tr inv by (intro that [of y]) simp_all
qed

text \<open>Every transfer can be brought to an end, whichever packet enabled it.\<close>

lemma transfer_ends:
  assumes "slot_contract ops held drain" "dma_free held (soc_dma x)" "enables ops cfg now p v x" "bus_ready ops held drain x"
    and "transferable (bus_mapped x) (cfg_words (soc_dma x)) (cfg_src (soc_dma x)) (cfg_dst (soc_dma x))"
  shows "\<exists>y. soc_request ops cfg now p x = Inr y \<and> (\<forall>s. bus_run (bus_serve ops held drain cfg) ops held drain cfg (bus_started y) s \<longrightarrow>
      (\<exists>s'. bus_run (bus_serve ops held drain cfg) ops held drain cfg s s' \<and> at_rest held s')
    \<and> (at_rest held s \<longrightarrow> (\<forall>g < cfg_words (soc_dma x). bus_word (bs_slaves s) (cfg_dst (soc_dma x) g) = bus_word x (cfg_src (soc_dma x) g))
         \<and> (\<forall>b. bus_mapped x b \<longrightarrow> (\<forall>g < cfg_words (soc_dma x). apart b (cfg_dst (soc_dma x) g)) \<longrightarrow> bus_word (bs_slaves s) b = bus_word x b)
         \<and> bystanders (bs_slaves s) = bystanders x \<and> wordsTransferred (bs_dma s) = cfg_words (soc_dma x)
         \<and> (dma_done (bs_dma s) \<longleftrightarrow> \<not> one_burst_end (cfg_words (soc_dma x)))))"
proof -
  obtain y where y: "soc_request ops cfg now p x = Inr y"
    "totalWords (soc_dma y) = cfg_words (soc_dma x)" "src_at (soc_dma y) = cfg_src (soc_dma x)" "dst_at (soc_dma y) = cfg_dst (soc_dma x)"
    "bus_word y = bus_word x" "transferable (bus_mapped y) (totalWords (soc_dma y)) (src_at (soc_dma y)) (dst_at (soc_dma y))"
    and inv: "\<And>s. bus_run (bus_serve ops held drain cfg) ops held drain cfg (bus_started y) s \<Longrightarrow> soc_bus.bus_inv ops held drain held y (soc_dma y) s"
    and keeps: "\<And>s. bus_run (bus_serve ops held drain cfg) ops held drain cfg (bus_started y) s \<Longrightarrow> bystanders (bs_slaves s) = bystanders x
       \<and> (\<forall>b. bus_mapped x b \<longrightarrow> (\<forall>g < cfg_words (soc_dma x). apart b (cfg_dst (soc_dma x) g)) \<longrightarrow> bus_word (bs_slaves s) b = bus_word x b)"
    using transfer_states [OF assms] by blast
  have "\<exists>s'. bus_run (bus_serve ops held drain cfg) ops held drain cfg s s' \<and> at_rest held s'"
    if "bus_run (bus_serve ops held drain cfg) ops held drain cfg (bus_started y) s" for s
    using soc_bus.completes [OF assms(1) y(6) inv [OF that]] by blast
  then show ?thesis
    using y(1) soc_bus.inv_rest(1-3) [OF inv, unfolded y(2-5)] keeps by (intro exI [of _ y]) blast
qed

text \<open>
  C6: safety of a transfer of any size over crossbar registers with one place, between the data memory
  and the SRAM, in every order of the steps of its parts. The store that sets the enable bit starts it;
  then no action, of the crossbar, a slave or the controller, ever fails, nothing but destination words
  changes, and when \<open>done\<close> is reported, every destination word holds what its source word held before the
  store or is carried by one of at most one write burst per 256 words that is still under way. (The first
  burst of a phase is not counted, so there can be such bursts.)
\<close>

theorem bus_transfer_safe:
  assumes "slot_contract ops held drain" "dma_free held (soc_dma x)" "bit v 0" "bus_ready ops held drain x"
    and "transferable (bus_mapped x) (cfg_words (soc_dma x)) (cfg_src (soc_dma x)) (cfg_dst (soc_dma x))"
  shows "\<exists>s0. bus_enable ops cfg now tid v x = Inr s0 \<and> (\<forall>s. bus_run (bus_serve ops held drain cfg) ops held drain cfg s0 s \<longrightarrow>
      (\<forall>t a e. bus_act (bus_serve ops held drain cfg) ops held drain cfg t a s \<noteq> Some (Inl e))
    \<and> (\<forall>b. bus_mapped x b \<longrightarrow> (\<forall>g < cfg_words (soc_dma x). apart b (cfg_dst (soc_dma x) g)) \<longrightarrow> bus_word (bs_slaves s) b = bus_word x b)
    \<and> bystanders (bs_slaves s) = bystanders x
    \<and> (dma_done (bs_dma s) \<longrightarrow> length (bs_req s @ out_req held (bs_dma s)) \<le> (cfg_words (soc_dma x) + 255) div 256
         \<and> (\<forall>g < cfg_words (soc_dma x). bus_word (bs_slaves s) (cfg_dst (soc_dma x) g) = bus_word x (cfg_src (soc_dma x) g)
             \<or> (\<exists>w. WriteReq w \<in> set (bs_req s @ out_req held (bs_dma s)) \<and> write_of w (cfg_dst (soc_dma x) g) (bus_word x (cfg_src (soc_dma x) g))))))"
proof -
  obtain y where y: "soc_request ops cfg now (enable_store tid v) x = Inr y"
    "totalWords (soc_dma y) = cfg_words (soc_dma x)" "src_at (soc_dma y) = cfg_src (soc_dma x)" "dst_at (soc_dma y) = cfg_dst (soc_dma x)"
    "bus_word y = bus_word x" "transferable (bus_mapped y) (totalWords (soc_dma y)) (src_at (soc_dma y)) (dst_at (soc_dma y))"
    and inv: "\<And>s. bus_run (bus_serve ops held drain cfg) ops held drain cfg (bus_started y) s \<Longrightarrow> soc_bus.bus_inv ops held drain held y (soc_dma y) s"
    and keeps: "\<And>s. bus_run (bus_serve ops held drain cfg) ops held drain cfg (bus_started y) s \<Longrightarrow> bystanders (bs_slaves s) = bystanders x
       \<and> (\<forall>b. bus_mapped x b \<longrightarrow> (\<forall>g < cfg_words (soc_dma x). apart b (cfg_dst (soc_dma x) g)) \<longrightarrow> bus_word (bs_slaves s) b = bus_word x b)"
    using transfer_states [OF assms(1,2) enable_store_enables [OF assms(3)] assms(4,5)] by blast
  have acts: "bus_act (bus_serve ops held drain cfg) ops held drain cfg t a s \<noteq> Some (Inl e)"
    if "soc_bus.bus_inv ops held drain held y (soc_dma y) s" for s t a e
    using soc_bus.act_inv [OF assms(1) y(6) that, of cfg cfg t a] by auto
  have "bus_enable ops cfg now tid v x = Inr (bus_started y)" by (simp add: bus_enable_def y(1))
  then show ?thesis
    using acts [OF inv] keeps soc_bus.inv_done [OF inv, unfolded y(2-5)] by (intro exI [of _ "bus_started y"]) blast
qed

text \<open>
  C5: the transfer is completed. From every state it can be in, whatever was done so far, actions of its
  parts lead to one where nothing is under way, and in every such state all words of the matrix, also one
  of more than the 256 words of the buffer, are copied, everything else is unchanged, and \<open>done\<close> is set,
  unless the last phase is one burst (the number of words is 1, 2 or 4 more than a multiple of 256): then
  no response is counted and \<open>done\<close> is not reported.
\<close>

theorem bus_transfer_completes:
  assumes "slot_contract ops held drain" "dma_free held (soc_dma x)" "bit v 0" "bus_ready ops held drain x"
    and "transferable (bus_mapped x) (cfg_words (soc_dma x)) (cfg_src (soc_dma x)) (cfg_dst (soc_dma x))"
  shows "\<exists>s0. bus_enable ops cfg now tid v x = Inr s0 \<and> (\<forall>s. bus_run (bus_serve ops held drain cfg) ops held drain cfg s0 s \<longrightarrow>
      (\<exists>s'. bus_run (bus_serve ops held drain cfg) ops held drain cfg s s' \<and> at_rest held s')
    \<and> (at_rest held s \<longrightarrow> (\<forall>g < cfg_words (soc_dma x). bus_word (bs_slaves s) (cfg_dst (soc_dma x) g) = bus_word x (cfg_src (soc_dma x) g))
         \<and> (\<forall>b. bus_mapped x b \<longrightarrow> (\<forall>g < cfg_words (soc_dma x). apart b (cfg_dst (soc_dma x) g)) \<longrightarrow> bus_word (bs_slaves s) b = bus_word x b)
         \<and> bystanders (bs_slaves s) = bystanders x \<and> wordsTransferred (bs_dma s) = cfg_words (soc_dma x)
         \<and> (dma_done (bs_dma s) \<longleftrightarrow> \<not> one_burst_end (cfg_words (soc_dma x)))))"
proof -
  from transfer_ends [OF assms(1,2) enable_store_enables [OF assms(3), of ops cfg now tid x] assms(4,5)]
  show ?thesis by (elim exE conjE, intro exI conjI) (simp add: bus_enable_def, assumption)
qed

section \<open>A transfer of three words\<close>

text \<open>From the data memory to the SRAM.\<close>

definition ex_bus :: "sim_packet list soc" where
  "ex_bus = ex_transfer\<lparr>soc_dma := ex_dma\<lparr>srcAddr := 0, dstAddr := SA_MEMORY_BASE, dmaSizeCfg := 0x00000B00\<rparr>\<rparr>"

lemma ex_bus_mapped: "a \<in> {0, 4, 8, SA_MEMORY_BASE, SA_MEMORY_BASE + 4, SA_MEMORY_BASE + 8} \<Longrightarrow> bus_mapped ex_bus a"
  by (auto simp: bus_mapped_def ex_bus_def ex_transfer_def slaveIndex_def address_map_defs to_sram_def SA_SRAM_SIZE_def mem_in_range_def)

lemma ex_transferable:
  assumes "\<forall>g < 3. src g = of_nat (4 * g) \<and> dst g = SA_MEMORY_BASE + of_nat (4 * g)"
  shows "transferable (bus_mapped ex_bus) 3 src dst"
proof -
  have three: "g < 3 \<longleftrightarrow> g = 0 \<or> g = 1 \<or> g = 2" for g :: nat by auto
  show ?thesis
    using assms ex_bus_mapped unfolding transferable_def three by (auto simp: apart_def slaveIndex_def address_map_defs)
qed

lemma ex_bus_word: "bus_word ex_bus 4 = 0x08070605"
  by (simp add: bus_word_def mem_word_def slaveIndex_def address_map_defs ex_bus_def ex_transfer_def
      dm_read_value_def readData_def getSize_def assertE_def segment_def bytes_simps)

lemma ex_bus_transfer:
  defines "d \<equiv> soc_dma ex_bus"
  shows "dma_free place_held d" "bus_ready place_ops place_held place_drain ex_bus" "cfg_words d = 3"
    "transferable (bus_mapped ex_bus) (cfg_words d) (cfg_src d) (cfg_dst d)"
    "\<forall>g < 3. cfg_src d g = of_nat (4 * g) \<and> cfg_dst d g = SA_MEMORY_BASE + of_nat (4 * g)"
proof -
  show "dma_free place_held d" by (simp add: d_def dma_free_def ex_bus_def ex_dma_def place_held_def tasks_def polls_ok_def)
  show "bus_ready place_ops place_held place_drain ex_bus"
    using place_contract by (simp add: bus_ready_def slaves_idle_def ex_bus_def ex_transfer_def dm_idle_def dm_new_def place_held_def mem_ok_def ex_sa_def sa_core.extend_def sa.fields_def)
  have cfg: "cfg_width d = 12" "cfg_words d = 3"
    by (simp_all add: d_def ex_bus_def ex_dma_def cfg_width_def cfg_words_def cfg_byte_def bytes_simps)
  then show "cfg_words d = 3" by simp
  show addr: "\<forall>g < 3. cfg_src d g = of_nat (4 * g) \<and> cfg_dst d g = SA_MEMORY_BASE + of_nat (4 * g)"
    by (simp add: cfg_src_def cfg_dst_def cfg matrix_addr_def) (simp add: d_def ex_bus_def mult.commute)
  show "transferable (bus_mapped ex_bus) (cfg_words d) (cfg_src d) (cfg_dst d)"
    unfolding cfg(2) by (rule ex_transferable [OF addr])
qed

theorem bus_transfer_safe_witness:
  "\<exists>s0. bus_enable place_ops default_config 7 5 1 ex_bus = Inr s0 \<and>
    (\<forall>s. bus_run (bus_serve place_ops place_held place_drain default_config) place_ops place_held place_drain default_config s0 s \<longrightarrow>
      dma_done (bs_dma s) \<longrightarrow> length (bs_req s @ out_req place_held (bs_dma s)) \<le> 1)"
  using bus_transfer_safe [OF place_contract ex_bus_transfer(1) _ ex_bus_transfer(2,4), of 1 default_config 7 5]
  by (auto simp: ex_bus_transfer(3))

theorem bus_transfer_completes_witness:
  "\<exists>s0 s. bus_enable place_ops default_config 7 5 1 ex_bus = Inr s0
    \<and> bus_run (bus_serve place_ops place_held place_drain default_config) place_ops place_held place_drain default_config s0 s
    \<and> dma_done (bs_dma s) \<and> bus_word (bs_slaves s) (SA_MEMORY_BASE + 4) = 0x08070605"
proof -
  obtain s0 where s0: "bus_enable place_ops default_config 7 5 1 ex_bus = Inr s0"
    "\<And>s. bus_run (bus_serve place_ops place_held place_drain default_config) place_ops place_held place_drain default_config s0 s \<Longrightarrow>
      (\<exists>s'. bus_run (bus_serve place_ops place_held place_drain default_config) place_ops place_held place_drain default_config s s' \<and> at_rest place_held s')
      \<and> (at_rest place_held s \<longrightarrow> (\<forall>g < 3. bus_word (bs_slaves s) (cfg_dst (soc_dma ex_bus) g) = bus_word ex_bus (cfg_src (soc_dma ex_bus) g))
           \<and> (dma_done (bs_dma s) \<longleftrightarrow> \<not> one_burst_end 3))"
    using bus_transfer_completes [OF place_contract ex_bus_transfer(1) _ ex_bus_transfer(2,4), of 1 default_config 7 5]
    unfolding ex_bus_transfer(3) by auto
  then obtain s where s: "bus_run (bus_serve place_ops place_held place_drain default_config) place_ops place_held place_drain default_config s0 s"
    "at_rest place_held s" using bus_start by blast
  have "\<forall>g < 3. bus_word (bs_slaves s) (cfg_dst (soc_dma ex_bus) g) = bus_word ex_bus (cfg_src (soc_dma ex_bus) g)" "dma_done (bs_dma s)"
    using s0(2) [OF s(1)] s(2) by (simp_all add: one_burst_end_def)
  moreover have "cfg_src (soc_dma ex_bus) 1 = 4" "cfg_dst (soc_dma ex_bus) 1 = SA_MEMORY_BASE + 4"
    using spec [OF ex_bus_transfer(5), of 1] by simp_all
  ultimately have "bus_word (bs_slaves s) (SA_MEMORY_BASE + 4) = 0x08070605" using ex_bus_word by (metis one_less_numeral_iff semiring_norm(77))
  with s0(1) s(1) \<open>dma_done (bs_dma s)\<close> show ?thesis by blast
qed

end
