(* ===== verification/ArrayLoad.thy ===== *)
theory ArrayLoad
  imports BusTransfer
begin

text \<open>
  The systolic array loads a matrix: the packets that enabling it queues, delivered to the DMA controller,
  program it and start a transfer of matrix A into the SRAM, and the transfer is completed.
\<close>

text \<open>A store of the array to a configuration register leaves the controller free.\<close>

lemma store_cfg_free:
  assumes "slot_contract ops held drain" "dma_free held (soc_dma x)" "a \<in> dma_cfg_regs"
  obtains d where "soc_request ops cfg now (sa_store tid a v) x = Inr (x\<lparr>soc_dma := d\<rparr>)" "dma_free held d"
    "srcAddr d = (if a = 0xF004 then v else srcAddr (soc_dma x))" "dstAddr d = (if a = 0xF008 then v else dstAddr (soc_dma x))"
    "dmaSizeCfg d = (if a = 0xF00C then v else dmaSizeCfg (soc_dma x))"
proof -
  let ?d = "soc_dma x"
  obtain r q r' q' where fl: "dma_flush ops ?d = ?d\<lparr>m_req := r, req_Q := q, m_resp := r', resp_Q := q'\<rparr>" "waiting held r q = out_req held ?d"
    by (rule slot_flush [OF assms(1), of ?d])
  obtain l t where "soc_request ops cfg now (sa_store tid a v) x =
     bindE (dma_reg_write ops cfg (soc_ctr x) (a AND 0x3F) v (dma_flush ops ?d))
       (\<lambda>(d, c). Inr (x\<lparr>soc_dma := d\<lparr>resp_Q := resp_Q d @ l, dma_events := dma_events d @ [(t, DmaTrySend)]\<rparr>, soc_ctr := c\<rparr>))"
    using soc_request_store [of ops cfg now tid a v x] by blast
  moreover let ?d1 = "(dma_flush ops ?d)\<lparr>srcAddr := if a = 0xF004 then v else srcAddr ?d, dstAddr := if a = 0xF008 then v else dstAddr ?d,
    dmaSizeCfg := if a = 0xF00C then v else dmaSizeCfg ?d\<rparr>"
  have "dma_reg_write ops cfg (soc_ctr x) (a AND 0x3F) v (dma_flush ops ?d) = Inr (?d1, soc_ctr x)"
    using assms(3) unfolding dma_cfg_regs_def by (elim insertE emptyE) (simp_all add: dma_reg_write_def fl(1))
  moreover have "dma_free held (?d1\<lparr>resp_Q := resp_Q ?d1 @ l, dma_events := dma_events ?d1 @ [(t, DmaTrySend)]\<rparr>)"
    unfolding fl(1) using assms(2) fl(2) by (auto simp: dma_free_def tasks_def polls_ok_def)
  ultimately show thesis
    by (intro that [of "?d1\<lparr>resp_Q := resp_Q ?d1 @ l, dma_events := dma_events ?d1 @ [(t, DmaTrySend)]\<rparr>"]) simp_all
qed

lemma sa_store_enables: "bit v 0 \<Longrightarrow> enables ops cfg now (sa_store tid 0xF000 v) v x"
  unfolding enables_def using soc_request_store [of ops cfg now tid "0xF000" v x] by simp

text \<open>The configuration the program of the array leaves.\<close>

lemma dma_program_ends:
  fixes c src dst :: u32
  assumes "slot_contract ops held drain" "dma_free held (soc_dma x)" "bus_ready ops held drain x"
  defines "w \<equiv> cfg_byte c 8 + 1"
  defines "n \<equiv> (w + 3) div 4 * (cfg_byte c 0 + 1)" and "sa \<equiv> matrix_addr w src (cfg_byte c 24)" and "da \<equiv> matrix_addr w dst (cfg_byte c 16)"
  assumes "transferable (bus_mapped x) n sa da"
  shows "\<exists>y. foldE (\<lambda>y p. soc_request ops cfg now p y) x (dma_program tid src dst c) = Inr y \<and>
    (\<forall>s. bus_run (bus_serve ops held drain cfg) ops held drain cfg (bus_started y) s \<longrightarrow>
      (\<exists>s'. bus_run (bus_serve ops held drain cfg) ops held drain cfg s s' \<and> at_rest held s')
    \<and> (at_rest held s \<longrightarrow> (\<forall>g < n. bus_word (bs_slaves s) (da g) = bus_word x (sa g))
         \<and> (\<forall>b. bus_mapped x b \<longrightarrow> (\<forall>g < n. apart b (da g)) \<longrightarrow> bus_word (bs_slaves s) b = bus_word x b)
         \<and> bystanders (bs_slaves s) = bystanders x \<and> (dma_done (bs_dma s) \<longleftrightarrow> \<not> one_burst_end n)))"
proof -
  have regs: "0xF004 \<in> dma_cfg_regs" "0xF008 \<in> dma_cfg_regs" "0xF00C \<in> dma_cfg_regs" by (simp_all add: dma_cfg_regs_def)
  obtain d1 where d1: "soc_request ops cfg now (sa_store tid 0xF004 src) x = Inr (x\<lparr>soc_dma := d1\<rparr>)" "dma_free held d1" "srcAddr d1 = src"
    using store_cfg_free [OF assms(1,2) regs(1), of cfg now tid src] by auto
  let ?x1 = "x\<lparr>soc_dma := d1\<rparr>"
  have "dma_free held (soc_dma ?x1)" using d1(2) by simp
  from store_cfg_free [OF assms(1) this regs(2), of cfg now "tid + 1" dst] obtain d2 where
    d2: "soc_request ops cfg now (sa_store (tid + 1) 0xF008 dst) ?x1 = Inr (x\<lparr>soc_dma := d2\<rparr>)" "dma_free held d2" "srcAddr d2 = src" "dstAddr d2 = dst"
    using d1(3) by auto
  let ?x2 = "x\<lparr>soc_dma := d2\<rparr>"
  have "dma_free held (soc_dma ?x2)" using d2(2) by simp
  from store_cfg_free [OF assms(1) this regs(3), of cfg now "tid + 2" c] obtain d3 where
    d3: "soc_request ops cfg now (sa_store (tid + 2) 0xF00C c) ?x2 = Inr (x\<lparr>soc_dma := d3\<rparr>)" "dma_free held d3" "srcAddr d3 = src" "dstAddr d3 = dst"
      "dmaSizeCfg d3 = c"
    using d2(3,4) by auto
  let ?x3 = "x\<lparr>soc_dma := d3\<rparr>"
  have cfg: "cfg_words (soc_dma ?x3) = n" "cfg_src (soc_dma ?x3) = sa" "cfg_dst (soc_dma ?x3) = da"
    by (simp_all add: cfg_words_def cfg_src_def cfg_dst_def cfg_width_def n_def sa_def da_def w_def d3(3-5))
  have same: "bus_mapped ?x3 = bus_mapped x" "bus_word ?x3 = bus_word x" "bystanders ?x3 = bystanders x" "bus_ready ops held drain ?x3"
    using assms(3) by (simp_all add: fun_eq_iff bus_mapped_def bus_word_def bystanders_def bus_ready_def slaves_idle_def)
  have "dma_free held (soc_dma ?x3)" "bit (1 :: u32) 0" using d3(2) by simp_all
  from transfer_ends [OF assms(1) this(1) sa_store_enables [OF this(2), of ops cfg now "tid + 3" ?x3] same(4), unfolded cfg same(1-3), OF assms(8)]
  show ?thesis by (elim exE conjE, intro exI conjI) (simp add: dma_program_def d1(1) d2(1) d3(1), blast)
qed

text \<open>
  C7: the array loads matrix A. A store to its enable register (aligned addresses, at most 2048 entries, at most
  256 rows and columns, a stride below 256) queues packets which the crossbar delivers to the DMA controller,
  and the transfer they start can be brought to an end in every order of its steps. Then the SRAM holds
  the words of the matrix in data memory, in rows of \<open>K\<close> bytes with the array's stride, and the controller,
  which the array polls, reports \<open>done\<close> unless the last phase is one burst.
\<close>

theorem array_loads_matrix:
  fixes x :: "'r soc"
  defines "s \<equiv> soc_sa x"
  defines "n \<equiv> (unat (sa_K s) + 3) div 4 * unat (sa_M s)" and "src \<equiv> matrix_addr (unat (sa_K s)) (A_addr_dm s) (unat (strideA s))"
    and "dst \<equiv> matrix_addr (unat (sa_K s)) (A_addr s + SA_MEMORY_BASE) (unat (strideA s))"
  assumes "bit data 0" "A_addr s mod 4 = 0" "B_addr s mod 4 = 0" "C_addr s mod 4 = 0"
    and "sint (sa_M s * sa_K s) \<le> 2048" "sint (sa_K s * sa_N s) \<le> 2048"
    and "0 < unat (sa_K s)" "unat (sa_K s) \<le> 256" "0 < unat (sa_M s)" "unat (sa_M s) \<le> 256" "unat (strideA s) < 256"
    and "slot_contract ops held drain" "dma_free held (soc_dma x)" "bus_ready ops held drain x" "transferable (bus_mapped x) n src dst"
  shows "\<exists>s' y. sa_reg_write cfg now ctr 0 data s = Inr (s', ctr + 4)
    \<and> foldE (\<lambda>y p. soc_request ops cfg later p y) (x\<lparr>soc_sa := s'\<lparr>sa_req_Q := []\<rparr>\<rparr>) (sa_req_Q s') = Inr y
    \<and> (\<forall>z. bus_run (bus_serve ops held drain cfg) ops held drain cfg (bus_started y) z \<longrightarrow>
      (\<exists>z'. bus_run (bus_serve ops held drain cfg) ops held drain cfg z z' \<and> at_rest held z')
    \<and> (at_rest held z \<longrightarrow> (\<forall>g < n. bus_word (bs_slaves z) (dst g) = bus_word x (src g))
         \<and> (\<forall>b. bus_mapped x b \<longrightarrow> (\<forall>g < n. apart b (dst g)) \<longrightarrow> bus_word (bs_slaves z) b = bus_word x b)
         \<and> soc_cpu (bs_slaves z) = soc_cpu x \<and> soc_cfu (bs_slaves z) = soc_cfu x \<and> (dma_done (bs_dma z) \<longleftrightarrow> \<not> one_burst_end n)))"
proof -
  let ?c = "dma_size_cfg (strideA s) (sa_K s) (sa_M s)"
  from sa_enable_packets [OF assms(5-10), of cfg now ctr] obtain s' where
    s': "sa_reg_write cfg now ctr 0 data s = Inr (s', ctr + 4)" "sa_req_Q s' = sa_req_Q s @ dma_program ctr (A_addr_dm s) (A_addr s + SA_MEMORY_BASE) ?c"
      "sram s' = sram s" "sa_pending s' = sa_pending s" "sa_resp_Q s' = sa_resp_Q s" "sa_m_resp s' = sa_m_resp s" by blast
  let ?x = "x\<lparr>soc_sa := s'\<lparr>sa_req_Q := []\<rparr>\<rparr>"
  have x: "bus_ready ops held drain ?x" "bus_mapped ?x = bus_mapped x" "bus_word ?x = bus_word x" "sa_req_Q s = []" "dma_free held (soc_dma ?x)"
    using assms(17,18) s'(3-6) by (simp_all add: bus_ready_def slaves_idle_def bus_mapped_def bus_word_def fun_eq_iff s_def)
  have bytes: "cfg_byte ?c 8 + 1 = unat (sa_K s)" "cfg_byte ?c 0 + 1 = unat (sa_M s)" "cfg_byte ?c 24 = unat (strideA s)" "cfg_byte ?c 16 = unat (strideA s)"
    using dma_size_cfg_bytes [OF assms(15,11,12,13,14)] by simp_all
  have "transferable (bus_mapped ?x) ((cfg_byte ?c 8 + 1 + 3) div 4 * (cfg_byte ?c 0 + 1)) (matrix_addr (cfg_byte ?c 8 + 1) (A_addr_dm s) (cfg_byte ?c 24))
      (matrix_addr (cfg_byte ?c 8 + 1) (A_addr s + SA_MEMORY_BASE) (cfg_byte ?c 16))"
    using assms(19) unfolding bytes x(2) n_def src_def dst_def .
  from dma_program_ends [OF assms(16) x(5,1) this, of cfg later ctr, unfolded bytes x(2,3), folded n_def src_def dst_def]
  obtain y where "foldE (\<lambda>y p. soc_request ops cfg later p y) ?x (sa_req_Q s') = Inr y"
    and run: "\<And>z. bus_run (bus_serve ops held drain cfg) ops held drain cfg (bus_started y) z \<Longrightarrow>
      (\<exists>z'. bus_run (bus_serve ops held drain cfg) ops held drain cfg z z' \<and> at_rest held z')
    \<and> (at_rest held z \<longrightarrow> (\<forall>g < n. bus_word (bs_slaves z) (dst g) = bus_word x (src g))
         \<and> (\<forall>b. bus_mapped x b \<longrightarrow> (\<forall>g < n. apart b (dst g)) \<longrightarrow> bus_word (bs_slaves z) b = bus_word x b)
         \<and> bystanders (bs_slaves z) = bystanders ?x \<and> (dma_done (bs_dma z) \<longleftrightarrow> \<not> one_burst_end n))"
    using s'(2) x(4) by auto
  moreover have "soc_cpu (bs_slaves z) = soc_cpu x \<and> soc_cfu (bs_slaves z) = soc_cfu x" if "bystanders (bs_slaves z) = bystanders ?x" for z :: "('r, 'r soc) bus_sys"
    using that by (simp add: bystanders_def)
  ultimately show ?thesis using s'(1) by (intro exI [of _ s'] exI [of _ y]) blast
qed

text \<open>A matrix of three rows of four bytes.\<close>

definition ex_array :: "sim_packet list soc" where
  "ex_array = ex_bus\<lparr>soc_sa := ex_sa\<lparr>strideA := 4, sa_M := 3, sa_K := 4, A_addr_dm := 0\<rparr>\<rparr>"

theorem array_loads_matrix_witness:
  "\<exists>s' y z. sa_reg_write default_config 3 0 0 1 (soc_sa ex_array) = Inr (s', 4)
    \<and> foldE (\<lambda>y p. soc_request place_ops default_config 9 p y) (ex_array\<lparr>soc_sa := s'\<lparr>sa_req_Q := []\<rparr>\<rparr>) (sa_req_Q s') = Inr y
    \<and> bus_run (bus_serve place_ops place_held place_drain default_config) place_ops place_held place_drain default_config (bus_started y) z
    \<and> dma_done (bs_dma z) \<and> bus_word (bs_slaves z) (SA_MEMORY_BASE + 4) = 0x08070605"
proof -
  let ?x = "ex_array"
  have sa: "sa_M (soc_sa ?x) = 3" "sa_K (soc_sa ?x) = 4" "sa_N (soc_sa ?x) = 1" "strideA (soc_sa ?x) = 4" "A_addr (soc_sa ?x) = 0" "B_addr (soc_sa ?x) = 8" "C_addr (soc_sa ?x) = 16"
    "A_addr_dm (soc_sa ?x) = 0" by (simp_all add: ex_array_def)
  have n: "(unat (sa_K (soc_sa ?x)) + 3) div 4 * unat (sa_M (soc_sa ?x)) = 3" by (simp add: sa)
  have x: "dma_free place_held (soc_dma ?x)" "bus_ready place_ops place_held place_drain ?x" "bus_mapped ?x = bus_mapped ex_bus" "bus_word ?x 4 = 0x08070605"
    using ex_bus_transfer(1,2) ex_bus_word by (simp_all add: ex_array_def ex_bus_def ex_transfer_def bus_ready_def slaves_idle_def bus_mapped_def bus_word_def fun_eq_iff slaveIndex_def address_map_defs)
  have addr: "\<forall>g < 3. matrix_addr 4 0 4 g = of_nat (4 * g) \<and> matrix_addr 4 SA_MEMORY_BASE 4 g = SA_MEMORY_BASE + of_nat (4 * g)"
    by (simp add: matrix_addr_def mult.commute)
  have tr: "transferable (bus_mapped ?x) ((unat (sa_K (soc_sa ?x)) + 3) div 4 * unat (sa_M (soc_sa ?x)))
      (matrix_addr (unat (sa_K (soc_sa ?x))) (A_addr_dm (soc_sa ?x)) (unat (strideA (soc_sa ?x))))
      (matrix_addr (unat (sa_K (soc_sa ?x))) (A_addr (soc_sa ?x) + SA_MEMORY_BASE) (unat (strideA (soc_sa ?x))))"
    unfolding n x(3) using ex_transferable [OF addr] by (simp add: sa)
  from array_loads_matrix [of 1 ?x, OF _ _ _ _ _ _ _ _ _ _ _ place_contract x(1,2) tr, of default_config 3 0 9, unfolded n]
  obtain s' y where y: "sa_reg_write default_config 3 0 0 1 (soc_sa ?x) = Inr (s', 4)"
    "foldE (\<lambda>y p. soc_request place_ops default_config 9 p y) (?x\<lparr>soc_sa := s'\<lparr>sa_req_Q := []\<rparr>\<rparr>) (sa_req_Q s') = Inr y"
    "\<And>z. bus_run (bus_serve place_ops place_held place_drain default_config) place_ops place_held place_drain default_config (bus_started y) z \<Longrightarrow>
      (\<exists>z'. bus_run (bus_serve place_ops place_held place_drain default_config) place_ops place_held place_drain default_config z z' \<and> at_rest place_held z')
      \<and> (at_rest place_held z \<longrightarrow> (\<forall>g < 3. bus_word (bs_slaves z) (matrix_addr 4 SA_MEMORY_BASE 4 g) = bus_word ?x (matrix_addr 4 0 4 g))
         \<and> (dma_done (bs_dma z) \<longleftrightarrow> \<not> one_burst_end 3))"
    by (auto simp: sa)
  then obtain z where z: "bus_run (bus_serve place_ops place_held place_drain default_config) place_ops place_held place_drain default_config (bus_started y) z"
    "at_rest place_held z" using bus_start by blast
  have "\<forall>g < 3. bus_word (bs_slaves z) (matrix_addr 4 SA_MEMORY_BASE 4 g) = bus_word ?x (matrix_addr 4 0 4 g)" "dma_done (bs_dma z)"
    using y(3) [OF z(1)] z(2) by (simp_all add: one_burst_end_def)
  moreover have "matrix_addr 4 0 4 1 = 4" "matrix_addr 4 SA_MEMORY_BASE 4 1 = SA_MEMORY_BASE + 4" using spec [OF addr, of 1] by simp_all
  ultimately have "bus_word (bs_slaves z) (SA_MEMORY_BASE + 4) = 0x08070605" using x(4) by (metis one_less_numeral_iff semiring_norm(77))
  with y z \<open>dma_done (bs_dma z)\<close> show ?thesis by blast
qed

end
