(* ===== verification/SocRuns.thy ===== *)
theory SocRuns
  imports BusPhases
begin

text \<open>
  The CPU, its crossbar and the data memory as one transition system: the parts run in any order that
  respects the ticks of their events, with registers of one place and any number of accesses under way. A
  store is committed when the register takes it (\<open>CPU.cc\<close>, \<open>BusmemWrite\<close>), so several stores can be on
  their way while later instructions execute; the invariant says what a state then has in common with the
  reference machine.
\<close>

section \<open>The system with its crossbar\<close>

text \<open>
  \<open>ss_req\<close> are the requests the crossbar has taken from the CPU and \<open>ss_resp\<close> the responses it has taken from
  the data memory; \<open>ss_cfu\<close> is the channel back from the CFU; \<open>ss_free\<close> says that the memory has not popped a
  request in this tick yet.
\<close>

record 'r soc_sys =
  ss_soc :: "'r soc"
  ss_now :: nat
  ss_free :: bool
  ss_req :: "sim_packet list"
  ss_resp :: "sim_packet list"
  ss_cfu :: "cfu_resp_packet list"

abbreviation ss_cpu :: "'r soc_sys \<Rightarrow> 'r cpu" where
  "ss_cpu s \<equiv> soc_cpu (ss_soc s)"

abbreviation ss_dm :: "'r soc_sys \<Rightarrow> 'r data_memory" where
  "ss_dm s \<equiv> soc_dmem (ss_soc s)"

definition with_cpu :: "'r soc_sys \<Rightarrow> 'r cpu \<Rightarrow> 'r soc_sys" where
  "with_cpu s c = s\<lparr>ss_soc := (ss_soc s)\<lparr>soc_cpu := c\<rparr>\<rparr>"

definition with_dm :: "'r soc_sys \<Rightarrow> 'r data_memory \<Rightarrow> 'r soc_sys" where
  "with_dm s d = s\<lparr>ss_soc := (ss_soc s)\<lparr>soc_dmem := d\<rparr>\<rparr>"

datatype soc_action =
    SocWait nat
  | SocInstr
  | SocTake
  | SocDeliver
  | SocMem nat
  | SocAck
  | SocRespond nat
  | SocIdle
  | SocMemRetry
  | SocCpuRetry
  | SocCfuReq
  | SocCfuResp

text \<open>
  One action; \<open>None\<close> when it is not possible. Time passes; the CPU executes its event; the crossbar empties the
  register of the CPU, delivers the oldest request (the memory pops one in a tick), empties the register of
  the memory and delivers any response; an event of the memory runs, none before its tick and none
  before one of an earlier tick; the memory steps without a request, or its port or the CPU's is retried
  (for the CPU, when a load waits; a store that is retried is the subject of \<open>cpu_retried_store_repeats\<close>);
  a request reaches the CFU, its response the CPU.
\<close>

fun soc_act ::
  "'r reg_ops \<Rightarrow> ('r \<Rightarrow> sim_packet option) \<Rightarrow> ('r \<Rightarrow> 'r) \<Rightarrow> sim_config \<Rightarrow> soc_action \<Rightarrow> 'r soc_sys \<Rightarrow> 'r soc_sys result option" where
  "soc_act ops held drain cfg (SocWait n) s = Some (Inr (s\<lparr>ss_now := ss_now s + Suc n, ss_free := True\<rparr>))"
| "soc_act ops held drain cfg SocInstr s =
     (case cpu_events (ss_cpu s) of
        [] \<Rightarrow> None
      | t # es \<Rightarrow>
          if t \<le> ss_now s
          then Some (bindE (execOneInstr ops (ss_now s) (soc_ctr (ss_soc s)) ((ss_cpu s)\<lparr>cpu_events := es\<rparr>)) (\<lambda>(c, ctr).
                 Inr (s\<lparr>ss_soc := (ss_soc s)\<lparr>soc_cpu := c, soc_ctr := ctr\<rparr>\<rparr>)))
          else None)"
| "soc_act ops held drain cfg SocTake s =
     (case held (cpu_reg (ss_cpu s)) of
        None \<Rightarrow> None
      | Some p \<Rightarrow> Some (Inr ((with_cpu s ((ss_cpu s)\<lparr>cpu_reg := drain (cpu_reg (ss_cpu s))\<rparr>))\<lparr>ss_req := ss_req s @ [p]\<rparr>)))"
| "soc_act ops held drain cfg SocDeliver s =
     (case ss_req s of
        [] \<Rightarrow> None
      | p # ps \<Rightarrow>
          if ss_free s
          then Some (bindE (soc_request ops cfg (ss_now s) p (ss_soc s)) (\<lambda>x. Inr (s\<lparr>ss_soc := x, ss_req := ps, ss_free := False\<rparr>)))
          else None)"
| "soc_act ops held drain cfg (SocMem i) s =
     (let evs = dm_events (ss_dm s)
      in if i < length evs \<and> fst (evs ! i) \<le> ss_now s \<and> (\<forall>e \<in> set evs. fst (evs ! i) \<le> fst e)
         then Some (bindE (dm_exec_event ops (snd (evs ! i)) ((ss_dm s)\<lparr>dm_events := remove_nth i evs\<rparr>)) (\<lambda>d. Inr (with_dm s d)))
         else None)"
| "soc_act ops held drain cfg SocAck s =
     (case held (dm_reg (ss_dm s)) of
        None \<Rightarrow> None
      | Some p \<Rightarrow> Some (Inr ((with_dm s ((ss_dm s)\<lparr>dm_reg := drain (dm_reg (ss_dm s))\<rparr>))\<lparr>ss_resp := ss_resp s @ [p]\<rparr>)))"
| "soc_act ops held drain cfg (SocRespond i) s =
     (if i < length (ss_resp s)
      then Some (bindE (soc_response ops cfg (ss_now s) (ss_resp s ! i) (ss_soc s)) (\<lambda>x.
             Inr (s\<lparr>ss_soc := x, ss_resp := remove_nth i (ss_resp s)\<rparr>)))
      else None)"
| "soc_act ops held drain cfg SocIdle s = Some (bindE (dm_step ops cfg (ss_now s) None (ss_dm s)) (\<lambda>d. Inr (with_dm s d)))"
| "soc_act ops held drain cfg SocMemRetry s = Some (Inr (with_dm s (dm_masterPortRetry ops (ss_dm s))))"
| "soc_act ops held drain cfg SocCpuRetry s =
     (case cpu_request_queue (ss_cpu s) of
        ReadReq _ # _ \<Rightarrow> Some (bindE (cpu_masterPortRetry ops cfg (ss_now s) (ss_cpu s)) (\<lambda>c. Inr (with_cpu s c)))
      | _ \<Rightarrow> None)"
| "soc_act ops held drain cfg SocCfuReq s =
     (case cpu_cfu_chan (ss_cpu s) of
        [] \<Rightarrow> None
      | q # qs \<Rightarrow> Some (bindE (CFUReqPacket_visit cfg q ((ss_soc s)\<lparr>soc_cpu := (ss_cpu s)\<lparr>cpu_cfu_chan := qs\<rparr>\<rparr>)) (\<lambda>(r, x).
          Inr (s\<lparr>ss_soc := x, ss_cfu := ss_cfu s @ [r]\<rparr>))))"
| "soc_act ops held drain cfg SocCfuResp s =
     (case ss_cfu s of
        [] \<Rightarrow> None
      | r # rs \<Rightarrow> Some (bindE (CFURespPacket_visit (ss_now s) r (ss_soc s)) (\<lambda>x. Inr (s\<lparr>ss_soc := x, ss_cfu := rs\<rparr>))))"

inductive soc_runs ::
  "'r reg_ops \<Rightarrow> ('r \<Rightarrow> sim_packet option) \<Rightarrow> ('r \<Rightarrow> 'r) \<Rightarrow> sim_config \<Rightarrow> 'r soc_sys \<Rightarrow> 'r soc_sys \<Rightarrow> bool" for ops held drain cfg where
  soc_runs_start: "soc_runs ops held drain cfg s s"
| soc_runs_step: "soc_runs ops held drain cfg s s1 \<Longrightarrow> soc_act ops held drain cfg a s1 = Some (Inr s2) \<Longrightarrow> soc_runs ops held drain cfg s s2"

lemma soc_runs_trans: "soc_runs ops held drain cfg b c \<Longrightarrow> soc_runs ops held drain cfg a b \<Longrightarrow> soc_runs ops held drain cfg a c"
  by (induction rule: soc_runs.induct) (auto intro: soc_runs.intros)

text \<open>The system as it starts: registers and channels empty, the first instruction scheduled.\<close>

definition soc_boot :: "('r \<Rightarrow> sim_packet option) \<Rightarrow> 'r soc_sys \<Rightarrow> bool" where
  "soc_boot held s \<longleftrightarrow> soc_start (ss_soc s) \<and> held (cpu_reg (ss_cpu s)) = None \<and> held (dm_reg (ss_dm s)) = None
     \<and> dm_events (ss_dm s) = [] \<and> ss_req s = [] \<and> ss_resp s = [] \<and> ss_cfu s = []"

section \<open>What is under way\<close>

datatype mem_req = MemLoad read_req_payload | MemStore write_req_payload

fun packet_reqs :: "sim_packet \<Rightarrow> mem_req list" where
  "packet_reqs (ReadReq p) = map MemLoad (payloadList p)"
| "packet_reqs (WriteReq p) = map MemStore (payloadList p)"
| "packet_reqs _ = []"

fun event_reqs :: "dm_event \<Rightarrow> mem_req list" where
  "event_reqs (MemReadEvent q) = [MemLoad q]"
| "event_reqs (MemWriteEvent w) = [MemStore w]"
| "event_reqs TrySendEvent = []"

text \<open>
  Requests between the CPU and the memory, oldest first (a load may wait in the queue of the CPU; a store
  that waits there is \<open>blocked\<close>), and the accesses still to be served. Responses on their way to the CPU,
  and the answers to loads among them.
\<close>

definition in_transit :: "('r \<Rightarrow> sim_packet option) \<Rightarrow> 'r soc_sys \<Rightarrow> sim_packet list" where
  "in_transit held s = ss_req s @ waiting held (cpu_reg (ss_cpu s)) (filter is_read_req (cpu_request_queue (ss_cpu s)))"

definition blocked :: "'r soc_sys \<Rightarrow> sim_packet list" where
  "blocked s = filter (\<lambda>p. \<not> is_read_req p) (cpu_request_queue (ss_cpu s))"

abbreviation beat_reqs :: "(nat \<times> dm_event) list \<Rightarrow> mem_req list" where
  "beat_reqs evs \<equiv> concat (map (event_reqs \<circ> snd) evs)"

definition to_serve :: "('r \<Rightarrow> sim_packet option) \<Rightarrow> 'r soc_sys \<Rightarrow> mem_req list" where
  "to_serve held s = beat_reqs (dm_events (ss_dm s)) @ concat (map packet_reqs (in_transit held s))"

definition is_ack :: "sim_packet \<Rightarrow> bool" where
  "is_ack p \<longleftrightarrow> (\<exists>w tid. p = WriteResp (setTID tid (Construct_MemWriteRespPkt [w] ''dm'' ''cpu'')))"

definition coming_back :: "('r \<Rightarrow> sim_packet option) \<Rightarrow> 'r soc_sys \<Rightarrow> sim_packet list" where
  "coming_back held s = ss_resp s @ waiting held (dm_reg (ss_dm s)) (dm_respQ (ss_dm s))"

definition load_answers :: "('r \<Rightarrow> sim_packet option) \<Rightarrow> 'r soc_sys \<Rightarrow> sim_packet list" where
  "load_answers held s = filter (\<lambda>p. \<not> is_ack p) (coming_back held s)"

definition load_answer :: "read_req_payload \<Rightarrow> u32 \<Rightarrow> sim_packet" where
  "load_answer q v = dm_read_packet q [\<lparr>rr_tid = rq_tid q, rr_instr = rq_instr q, rr_op = rq_op q, rr_data = v, rr_a1 = rq_a1 q\<rparr>]"

section \<open>Well-formed traffic\<close>

definition cpu_request :: "sim_packet \<Rightarrow> bool" where
  "cpu_request p \<longleftrightarrow> (\<exists>q. p = ReadReq (single q 0 0 (rq_tid q)) \<and> rq_caller q = ''cpu'')
     \<or> (\<exists>w. p = WriteReq (single w 0 0 (wq_tid w)) \<and> wq_caller w = ''cpu'')"

fun cpu_event :: "dm_event \<Rightarrow> bool" where
  "cpu_event (MemReadEvent q) \<longleftrightarrow> rq_caller q = ''cpu''"
| "cpu_event (MemWriteEvent w) \<longleftrightarrow> wq_caller w = ''cpu''"
| "cpu_event TrySendEvent \<longleftrightarrow> True"

abbreviation beats :: "(nat \<times> dm_event) list \<Rightarrow> (nat \<times> dm_event) list" where
  "beats evs \<equiv> filter (\<lambda>e. snd e \<noteq> TrySendEvent) evs"

definition fresh_trackers :: "pending_map \<Rightarrow> bool" where
  "fresh_trackers m \<longleftrightarrow> (\<forall>t tk. m t = Some tk \<longrightarrow> tk = \<lparr>expected = 1, rbeats = [], wbeats = []\<rparr>)"

text \<open>
  The beats are scheduled in the order of strictly increasing ticks, since the memory pops one packet in a
  tick and all beats have the same latency.
\<close>

definition traffic_ok :: "('r \<Rightarrow> sim_packet option) \<Rightarrow> sim_config \<Rightarrow> 'r soc_sys \<Rightarrow> bool" where
  "traffic_ok held cfg s \<longleftrightarrow> (\<forall>p \<in> set (in_transit held s). cpu_request p)
     \<and> (\<forall>e \<in> set (dm_events (ss_dm s)). cpu_event (snd e))
     \<and> sorted_wrt (<) (map fst (beats (dm_events (ss_dm s))))
     \<and> (\<forall>e \<in> set (beats (dm_events (ss_dm s))). fst e \<le> ss_now s + memory_read_latency cfg
          \<and> (ss_free s \<longrightarrow> fst e < ss_now s + memory_read_latency cfg))
     \<and> fresh_trackers (dm_pending (ss_dm s))"

section \<open>The state of the instruction in flight\<close>

datatype soc_phase =
    PhReady
  | PhHalted
  | PhLoading
  | PhLoaded u32
  | PhComputing
  | PhComputed
  | PhBlocked

text \<open>The accesses \<open>ts\<close> still to be served are stores that turn the memory \<open>m\<close> into that of the reference.\<close>

definition stores_to :: "isa \<Rightarrow> mem_req list \<Rightarrow> base_memory \<Rightarrow> bool" where
  "stores_to u ts m \<longleftrightarrow> (\<exists>ws. ts = map MemStore ws \<and> dm_apply_writes m ws = Inr (isa_mem u))"

definition isa_addr :: "isa \<Rightarrow> instr \<Rightarrow> u32" where
  "isa_addr u i = isa_rf u ! nat (o_reg (i_a2 i)) + o_imm (i_a3 i)"

definition load_request :: "isa \<Rightarrow> instr \<Rightarrow> read_req_payload \<Rightarrow> bool" where
  "load_request u i q \<longleftrightarrow> rq_instr q = i \<and> rq_op q = i_op i \<and> rq_addr q = isa_addr u i \<and> rq_a1 q = i_a1 i \<and> rq_caller q = ''cpu''"

text \<open>
  The phases, with \<open>u\<close> the state of the reference and \<open>i\<close> the instruction in flight: the events of the CPU, its
  blocked store, the channels to and from the CFU, the accesses to be served, the answers to loads and
  the memory.
\<close>

fun phase_ok ::
  "isa \<Rightarrow> instr \<Rightarrow> soc_phase \<Rightarrow> nat list \<Rightarrow> sim_packet list \<Rightarrow> cfu_req_packet list \<Rightarrow> cfu_resp_packet list \<Rightarrow> mem_req list
     \<Rightarrow> sim_packet list \<Rightarrow> base_memory \<Rightarrow> bool" where
  "phase_ok u i PhReady ev bl ch cf ts la m \<longleftrightarrow> (\<exists>t. ev = [t]) \<and> bl = [] \<and> ch = [] \<and> cf = [] \<and> stores_to u ts m \<and> la = []"
| "phase_ok u i PhHalted ev bl ch cf ts la m \<longleftrightarrow> i_op i = HCF \<and> ev = [] \<and> bl = [] \<and> ch = [] \<and> cf = [] \<and> stores_to u ts m \<and> la = []"
| "phase_ok u i PhLoading ev bl ch cf ts la m \<longleftrightarrow> is_load (i_op i) \<and> ev = [] \<and> bl = [] \<and> ch = [] \<and> cf = []
     \<and> (\<exists>ss q. ts = ss @ [MemLoad q] \<and> stores_to u ss m \<and> load_request u i q) \<and> la = []"
| "phase_ok u i (PhLoaded v) ev bl ch cf ts la m \<longleftrightarrow> is_load (i_op i) \<and> ev = [] \<and> bl = [] \<and> ch = [] \<and> cf = [] \<and> ts = []
     \<and> m = isa_mem u \<and> bm.load_at m (i_op i) (isa_addr u i) = Inr v \<and> (\<exists>q. la = [load_answer q v] \<and> load_request u i q)"
| "phase_ok u i PhComputing ev bl ch cf ts la m \<longleftrightarrow> is_simd (i_op i) \<and> ev = [] \<and> bl = [] \<and> cf = [] \<and> stores_to u ts m \<and> la = []
     \<and> ch = [\<lparr>cq_instr = i, cq_rs1 = isa_rf u ! nat (o_reg (i_a2 i)), cq_rs2 = isa_rf u ! nat (o_reg (i_a3 i))\<rparr>]"
| "phase_ok u i PhComputed ev bl ch cf ts la m \<longleftrightarrow> is_simd (i_op i) \<and> ev = [] \<and> bl = [] \<and> ch = [] \<and> stores_to u ts m \<and> la = []
     \<and> cf = [\<lparr>cr_instr = i, cr_rd = simd_alu (i_op i) (isa_rf u ! nat (o_reg (i_a2 i))) (isa_rf u ! nat (o_reg (i_a3 i)))\<rparr>]"
| "phase_ok u i PhBlocked ev bl ch cf ts la m \<longleftrightarrow> is_store (i_op i) \<and> ev = [] \<and> (\<exists>w. bl = [WriteReq w]) \<and> ch = [] \<and> cf = []
     \<and> stores_to u ts m \<and> la = []"

definition between :: "soc_phase \<Rightarrow> bool" where
  "between ph \<longleftrightarrow> ph = PhReady \<or> ph = PhHalted"

text \<open>
  A state that has committed \<open>k\<close> instructions. The instruction in flight is the one at the program counter;
  for \<open>PhHalted\<close> \<open>i\<close> is the last one executed.
\<close>

definition tracks_at :: "('r \<Rightarrow> sim_packet option) \<Rightarrow> sim_config \<Rightarrow> instr list \<Rightarrow> isa \<Rightarrow> nat \<Rightarrow> isa \<Rightarrow> instr \<Rightarrow> soc_phase \<Rightarrow> 'r soc_sys \<Rightarrow> bool" where
  "tracks_at held cfg im t k u i ph s \<longleftrightarrow> traffic_ok held cfg s \<and> isa_run im k t = Inr u
     \<and> cpu_imem (ss_cpu s) = im \<and> cpu_rf (ss_cpu s) = isa_rf u \<and> cpu_pc (ss_cpu s) = isa_pc u \<and> length (isa_rf u) = 32
     \<and> cpu_inst_cnt (ss_cpu s) = int (if between ph then k else Suc k)
     \<and> (ph = PhHalted \<longrightarrow> 0 < k \<and> last_instr im t (k - 1) i) \<and> (\<not> between ph \<longrightarrow> last_instr im t k i)
     \<and> phase_ok u i ph (cpu_events (ss_cpu s)) (blocked s) (cpu_cfu_chan (ss_cpu s)) (ss_cfu s) (to_serve held s) (load_answers held s)
         (dm_base (ss_dm s))"

definition soc_tracks :: "('r \<Rightarrow> sim_packet option) \<Rightarrow> sim_config \<Rightarrow> instr list \<Rightarrow> isa \<Rightarrow> 'r soc_sys \<Rightarrow> bool" where
  "soc_tracks held cfg im t s \<longleftrightarrow> (\<exists>k u i ph. tracks_at held cfg im t k u i ph s)"

text \<open>Among the instructions the CPU has begun is a store that fails in the reference: the CPU commits it all the same.\<close>

definition isa_failed :: "instr list \<Rightarrow> isa \<Rightarrow> 'r soc_sys \<Rightarrow> bool" where
  "isa_failed im t s \<longleftrightarrow> (\<exists>j u i e. int j < cpu_inst_cnt (ss_cpu s) \<and> isa_run im j t = Inr u \<and> last_instr im t j i
     \<and> is_store (i_op i) \<and> isa_step i u = Inl e)"

section \<open>Actions the CPU does not see\<close>

definition same_view :: "('r \<Rightarrow> sim_packet option) \<Rightarrow> 'r soc_sys \<Rightarrow> 'r soc_sys \<Rightarrow> bool" where
  "same_view held s s' \<longleftrightarrow> to_serve held s' = to_serve held s \<and> load_answers held s' = load_answers held s \<and> dm_base (ss_dm s') = dm_base (ss_dm s)
     \<and> ss_cfu s' = ss_cfu s \<and> blocked s' = blocked s
     \<and> (\<exists>r q. ss_cpu s' = (ss_cpu s)\<lparr>cpu_reg := r, cpu_request_queue := q\<rparr>)"

lemma tracks_at_view:
  assumes "same_view held s s'" "traffic_ok held cfg s'" "tracks_at held cfg im t k u i ph s"
  shows "tracks_at held cfg im t k u i ph s'"
proof -
  obtain r q where "ss_cpu s' = (ss_cpu s)\<lparr>cpu_reg := r, cpu_request_queue := q\<rparr>" using assms(1) unfolding same_view_def by blast
  then show ?thesis using assms by (simp add: tracks_at_def same_view_def)
qed

text \<open>An action is silent when it succeeds, keeps the traffic well formed and is not seen.\<close>

definition silent :: "('r \<Rightarrow> sim_packet option) \<Rightarrow> sim_config \<Rightarrow> 'r soc_sys \<Rightarrow> 'r soc_sys result \<Rightarrow> bool" where
  "silent held cfg s res \<longleftrightarrow> (\<exists>s'. res = Inr s' \<and> same_view held s s' \<and> traffic_ok held cfg s')"

lemma silentI: "res = Inr s' \<Longrightarrow> same_view held s s' \<Longrightarrow> traffic_ok held cfg s' \<Longrightarrow> silent held cfg s res"
  by (simp add: silent_def)

lemmas view_defs = same_view_def to_serve_def in_transit_def blocked_def load_answers_def coming_back_def with_cpu_def with_dm_def

lemma wait_silent: "traffic_ok held cfg s \<Longrightarrow> soc_act ops held drain cfg (SocWait n) s = Some res \<Longrightarrow> silent held cfg s res"
  by (rule silentI [of _ "s\<lparr>ss_now := ss_now s + Suc n, ss_free := True\<rparr>"])
    (auto simp: traffic_ok_def view_defs intro!: exI [of _ "cpu_reg (ss_cpu s)"] exI [of _ "cpu_request_queue (ss_cpu s)"])

lemma take_silent:
  assumes "slot_contract ops held drain" "traffic_ok held cfg s" "soc_act ops held drain cfg SocTake s = Some res"
  shows "silent held cfg s res"
proof -
  obtain p where p: "held (cpu_reg (ss_cpu s)) = Some p" using assms(3) by (cases "held (cpu_reg (ss_cpu s))") auto
  let ?s = "(with_cpu s ((ss_cpu s)\<lparr>cpu_reg := drain (cpu_reg (ss_cpu s))\<rparr>))\<lparr>ss_req := ss_req s @ [p]\<rparr>"
  have res: "res = Inr ?s" using assms(3) p by simp
  have tr: "in_transit held ?s = in_transit held s" using p slot_drain [OF assms(1)] by (simp add: in_transit_def with_cpu_def)
  have "same_view held s ?s" unfolding same_view_def to_serve_def tr
    by (auto simp: load_answers_def coming_back_def blocked_def with_cpu_def intro!: exI [of _ "cpu_request_queue (ss_cpu s)"])
  moreover have "traffic_ok held cfg ?s" using assms(2) unfolding traffic_ok_def tr by (simp add: with_cpu_def)
  ultimately show ?thesis using res by (intro silentI)
qed

lemma slot_trySendResponse:
  assumes "slot_contract ops held drain"
  obtains r q where "trySendResponse ops d = d\<lparr>dm_reg := r, dm_respQ := q\<rparr>" "waiting held r q = waiting held (dm_reg d) (dm_respQ d)"
proof -
  obtain r q where t: "try_send ops (dm_reg d) (dm_respQ d) = (r, q)" by fastforce
  show thesis by (rule that [of q r]) (use t slot_try_send [OF assms t] in \<open>simp_all add: trySendResponse_def\<close>)
qed

text \<open>The memory changes its events by more or fewer attempts to send, and moves responses towards the crossbar.\<close>

lemma memory_silent:
  assumes "traffic_ok held cfg s" "waiting held r q = waiting held (dm_reg (ss_dm s)) (dm_respQ (ss_dm s))"
    and "beats evs = beats (dm_events (ss_dm s))" "beat_reqs evs = beat_reqs (dm_events (ss_dm s))" "set evs \<subseteq> set (dm_events (ss_dm s))"
  shows "silent held cfg s (Inr (with_dm s ((ss_dm s)\<lparr>dm_events := evs, dm_reg := r, dm_respQ := q\<rparr>)))"
proof -
  let ?s = "with_dm s ((ss_dm s)\<lparr>dm_events := evs, dm_reg := r, dm_respQ := q\<rparr>)"
  have "same_view held s ?s"
    using assms(2,4) by (auto simp: view_defs intro!: exI [of _ "cpu_reg (ss_cpu s)"] exI [of _ "cpu_request_queue (ss_cpu s)"])
  moreover have "traffic_ok held cfg ?s"
    using assms(1,3,5) by (auto simp: traffic_ok_def in_transit_def with_dm_def)
  ultimately show ?thesis by (intro silentI [OF refl])
qed

lemma idle_silent:
  assumes "slot_contract ops held drain" "traffic_ok held cfg s"
  shows "soc_act ops held drain cfg SocIdle s = Some res \<Longrightarrow> silent held cfg s res"
    "soc_act ops held drain cfg SocMemRetry s = Some res \<Longrightarrow> silent held cfg s res"
proof -
  obtain r q where send: "trySendResponse ops (ss_dm s) = (ss_dm s)\<lparr>dm_reg := r, dm_respQ := q\<rparr>"
    "waiting held r q = waiting held (dm_reg (ss_dm s)) (dm_respQ (ss_dm s))"
    by (rule slot_trySendResponse [OF assms(1)])
  have a: "silent held cfg s (Inr (with_dm s (trySendResponse ops (ss_dm s))))"
    using memory_silent [OF assms(2) send(2), of "dm_events (ss_dm s)"] send(1) by simp
  have b: "silent held cfg s (Inr (with_dm s (ss_dm s)))"
    using memory_silent [OF assms(2), of "dm_reg (ss_dm s)" "dm_respQ (ss_dm s)" "dm_events (ss_dm s)"] by simp
  show "soc_act ops held drain cfg SocIdle s = Some res \<Longrightarrow> silent held cfg s res"
    using a b by (auto simp: dm_step_def)
  show "soc_act ops held drain cfg SocMemRetry s = Some res \<Longrightarrow> silent held cfg s res"
    using a by (auto simp: dm_masterPortRetry_def)
qed

lemma ack_silent:
  assumes "slot_contract ops held drain" "traffic_ok held cfg s" "soc_act ops held drain cfg SocAck s = Some res"
  shows "silent held cfg s res"
proof -
  obtain p where p: "held (dm_reg (ss_dm s)) = Some p" using assms(3) by (cases "held (dm_reg (ss_dm s))") auto
  let ?s = "(with_dm s ((ss_dm s)\<lparr>dm_reg := drain (dm_reg (ss_dm s))\<rparr>))\<lparr>ss_resp := ss_resp s @ [p]\<rparr>"
  have res: "res = Inr ?s" using assms(3) p by simp
  have "coming_back held ?s = coming_back held s" using p slot_drain [OF assms(1)] by (simp add: coming_back_def with_dm_def)
  then have "same_view held s ?s"
    by (auto simp: same_view_def load_answers_def to_serve_def in_transit_def blocked_def with_dm_def
      intro!: exI [of _ "cpu_reg (ss_cpu s)"] exI [of _ "cpu_request_queue (ss_cpu s)"])
  moreover have "traffic_ok held cfg ?s" using assms(2) by (simp add: traffic_ok_def in_transit_def with_dm_def)
  ultimately show ?thesis using res by (intro silentI)
qed

lemma load_retry_silent:
  assumes "slot_contract ops held drain" "traffic_ok held cfg s" "soc_act ops held drain cfg SocCpuRetry s = Some res"
  shows "silent held cfg s res"
proof -
  let ?c = "ss_cpu s"
  obtain p ps where q: "cpu_request_queue ?c = ReadReq p # ps" using assms(3) by (auto split: list.splits sim_packet.splits)
  show ?thesis
  proof (cases "held (cpu_reg ?c)")
    case (Some x)
    then have "res = Inr (with_cpu s ?c)"
      using slot_full [OF assms(1) Some] assms(3) q by (simp add: cpu_masterPortRetry_def)
    then show ?thesis using assms(2)
      by (intro silentI) (auto simp: view_defs traffic_ok_def intro!: exI [of _ "cpu_reg ?c"] exI [of _ "cpu_request_queue ?c"])
  next
    case None
    obtain r where r: "push ops (cpu_reg ?c) (ReadReq p) = (r, True)" "held r = Some (ReadReq p)" "\<not> isStalled ops (cpu_reg ?c)"
      by (rule slot_push [OF assms(1) None])
    let ?s = "with_cpu s (?c\<lparr>cpu_reg := r, cpu_request_queue := ps\<rparr>)"
    have res: "res = Inr ?s" using assms(3) q r by (simp add: cpu_masterPortRetry_def)
    have tr: "in_transit held ?s = in_transit held s" using q r None by (simp add: in_transit_def with_cpu_def)
    have "same_view held s ?s" unfolding same_view_def to_serve_def tr
      using q by (auto simp: load_answers_def coming_back_def blocked_def with_cpu_def)
    moreover have "traffic_ok held cfg ?s" using assms(2) unfolding traffic_ok_def tr by (simp add: with_cpu_def)
    ultimately show ?thesis using res by (intro silentI)
  qed
qed

lemma fresh_expect: "fresh_trackers m \<Longrightarrow> fresh_trackers (expect_beats m t 1)"
proof -
  assume m: "fresh_trackers m"
  have "(tracker_at m t)\<lparr>expected := 1\<rparr> = \<lparr>expected = 1, rbeats = [], wbeats = []\<rparr>"
  proof (cases "m t")
    case (Some a)
    with m have "a = \<lparr>expected = 1, rbeats = [], wbeats = []\<rparr>" unfolding fresh_trackers_def by blast
    with Some show ?thesis by (simp add: tracker_at_def)
  qed (simp add: tracker_at_def empty_tracker_def)
  with m show ?thesis by (simp add: fresh_trackers_def expect_beats_def)
qed

lemma dm_step_request:
  assumes "slot_contract ops held drain" "cpu_request p"
  obtains r q e tid where "soc_request ops cfg now p x = Inr (x\<lparr>soc_dmem := (soc_dmem x)\<lparr>dm_reg := r, dm_respQ := q,
        dm_pending := expect_beats (dm_pending (soc_dmem x)) tid 1,
        dm_events := dm_events (soc_dmem x) @ [(now + memory_read_latency cfg, e), (now + 2 + memory_read_latency cfg, TrySendEvent)]\<rparr>\<rparr>)"
    "waiting held r q = waiting held (dm_reg (soc_dmem x)) (dm_respQ (soc_dmem x))"
    "e \<noteq> TrySendEvent" "cpu_event e" "event_reqs e = packet_reqs p"
proof -
  let ?d = "soc_dmem x"
  let ?d1 = "if dm_respQ ?d = [] then ?d else trySendResponse ops ?d"
  have "\<exists>r q. ?d1 = ?d\<lparr>dm_reg := r, dm_respQ := q\<rparr> \<and> waiting held r q = waiting held (dm_reg ?d) (dm_respQ ?d)"
  proof (cases "dm_respQ ?d = []")
    case True
    then show ?thesis by (intro exI [of _ "dm_reg ?d"] exI [of _ "dm_respQ ?d"]) simp
  next
    case False
    then show ?thesis by (auto intro: slot_trySendResponse [OF assms(1), of ?d])
  qed
  then obtain r q where d1: "?d1 = ?d\<lparr>dm_reg := r, dm_respQ := q\<rparr>" "waiting held r q = waiting held (dm_reg ?d) (dm_respQ ?d)" by blast
  have step: "dm_step ops cfg now (Some (ReadReq a)) ?d = dm_accept_read cfg now a (?d\<lparr>dm_reg := r, dm_respQ := q\<rparr>)"
    "dm_step ops cfg now (Some (WriteReq w)) ?d = dm_accept_write cfg now w (?d\<lparr>dm_reg := r, dm_respQ := q\<rparr>)" for a w
    by (simp_all only: dm_step_def d1(1) Let_def option.case sim_packet.case)
  have later: "now + length [z] + 1 + l = now + 2 + l" for z :: 'z and l by simp
  note defs = soc_request_def step dm_accept_read_def dm_accept_write_def renew_packet_def burst_size_of_def getTID_def
    dm_schedule_def beat_events_one Let_def
  from assms(2) consider (load) a where "p = ReadReq (single a 0 0 (rq_tid a))" "rq_caller a = ''cpu''"
    | (store) w where "p = WriteReq (single w 0 0 (wq_tid w))" "wq_caller w = ''cpu''" unfolding cpu_request_def by blast
  then show thesis
  proof cases
    case load
    show thesis
      by (rule that [where r = r and q = q and e = "MemReadEvent a" and tid = "rq_tid a"]) (use load d1(2) in \<open>simp_all add: defs\<close>)
  next
    case store
    show thesis
      by (rule that [where r = r and q = q and e = "MemWriteEvent w" and tid = "wq_tid w"]) (use store d1(2) in \<open>simp_all add: defs\<close>)
  qed
qed

lemma deliver_silent:
  assumes "slot_contract ops held drain" "traffic_ok held cfg s" "soc_act ops held drain cfg SocDeliver s = Some res"
  shows "silent held cfg s res"
proof -
  let ?x = "ss_soc s" and ?l = "memory_read_latency cfg" and ?evs = "dm_events (ss_dm s)"
  obtain p ps where q: "ss_req s = p # ps" "ss_free s"
    and res: "res = bindE (soc_request ops cfg (ss_now s) p ?x) (\<lambda>x. Inr (s\<lparr>ss_soc := x, ss_req := ps, ss_free := False\<rparr>))"
    using assms(3) by (auto split: list.splits if_splits)
  have "cpu_request p" using assms(2) q(1) by (simp add: traffic_ok_def in_transit_def)
  from dm_step_request [OF assms(1) this] obtain r rq e tid where
    req: "soc_request ops cfg (ss_now s) p ?x = Inr (?x\<lparr>soc_dmem := (ss_dm s)\<lparr>dm_reg := r, dm_respQ := rq,
        dm_pending := expect_beats (dm_pending (ss_dm s)) tid 1,
        dm_events := ?evs @ [(ss_now s + ?l, e), (ss_now s + 2 + ?l, TrySendEvent)]\<rparr>\<rparr>)"
    and w: "waiting held r rq = waiting held (dm_reg (ss_dm s)) (dm_respQ (ss_dm s))"
    and e: "e \<noteq> TrySendEvent" "cpu_event e" "event_reqs e = packet_reqs p" by metis
  let ?s = "s\<lparr>ss_soc := ?x\<lparr>soc_dmem := (ss_dm s)\<lparr>dm_reg := r, dm_respQ := rq, dm_pending := expect_beats (dm_pending (ss_dm s)) tid 1,
        dm_events := ?evs @ [(ss_now s + ?l, e), (ss_now s + 2 + ?l, TrySendEvent)]\<rparr>\<rparr>, ss_req := ps, ss_free := False\<rparr>"
  have res': "res = Inr ?s" using res req by simp
  have "same_view held s ?s"
    using q(1) w e(3) by (auto simp: view_defs intro!: exI [of _ "cpu_reg (ss_cpu s)"] exI [of _ "cpu_request_queue (ss_cpu s)"])
  moreover have "traffic_ok held cfg ?s"
    using assms(2) q e(1,2) fresh_expect [of "dm_pending (ss_dm s)" tid]
    by (auto simp: traffic_ok_def in_transit_def sorted_wrt_append)
  ultimately show ?thesis using res' by (intro silentI)
qed

lemma remove_send:
  assumes "i < length evs" "snd (evs ! i) = TrySendEvent"
  shows "beats (remove_nth i evs) = beats evs" "beat_reqs (remove_nth i evs) = beat_reqs evs" "set (remove_nth i evs) \<subseteq> set evs"
proof -
  show "beats (remove_nth i evs) = beats evs" using filter_remove_nth(1) [OF assms(1)] assms(2) by simp
  have "evs = take i evs @ evs ! i # drop (Suc i) evs" by (rule id_take_nth_drop [OF assms(1)])
  then have "beat_reqs evs = beat_reqs (take i evs @ evs ! i # drop (Suc i) evs)" by simp
  then show "beat_reqs (remove_nth i evs) = beat_reqs evs" using assms(2) by (simp add: remove_nth_def)
  show "set (remove_nth i evs) \<subseteq> set evs" using filter_remove_nth(4) [OF assms(1)] by blast
qed

lemma send_silent:
  assumes "slot_contract ops held drain" "traffic_ok held cfg s" "soc_act ops held drain cfg (SocMem i) s = Some res"
    and "snd (dm_events (ss_dm s) ! i) = TrySendEvent"
  shows "silent held cfg s res"
proof -
  let ?evs = "dm_events (ss_dm s)" and ?d = "(ss_dm s)\<lparr>dm_events := remove_nth i (dm_events (ss_dm s))\<rparr>"
  have i: "i < length ?evs" and res: "res = Inr (with_dm s (trySendResponse ops ?d))"
    using assms(3,4) by (auto simp: Let_def split: if_splits)
  obtain r q where send: "trySendResponse ops ?d = ?d\<lparr>dm_reg := r, dm_respQ := q\<rparr>"
    "waiting held r q = waiting held (dm_reg ?d) (dm_respQ ?d)"
    by (rule slot_trySendResponse [OF assms(1)])
  then show ?thesis
    using memory_silent [OF assms(2) _ remove_send [OF i assms(4)], of r q] res by simp
qed

lemma ack_respond_silent:
  assumes "traffic_ok held cfg s" "soc_act ops held drain cfg (SocRespond i) s = Some res" "is_ack (ss_resp s ! i)"
  shows "silent held cfg s res"
proof -
  have i: "i < length (ss_resp s)" using assms(2) by (simp split: if_splits)
  let ?s = "s\<lparr>ss_resp := remove_nth i (ss_resp s)\<rparr>"
  have res: "res = Inr ?s" using assms(2,3) i by (auto simp: is_ack_def soc_response_cpu(2))
  have "same_view held s ?s"
    using filter_remove_nth(1) [OF i, of "\<lambda>p. \<not> is_ack p"] assms(3)
    by (auto simp: view_defs intro!: exI [of _ "cpu_reg (ss_cpu s)"] exI [of _ "cpu_request_queue (ss_cpu s)"])
  moreover have "traffic_ok held cfg ?s" using assms(1) by (simp add: traffic_ok_def in_transit_def)
  ultimately show ?thesis using res by (intro silentI)
qed

section \<open>The memory serves a beat\<close>

lemma beat_reqs_beats: "beat_reqs (beats evs) = beat_reqs evs"
  by (induction evs) auto

text \<open>The event that runs next, if it is a beat, is the oldest one.\<close>

lemma first_beat:
  assumes "i < length evs" "snd (evs ! i) \<noteq> TrySendEvent" "\<forall>e \<in> set evs. fst (evs ! i) \<le> fst e" "sorted_wrt (<) (map fst (beats evs))"
  shows "beats evs = evs ! i # beats (remove_nth i evs)" "beat_reqs evs = event_reqs (snd (evs ! i)) @ beat_reqs (remove_nth i evs)"
proof -
  have evs: "evs = take i evs @ evs ! i # drop (Suc i) evs" by (rule id_take_nth_drop [OF assms(1)])
  then have "beats evs = beats (take i evs @ evs ! i # drop (Suc i) evs)" by simp
  then have bs: "beats evs = beats (take i evs) @ evs ! i # beats (drop (Suc i) evs)" using assms(2) by simp
  have "beats (take i evs) = []"
  proof (rule ccontr)
    assume "beats (take i evs) \<noteq> []"
    then obtain e where e: "e \<in> set (beats (take i evs))" by (cases "beats (take i evs)") auto
    then have "fst e < fst (evs ! i)" using assms(4) unfolding bs by (auto simp: sorted_wrt_append simp del: set_filter)
    moreover have "e \<in> set evs" using e by (auto dest: in_set_takeD)
    ultimately show False using assms(3) by fastforce
  qed
  then show bs': "beats evs = evs ! i # beats (remove_nth i evs)" using bs by (simp add: remove_nth_def)
  have "beat_reqs (beats evs) = event_reqs (snd (evs ! i)) @ beat_reqs (beats (remove_nth i evs))" unfolding bs' by simp
  then show "beat_reqs evs = event_reqs (snd (evs ! i)) @ beat_reqs (remove_nth i evs)" unfolding beat_reqs_beats .
qed

lemma fresh_tracker_at:
  assumes "fresh_trackers m"
  shows "rbeats (tracker_at m t) = []" "wbeats (tracker_at m t) = []" "max (expected (tracker_at m t)) 1 = 1"
proof -
  have "tracker_at m t = empty_tracker \<or> tracker_at m t = \<lparr>expected = 1, rbeats = [], wbeats = []\<rparr>"
    using assms by (cases "m t") (auto simp: tracker_at_def fresh_trackers_def)
  then show "rbeats (tracker_at m t) = []" "wbeats (tracker_at m t) = []" "max (expected (tracker_at m t)) 1 = 1"
    by (auto simp: empty_tracker_def)
qed

lemma fresh_erase: "fresh_trackers m \<Longrightarrow> fresh_trackers (m(t := None))"
  by (simp add: fresh_trackers_def)

lemma serve_store:
  assumes "fresh_trackers (dm_pending d)" "dm_write_value (dm_base d) (wq_op w) (wq_addr w) (wq_data w) = Inr m"
  shows "dm_exec_event ops (MemWriteEvent w) d = Inr (d\<lparr>dm_base := m, dm_pending := (dm_pending d)(wq_tid w := None),
    dm_respQ := dm_respQ d @ [dm_write_packet w [\<lparr>wr_tid = wq_tid w, wr_instr = wq_instr w\<rparr>]]\<rparr>)"
  using assms fresh_tracker_at [OF assms(1), of "wq_tid w"]
  by (simp add: memWriteReqHandler_def dm_collect_write_def dm_write_packet_def Let_def)

lemma serve_load:
  assumes "fresh_trackers (dm_pending d)"
  shows "dm_exec_event ops (MemReadEvent q) d = bindE (dm_read_value (dm_base d) (rq_op q) (rq_addr q)) (\<lambda>v.
    Inr (d\<lparr>dm_pending := (dm_pending d)(rq_tid q := None), dm_respQ := dm_respQ d @ [load_answer q v]\<rparr>))"
  using fresh_tracker_at [OF assms, of "rq_tid q"]
  by (simp add: memReadReqHandler_def dm_collect_read_def dm_read_packet_def load_answer_def Let_def)

text \<open>The accesses served next, in the phases.\<close>

lemma stores_to_Cons:
  "stores_to u (MemStore w # ts) m \<longleftrightarrow> (\<exists>m'. dm_write_value m (wq_op w) (wq_addr w) (wq_data w) = Inr m' \<and> stores_to u ts m')"
  by (auto simp: stores_to_def Cons_eq_map_conv result_simps) (metis dm_apply_writes.simps(2) bindE_Inr list.simps(9))

lemma dm_apply_writes_append: "dm_apply_writes m (as @ bs) = bindE (dm_apply_writes m as) (\<lambda>m'. dm_apply_writes m' bs)"
  by (induction as arbitrary: m) (simp_all add: bindE_assoc)

lemma stores_to_snoc:
  assumes "stores_to u ts m" "dm_write_value (isa_mem u) (wq_op w) (wq_addr w) (wq_data w) = Inr (isa_mem u')"
  shows "stores_to u' (ts @ [MemStore w]) m"
proof -
  obtain ws where "ts = map MemStore ws" "dm_apply_writes m ws = Inr (isa_mem u)" using assms(1) by (auto simp: stores_to_def)
  then show ?thesis unfolding stores_to_def using assms(2) by (intro exI [of _ "ws @ [w]"]) (simp add: dm_apply_writes_append)
qed

lemma stores_to_load: "\<not> stores_to u (MemLoad q # ts) m"
  by (auto simp: stores_to_def)

lemma stores_to_Nil: "stores_to u [] m \<longleftrightarrow> m = isa_mem u"
  by (auto simp: stores_to_def)

lemma phase_store:
  assumes "phase_ok u i ph ev bl ch cf (MemStore w # ts) la m"
  shows "\<exists>m'. dm_write_value m (wq_op w) (wq_addr w) (wq_data w) = Inr m' \<and> phase_ok u i ph ev bl ch cf ts la m'"
proof (cases ph)
  case PhLoading
  with assms obtain ss q where s: "MemStore w # ts = ss @ [MemLoad q]" "stores_to u ss m" "load_request u i q" by auto
  then obtain ss' where "ss = MemStore w # ss'" "ts = ss' @ [MemLoad q]" by (cases ss) auto
  with s assms PhLoading show ?thesis by (auto simp: stores_to_Cons)
qed (use assms in \<open>auto simp: stores_to_Cons\<close>)

lemma phase_load:
  assumes "phase_ok u i ph ev bl ch cf (MemLoad q # ts) la m"
  shows "ph = PhLoading" "is_load (i_op i)" "ts = []" "m = isa_mem u" "load_request u i q" "ev = []" "bl = []" "ch = []" "cf = []" "la = []"
proof -
  have "ph = PhLoading \<and> is_load (i_op i) \<and> ts = [] \<and> m = isa_mem u \<and> load_request u i q \<and> ev = [] \<and> bl = [] \<and> ch = [] \<and> cf = [] \<and> la = []"
  proof (cases ph)
    case PhLoading
    with assms obtain ss q' where s: "MemLoad q # ts = ss @ [MemLoad q']" "stores_to u ss m" "load_request u i q'" by auto
    then have "ss = []" by (cases ss) (auto simp: stores_to_load)
    with s assms PhLoading show ?thesis by (auto simp: stores_to_Nil)
  qed (use assms in \<open>auto simp: stores_to_load\<close>)
  then show "ph = PhLoading" "is_load (i_op i)" "ts = []" "m = isa_mem u" "load_request u i q" "ev = []" "bl = []" "ch = []" "cf = []" "la = []" by blast+
qed

lemma isa_run_next:
  assumes "isa_run im k t = Inr u" "last_instr im t k i"
  shows "isa_run im (Suc k) t = isa_step i u"
  using assms by (auto simp: last_instr_def)

text \<open>An action leads on: an error is that of the reference at instruction \<open>n\<close>, and the new state is related to it again.\<close>

abbreviation begun :: "'r soc_sys \<Rightarrow> nat" where
  "begun s \<equiv> nat (cpu_inst_cnt (ss_cpu s))"


definition leads_on :: "('r \<Rightarrow> sim_packet option) \<Rightarrow> sim_config \<Rightarrow> instr list \<Rightarrow> isa \<Rightarrow> nat \<Rightarrow> 'r soc_sys result \<Rightarrow> bool" where
  "leads_on held cfg im t n res \<longleftrightarrow>
     (case res of Inl e \<Rightarrow> isa_run im n t = Inl e | Inr s' \<Rightarrow> soc_tracks held cfg im t s' \<or> isa_failed im t s')"

lemma leads_onI: "tracks_at held cfg im t j u i ph s' \<Longrightarrow> leads_on held cfg im t n (Inr s')"
  by (auto simp: leads_on_def soc_tracks_def)

lemma silent_leads_on:
  assumes "silent held cfg s res" "tracks_at held cfg im t k u i ph s"
  shows "leads_on held cfg im t n res"
  using assms tracks_at_view by (fastforce simp: silent_def intro: leads_onI)

lemma mem_leads_on:
  assumes "slot_contract ops held drain" "tracks_at held cfg im t k u i ph s" "soc_act ops held drain cfg (SocMem n) s = Some res"
  shows "leads_on held cfg im t (begun s) res"
proof -
  let ?evs = "dm_events (ss_dm s)" and ?d = "(ss_dm s)\<lparr>dm_events := remove_nth n (dm_events (ss_dm s))\<rparr>"
  have ok: "traffic_ok held cfg s" and run: "isa_run im k t = Inr u"
    and ph: "phase_ok u i ph (cpu_events (ss_cpu s)) (blocked s) (cpu_cfu_chan (ss_cpu s)) (ss_cfu s) (to_serve held s) (load_answers held s) (dm_base (ss_dm s))"
    using assms(2) by (simp_all add: tracks_at_def)
  have n: "n < length ?evs" "\<forall>e \<in> set ?evs. fst (?evs ! n) \<le> fst e"
    and res: "res = bindE (dm_exec_event ops (snd (?evs ! n)) ?d) (\<lambda>d. Inr (with_dm s d))"
    using assms(3) by (auto simp: Let_def split: if_splits)
  have fresh: "fresh_trackers (dm_pending ?d)" using ok by (simp add: traffic_ok_def)
  show ?thesis
  proof (cases "snd (?evs ! n) = TrySendEvent")
    case True
    then show ?thesis using silent_leads_on send_silent [OF assms(1) ok assms(3)] assms(2) by blast
  next
    case False
    have sorted: "sorted_wrt (<) (map fst (beats ?evs))" using ok by (simp add: traffic_ok_def)
    note first = first_beat [OF n(1) False n(2) sorted]
    let ?rest = "beat_reqs (remove_nth n ?evs) @ concat (map packet_reqs (in_transit held s))"
    have serve: "to_serve held s = event_reqs (snd (?evs ! n)) @ ?rest" using first(2) by (simp add: to_serve_def)
    have cpu: "cpu_event (snd (?evs ! n))" using ok n(1) by (simp add: traffic_ok_def)
    have sub: "set (remove_nth n ?evs) \<subseteq> set ?evs" using filter_remove_nth(4) [OF n(1)] by blast
    have sorted': "sorted_wrt (<) (map fst (beats (remove_nth n ?evs)))" using sorted unfolding first(1) by simp
    have rest: "\<forall>e \<in> set (beats (remove_nth n ?evs)). fst e \<le> ss_now s + memory_read_latency cfg
        \<and> (ss_free s \<longrightarrow> fst e < ss_now s + memory_read_latency cfg)"
      using ok unfolding traffic_ok_def first(1) by simp
    have ok': "traffic_ok held cfg (with_dm s (?d\<lparr>dm_base := m, dm_pending := (dm_pending (ss_dm s))(tid := None), dm_respQ := q\<rparr>))" for m tid q
      using ok sub sorted' rest by (auto simp: traffic_ok_def in_transit_def with_dm_def fresh_erase simp del: set_filter)
    show ?thesis
    proof (cases "snd (?evs ! n)")
      case (MemWriteEvent w)
      from phase_store ph serve MemWriteEvent obtain m where m: "dm_write_value (dm_base ?d) (wq_op w) (wq_addr w) (wq_data w) = Inr m"
        "phase_ok u i ph (cpu_events (ss_cpu s)) (blocked s) (cpu_cfu_chan (ss_cpu s)) (ss_cfu s) ?rest (load_answers held s) m" by fastforce
      let ?q = "dm_respQ (ss_dm s) @ [dm_write_packet w [\<lparr>wr_tid = wq_tid w, wr_instr = wq_instr w\<rparr>]]"
      let ?s = "with_dm s (?d\<lparr>dm_base := m, dm_pending := (dm_pending (ss_dm s))(wq_tid w := None), dm_respQ := ?q\<rparr>)"
      have "res = Inr ?s" using res MemWriteEvent serve_store [OF fresh m(1)] by simp
      moreover have "is_ack (dm_write_packet w [\<lparr>wr_tid = wq_tid w, wr_instr = wq_instr w\<rparr>])"
        using cpu MemWriteEvent by (auto simp: is_ack_def dm_write_packet_def)
      then have "load_answers held ?s = load_answers held s" by (simp add: load_answers_def coming_back_def with_dm_def)
      then have "tracks_at held cfg im t k u i ph ?s"
        using assms(2) m(2) ok' [where m = m and tid = "wq_tid w" and q = ?q] by (simp add: tracks_at_def to_serve_def in_transit_def blocked_def with_dm_def)
      ultimately show ?thesis using leads_onI by blast
    next
      case (MemReadEvent q)
      note load = phase_load [OF ph [unfolded serve MemReadEvent event_reqs.simps append_Cons append_Nil]]
      have last: "last_instr im t k i" and cnt: "begun s = Suc k" using assms(2) load(1) by (simp_all add: tracks_at_def between_def)
      have nxt: "isa_run im (Suc k) t = isa_step i u" by (rule isa_run_next [OF run last])
      have val: "dm_read_value (dm_base ?d) (rq_op q) (rq_addr q) = bm.load_at (isa_mem u) (i_op i) (isa_addr u i)"
        using load(4,5) by (simp add: dm_read_value_eq load_request_def)
      show ?thesis
      proof (cases "bm.load_at (isa_mem u) (i_op i) (isa_addr u i)")
        case (Inl e)
        then show ?thesis
          using res MemReadEvent serve_load [OF fresh, of ops q] val nxt isa_step_load [OF load(2), of u]
          unfolding cnt by (simp add: leads_on_def isa_addr_def del: isa_run.simps)
      next
        case (Inr v)
        let ?q = "dm_respQ (ss_dm s) @ [load_answer q v]"
        let ?s = "with_dm s (?d\<lparr>dm_base := dm_base (ss_dm s), dm_pending := (dm_pending (ss_dm s))(rq_tid q := None), dm_respQ := ?q\<rparr>)"
        have "res = Inr ?s" using res MemReadEvent serve_load [OF fresh, of ops q] val Inr by simp
        moreover have "\<not> is_ack (load_answer q v)" by (simp add: is_ack_def load_answer_def dm_read_packet_def)
        then have "load_answers held ?s = [load_answer q v]" using load(10) by (simp add: load_answers_def coming_back_def with_dm_def)
        then have "tracks_at held cfg im t k u i (PhLoaded v) ?s"
          using assms(2) load Inr last ok' [where m = "dm_base (ss_dm s)" and tid = "rq_tid q" and q = ?q]
          by (auto simp: tracks_at_def between_def to_serve_def in_transit_def blocked_def with_dm_def)
        ultimately show ?thesis using leads_onI by blast
      qed
    qed (use False in simp)
  qed
qed

section \<open>Responses\<close>

lemma regular_at:
  assumes "soc_regular_program im t" "isa_run im k t = Inr u" "last_instr im t k i"
  shows "soc_regular u i"
proof -
  have "array_get ''imem'' im (int (unat (isa_pc u) div 4)) = Inr i" using assms(2,3) by (auto simp: last_instr_def)
  then show ?thesis using assms(1,2) unfolding soc_regular_program_def by blast
qed

lemma tracks_at_D:
  assumes "tracks_at held cfg im t k u i ph s"
  shows "traffic_ok held cfg s" "isa_run im k t = Inr u" "cpu_imem (ss_cpu s) = im" "cpu_rf (ss_cpu s) = isa_rf u" "cpu_pc (ss_cpu s) = isa_pc u"
    "length (isa_rf u) = 32" "cpu_inst_cnt (ss_cpu s) = int (if between ph then k else Suc k)" "\<not> between ph \<Longrightarrow> last_instr im t k i"
    "phase_ok u i ph (cpu_events (ss_cpu s)) (blocked s) (cpu_cfu_chan (ss_cpu s)) (ss_cfu s) (to_serve held s) (load_answers held s) (dm_base (ss_dm s))"
  using assms by (simp_all add: tracks_at_def)

text \<open>The CPU commits the instruction in flight: the reference takes a step with it.\<close>

lemma committed:
  assumes "isa_run im k t = Inr u" "last_instr im t k i" "isa_step i u = Inr u'" "length (isa_rf u') = 32"
    and "cpu_imem (ss_cpu s') = im" "cpu_rf (ss_cpu s') = isa_rf u'" "cpu_pc (ss_cpu s') = isa_pc u'" "cpu_inst_cnt (ss_cpu s') = int (Suc k)"
    and "cpu_events (ss_cpu s') = (if i_op i = HCF then [] else [now])" "blocked s' = []" "cpu_cfu_chan (ss_cpu s') = []" "ss_cfu s' = []"
    and "stores_to u' (to_serve held s') (dm_base (ss_dm s'))" "load_answers held s' = []" "traffic_ok held cfg s'"
  shows "tracks_at held cfg im t (Suc k) u' i (if i_op i = HCF then PhHalted else PhReady) s'"
proof -
  have "isa_run im (Suc k) t = Inr u'" using isa_run_next [OF assms(1,2)] assms(3) by simp
  then show ?thesis
    using assms(2,4-) unfolding tracks_at_def between_def by (cases "i_op i = HCF") (simp_all del: isa_run.simps)
qed

lemma answer_leads_on:
  assumes "soc_regular_program im t" "tracks_at held cfg im t k u i ph s" "soc_act ops held drain cfg (SocRespond m) s = Some res"
  shows "leads_on held cfg im t n res"
proof (cases "is_ack (ss_resp s ! m)")
  case True
  then show ?thesis using silent_leads_on ack_respond_silent [OF tracks_at_D(1) [OF assms(2)] assms(3)] assms(2) by blast
next
  case False
  note tr = tracks_at_D [OF assms(2)]
  let ?w = "waiting held (dm_reg (ss_dm s)) (dm_respQ (ss_dm s))" and ?P = "\<lambda>p. \<not> is_ack p"
  have n: "m < length (ss_resp s)" using assms(3) by (simp split: if_splits)
  have la: "load_answers held s = filter ?P (ss_resp s) @ filter ?P ?w" by (simp add: load_answers_def coming_back_def)
  have mem: "ss_resp s ! m \<in> set (filter ?P (ss_resp s))" using n False by simp
  then have "load_answers held s \<noteq> []" unfolding la by fastforce
  then obtain v where ph: "ph = PhLoaded v" using tr(9) by (cases ph) auto
  with tr(9) obtain q where load: "is_load (i_op i)" "cpu_events (ss_cpu s) = []" "blocked s = []" "cpu_cfu_chan (ss_cpu s) = []" "ss_cfu s = []"
    "to_serve held s = []" "dm_base (ss_dm s) = isa_mem u" "bm.load_at (isa_mem u) (i_op i) (isa_addr u i) = Inr v"
    "load_answers held s = [load_answer q v]" "load_request u i q" by auto
  have last: "last_instr im t k i" using tr(8) ph by (simp add: between_def)
  have "filter ?P (ss_resp s) = [load_answer q v] \<and> filter ?P ?w = []"
    using load(9) mem unfolding la by (cases "filter ?P (ss_resp s)") auto
  then have rest: "ss_resp s ! m = load_answer q v" "filter ?P (remove_nth m (ss_resp s)) = []" "filter ?P ?w = []"
    using filter_remove_nth(2) [OF n, of ?P] False by auto
  have "isa_regular u i" "writes_rd (i_op i)"
    using regular_at [OF assms(1) tr(2) last] load(1) by (simp_all add: soc_regular_def writes_rd_def)
  moreover have "i_op i \<noteq> HCF" using load(1) by (auto simp: is_load_def)
  ultimately have reg: "reg_ok (i_a1 i)" "o_reg (i_a1 i) \<noteq> 0" "i_op i \<noteq> HCF" by (simp_all add: isa_regular_def)
  let ?u = "u\<lparr>isa_rf := isa_write (i_a1 i) v (isa_rf u), isa_pc := isa_pc u + 4\<rparr>"
  let ?c = "(ss_cpu s)\<lparr>cpu_rf := isa_rf ?u, cpu_events := [ss_now s + 1], cpu_pc := isa_pc ?u\<rparr>"
  let ?s = "s\<lparr>ss_soc := (ss_soc s)\<lparr>soc_cpu := ?c\<rparr>, ss_resp := remove_nth m (ss_resp s)\<rparr>"
  have pkt: "load_answer q v = ReadResp (setTID (rq_tid q) (Construct_MemReadRespPkt [\<lparr>rr_tid = rq_tid q, rr_instr = rq_instr q,
      rr_op = rq_op q, rr_data = v, rr_a1 = rq_a1 q\<rparr>] ''dm'' ''cpu''))"
    using load(10) by (simp add: load_answer_def dm_read_packet_def load_request_def)
  have "rf_set (cpu_rf (ss_cpu s)) (rq_a1 q) v = Inr (isa_rf ?u)"
    using rf_list_access(2) [of "isa_rf u" "i_a1 i" v] tr(4,6) reg load(10) by (simp add: isa_write_def load_request_def)
  then have res: "res = Inr ?s"
    using assms(3) n load(2,10) tr(5) reg(3) unfolding rest(1) soc_act.simps pkt soc_response_cpu
    by (simp add: memReadRespHandler_def commitInstr_def load_request_def)
  have step: "isa_step i u = Inr ?u" using isa_step_load [OF load(1), of u] load(8) by (simp add: isa_addr_def)
  have "tracks_at held cfg im t (Suc k) ?u i (if i_op i = HCF then PhHalted else PhReady) ?s"
  proof (rule committed [OF tr(2) last step])
    show "load_answers held ?s = []" using rest(2,3) by (simp add: load_answers_def coming_back_def)
    show "traffic_ok held cfg ?s" using tr(1) by (simp add: traffic_ok_def in_transit_def)
    have "to_serve held ?s = to_serve held s" by (simp add: to_serve_def in_transit_def)
    then show "stores_to ?u (to_serve held ?s) (dm_base (ss_dm ?s))" using load(6,7) by (simp add: stores_to_Nil)
    show "blocked ?s = []" using load(3) by (simp add: blocked_def)
    show "cpu_inst_cnt (ss_cpu ?s) = int (Suc k)" using tr(7) ph by (simp add: between_def)
  qed (use tr load reg in \<open>simp_all add: isa_write_def\<close>)
  then show ?thesis unfolding res by (rule leads_onI)
qed

lemma cfu_leads_on:
  assumes "soc_regular_program im t" "tracks_at held cfg im t k u i ph s"
  shows "soc_act ops held drain cfg SocCfuReq s = Some res \<Longrightarrow> leads_on held cfg im t n res"
    and "soc_act ops held drain cfg SocCfuResp s = Some res \<Longrightarrow> leads_on held cfg im t n res"
proof -
  note tr = tracks_at_D [OF assms(2)]
  let ?a = "isa_rf u ! nat (o_reg (i_a2 i))" and ?b = "isa_rf u ! nat (o_reg (i_a3 i))"
  {
    assume act: "soc_act ops held drain cfg SocCfuReq s = Some res"
    then have "cpu_cfu_chan (ss_cpu s) \<noteq> []" by (auto split: list.splits)
    then have ph: "ph = PhComputing" using tr(9) by (cases ph) auto
    with tr(9) have c: "is_simd (i_op i)" "cpu_cfu_chan (ss_cpu s) = [\<lparr>cq_instr = i, cq_rs1 = ?a, cq_rs2 = ?b\<rparr>]" "ss_cfu s = []" by simp_all
    obtain y where y: "get_result cfg i ?a ?b (soc_cfu (ss_soc s)) = Inr (simd_alu (i_op i) ?a ?b, y)"
      using get_result_simd_alu [of i cfg ?a ?b "soc_cfu (ss_soc s)"] c(1) by (auto simp: is_simd_def)
    let ?s = "s\<lparr>ss_soc := (ss_soc s)\<lparr>soc_cpu := (ss_cpu s)\<lparr>cpu_cfu_chan := []\<rparr>, soc_cfu := y\<rparr>,
      ss_cfu := [\<lparr>cr_instr = i, cr_rd = simd_alu (i_op i) ?a ?b\<rparr>]\<rparr>"
    have res: "res = Inr ?s" using act c(2,3) y by (simp add: packet_handler_def CFUReqPacket_visit_def)
    have "tracks_at held cfg im t k u i PhComputed ?s"
      using assms(2) ph unfolding tracks_at_def by (simp add: between_def traffic_ok_def to_serve_def in_transit_def blocked_def load_answers_def coming_back_def)
    then show "leads_on held cfg im t n res" unfolding res by (rule leads_onI)
  next
    assume act: "soc_act ops held drain cfg SocCfuResp s = Some res"
    then have "ss_cfu s \<noteq> []" by (auto split: list.splits)
    then have ph: "ph = PhComputed" using tr(9) by (cases ph) auto
    with tr(9) have c: "is_simd (i_op i)" "cpu_events (ss_cpu s) = []" "blocked s = []" "cpu_cfu_chan (ss_cpu s) = []"
      "ss_cfu s = [\<lparr>cr_instr = i, cr_rd = simd_alu (i_op i) ?a ?b\<rparr>]" "stores_to u (to_serve held s) (dm_base (ss_dm s))" "load_answers held s = []" by simp_all
    have last: "last_instr im t k i" using tr(8) ph by (simp add: between_def)
    have "i_op i \<noteq> HCF" using c(1) by (auto simp: is_simd_def)
    then have reg: "reg_ok (i_a1 i)" "o_reg (i_a1 i) \<noteq> 0" "i_op i \<noteq> HCF"
      using regular_at [OF assms(1) tr(2) last] c(1) by (simp_all add: soc_regular_def simd_regular_def)
    let ?u = "u\<lparr>isa_rf := isa_write (i_a1 i) (simd_alu (i_op i) ?a ?b) (isa_rf u), isa_pc := isa_pc u + 4\<rparr>"
    let ?s = "(with_cpu s ((ss_cpu s)\<lparr>cpu_rf := isa_rf ?u, cpu_events := [ss_now s + 1], cpu_pc := isa_pc ?u\<rparr>))\<lparr>ss_cfu := []\<rparr>"
    have "rf_set (cpu_rf (ss_cpu s)) (i_a1 i) (simd_alu (i_op i) ?a ?b) = Inr (isa_rf ?u)"
      using rf_list_access(2) [of "isa_rf u" "i_a1 i"] tr(4,6) reg by (simp add: isa_write_def)
    then have res: "res = Inr ?s"
      using act c(2,5) tr(5) reg(3) by (simp add: CFURespHandler_def CFURespPacket_visit_def commitInstr_def with_cpu_def)
    have "tracks_at held cfg im t (Suc k) ?u i (if i_op i = HCF then PhHalted else PhReady) ?s"
    proof (rule committed [OF tr(2) last isa_step_simd [OF c(1)]])
      show "load_answers held ?s = []" using c(7) by (simp add: load_answers_def coming_back_def with_cpu_def)
      show "traffic_ok held cfg ?s" using tr(1) by (simp add: traffic_ok_def in_transit_def with_cpu_def)
      show "stores_to ?u (to_serve held ?s) (dm_base (ss_dm ?s))"
        using c(6) by (simp add: to_serve_def in_transit_def stores_to_def with_cpu_def)
      show "blocked ?s = []" using c(3) by (simp add: blocked_def with_cpu_def)
      show "cpu_inst_cnt (ss_cpu ?s) = int (Suc k)" using tr(7) ph by (simp add: between_def with_cpu_def)
    qed (use tr c reg in \<open>simp_all add: isa_write_def with_cpu_def\<close>)
    then show "leads_on held cfg im t n res" unfolding res by (rule leads_onI)
  }
qed

section \<open>The CPU executes\<close>

lemma cpu_send_slot:
  assumes "slot_contract ops held drain" "cpu_request_queue c = []"
  obtains r q where "cpu_send ops p c = (c\<lparr>cpu_reg := r, cpu_request_queue := q\<rparr>, held (cpu_reg c) = None)"
    "waiting held r q = waiting held (cpu_reg c) [] @ [p]" "q = (if held (cpu_reg c) = None then [] else [p])"
    "r = cpu_reg c \<or> held (cpu_reg c) = None"
proof -
  obtain r q b where sq: "send_or_queue ops (cpu_reg c) [] p = (r, q, b)" by (metis prod_cases3)
  have st: "settled held (cpu_reg c) []" by (simp add: settled_def)
  note w = slot_send_or_queue [OF assms(1) st sq]
  have "r = cpu_reg c \<and> q = [p]" if "held (cpu_reg c) \<noteq> None"
    using that sq slot_full [OF assms(1)] by (auto simp: send_or_queue_def)
  moreover have "q = []" if "held (cpu_reg c) = None"
    using that sq w(2) by (auto simp: send_or_queue_def split: if_splits prod.splits)
  ultimately show thesis using assms(2) sq w by (intro that [of q r]) (auto simp: cpu_send_def)
qed

lemma ready_queue:
  assumes "traffic_ok held cfg s" "blocked s = []" "stores_to u (to_serve held s) m"
  shows "cpu_request_queue (ss_cpu s) = []"
proof (rule ccontr)
  assume "cpu_request_queue (ss_cpu s) \<noteq> []"
  then obtain p where p: "p \<in> set (cpu_request_queue (ss_cpu s))" by (cases "cpu_request_queue (ss_cpu s)") auto
  then have read: "is_read_req p" using assms(2) by (auto simp: blocked_def filter_empty_conv)
  then have tr: "p \<in> set (in_transit held s)" using p by (simp add: in_transit_def)
  then have "cpu_request p" using assms(1) by (simp add: traffic_ok_def)
  then obtain q where q: "p = ReadReq (single q 0 0 (rq_tid q))" using read by (auto simp: cpu_request_def)
  have "MemLoad q \<in> set (packet_reqs p)" by (simp add: q renew_packet_def)
  then have "MemLoad q \<in> set (to_serve held s)" using tr by (auto simp: to_serve_def)
  then show False using assms(3) by (auto simp: stores_to_def)
qed

text \<open>What holds when the CPU is about to execute its event, and the four kinds of instruction.\<close>

lemma ready_D:
  assumes "tracks_at held cfg im t k u i0 PhReady s"
  shows "blocked s = []" "cpu_cfu_chan (ss_cpu s) = []" "ss_cfu s = []" "stores_to u (to_serve held s) (dm_base (ss_dm s))"
    "load_answers held s = []" "cpu_request_queue (ss_cpu s) = []" "cpu_inst_cnt (ss_cpu s) = int k"
proof -
  note tr = tracks_at_D [OF assms]
  from tr(7,9) show b: "blocked s = []" "cpu_cfu_chan (ss_cpu s) = []" "ss_cfu s = []"
    "load_answers held s = []" "cpu_inst_cnt (ss_cpu s) = int k" by (simp_all add: between_def)
  from tr(9) show st: "stores_to u (to_serve held s) (dm_base (ss_dm s))" by simp
  show "cpu_request_queue (ss_cpu s) = []" by (rule ready_queue [OF tr(1) b(1) st])
qed

definition instr_result :: "'r reg_ops \<Rightarrow> instr \<Rightarrow> 'r soc_sys \<Rightarrow> 'r soc_sys result" where
  "instr_result ops i s = bindE (processInstr ops (ss_now s) (soc_ctr (ss_soc s)) i ((ss_cpu s)\<lparr>cpu_events := []\<rparr>)) (\<lambda>(c, ctr).
     Inr (s\<lparr>ss_soc := (ss_soc s)\<lparr>soc_cpu := c, soc_ctr := ctr\<rparr>\<rparr>))"

lemma load_begins:
  assumes "slot_contract ops held drain" "tracks_at held cfg im t k u i0 PhReady s" "last_instr im t k i" "soc_regular u i" "is_load (i_op i)"
  shows "leads_on held cfg im t (Suc k) (instr_result ops i s)"
proof -
  note tr = tracks_at_D [OF assms(2)] and rd = ready_D [OF assms(2)]
  let ?ctr = "soc_ctr (ss_soc s)" and ?c = "(ss_cpu s)\<lparr>cpu_events := [], cpu_inst_cnt := int k + 1\<rparr>"
  let ?q = "\<lparr>rq_caller = ''cpu'', rq_tid = ?ctr, rq_instr = i, rq_op = i_op i, rq_addr = isa_addr u i, rq_a1 = i_a1 i\<rparr>"
  let ?p = "ReadReq (single ?q 0 0 ?ctr)"
  have regs: "reg_ok (i_a2 i)" "slaveIndex (isa_addr u i) = 0"
    using assms(4,5) by (auto simp: soc_regular_def isa_regular_def writes_rd_def reads_rs1_def isa_addr_def)
  obtain r q where send: "cpu_send ops ?p ?c = (?c\<lparr>cpu_reg := r, cpu_request_queue := q\<rparr>, held (cpu_reg ?c) = None)"
    "waiting held r q = waiting held (cpu_reg ?c) [] @ [?p]" "q = (if held (cpu_reg ?c) = None then [] else [?p])"
    by (rule cpu_send_slot [OF assms(1), of ?c ?p]) (use rd(6) in simp)
  let ?s = "s\<lparr>ss_soc := (ss_soc s)\<lparr>soc_cpu := ?c\<lparr>cpu_reg := r, cpu_request_queue := q\<rparr>, soc_ctr := ?ctr + 1\<rparr>\<rparr>"
  have "rf_get (cpu_rf (ss_cpu s)) (i_a2 i) = Inr (isa_rf u ! nat (o_reg (i_a2 i)))" using tr(4,6) regs(1) by (simp add: rf_list_access)
  then have res: "instr_result ops i s = Inr ?s"
    using assms(5) regs(2) send(1) rd(7)
    by (simp add: instr_result_def processInstr_def BusMemRead_def Construct_MemReadpkt_non_burst_def generateTransactionID_def isa_addr_def Let_def)
  have "filter is_read_req q = q" "filter (\<lambda>p. \<not> is_read_req p) q = []" using send(3) by simp_all
  then have it: "in_transit held ?s = in_transit held s @ [?p]" and bl: "blocked ?s = []"
    using send(2) rd(6) by (simp_all add: in_transit_def blocked_def)
  have "cpu_request ?p" by (auto simp: cpu_request_def intro!: exI [of _ ?q])
  then have "traffic_ok held cfg ?s" using tr(1) unfolding traffic_ok_def it by auto
  moreover have "to_serve held ?s = to_serve held s @ [MemLoad ?q]" unfolding to_serve_def it by (simp add: renew_packet_def)
  ultimately have "tracks_at held cfg im t k u i PhLoading ?s"
    using assms(3,5) tr bl rd unfolding tracks_at_def
    by (simp add: between_def load_request_def load_answers_def coming_back_def)
  then show ?thesis unfolding res by (rule leads_onI)
qed

lemma store_begins:
  assumes "slot_contract ops held drain" "tracks_at held cfg im t k u i0 PhReady s" "last_instr im t k i" "soc_regular u i"
    and "is_store (i_op i)" "\<not> is_load (i_op i)"
  shows "leads_on held cfg im t (Suc k) (instr_result ops i s)"
proof -
  note tr = tracks_at_D [OF assms(2)] and rd = ready_D [OF assms(2)]
  let ?ctr = "soc_ctr (ss_soc s)" and ?c = "(ss_cpu s)\<lparr>cpu_events := [], cpu_inst_cnt := int k + 1\<rparr>"
  let ?v = "isa_rf u ! nat (o_reg (i_a1 i))"
  let ?w = "\<lparr>wq_caller = ''cpu'', wq_tid = ?ctr, wq_instr = i, wq_op = i_op i, wq_addr = isa_addr u i, wq_data = ?v\<rparr>"
  let ?p = "WriteReq (single ?w 0 0 ?ctr)"
  have regs: "reg_ok (i_a1 i)" "reg_ok (i_a2 i)" "slaveIndex (isa_addr u i) = 0"
    using assms(4,5) by (simp_all add: soc_regular_def isa_regular_def reads_rs1_def isa_addr_def)
  have op: "i_op i \<in> {SB, SH, SW}" and hcf: "i_op i \<noteq> HCF" using assms(5) by (auto simp: is_store_def)
  obtain r q where send: "cpu_send ops ?p ?c = (?c\<lparr>cpu_reg := r, cpu_request_queue := q\<rparr>, held (cpu_reg ?c) = None)"
    "waiting held r q = waiting held (cpu_reg ?c) [] @ [?p]" "q = (if held (cpu_reg ?c) = None then [] else [?p])"
    "r = cpu_reg ?c \<or> held (cpu_reg ?c) = None"
    by (rule cpu_send_slot [OF assms(1), of ?c ?p]) (use rd(6) in simp)
  let ?c1 = "?c\<lparr>cpu_reg := r, cpu_request_queue := q\<rparr>"
  let ?s = "\<lambda>c. s\<lparr>ss_soc := (ss_soc s)\<lparr>soc_cpu := c, soc_ctr := ?ctr + 1\<rparr>\<rparr>"
  have "rf_get (cpu_rf (ss_cpu s)) (i_a2 i) = Inr (isa_rf u ! nat (o_reg (i_a2 i)))" "rf_get (cpu_rf (ss_cpu s)) (i_a1 i) = Inr ?v"
    using tr(4,6) regs(1,2) by (simp_all add: rf_list_access)
  then have res: "instr_result ops i s = Inr (?s (if held (cpu_reg ?c) = None then finish_instr (ss_now s) i (cpu_pc (ss_cpu s) + 4) ?c1 else ?c1))"
    using assms(5,6) regs(3) send(1) rd(7)
    by (simp add: instr_result_def processInstr_def BusmemWrite_def Construct_MemWritepkt_non_burst_def generateTransactionID_def isa_addr_def Let_def)
  show ?thesis
  proof (cases "held (cpu_reg ?c) = None")
    case False
    then have "r = cpu_reg ?c" "q = [?p]" using send(3,4) by auto
    then have it: "in_transit held (?s ?c1) = in_transit held s" and bl: "blocked (?s ?c1) = [?p]"
      using rd(6) by (simp_all add: in_transit_def blocked_def)
    have "traffic_ok held cfg (?s ?c1)" using tr(1) unfolding traffic_ok_def it by simp
    moreover have "to_serve held (?s ?c1) = to_serve held s" unfolding to_serve_def it by simp
    ultimately have "tracks_at held cfg im t k u i PhBlocked (?s ?c1)"
      using assms(3,5) tr bl rd unfolding tracks_at_def by (simp add: between_def load_answers_def coming_back_def)
    moreover have "instr_result ops i s = Inr (?s ?c1)" by (simp only: res False if_False)
    ultimately show ?thesis by (simp add: leads_onI)
  next
    case True
    let ?f = "?s (finish_instr (ss_now s) i (cpu_pc (ss_cpu s) + 4) ?c1)"
    have res: "instr_result ops i s = Inr ?f" using res True by simp
    have store: "dm_write_value (isa_mem u) (i_op i) (isa_addr u i) ?v = bm.store_at (isa_mem u) (i_op i) (isa_addr u i) ?v"
      by (rule dm_write_value_eq [OF op])
    show ?thesis
    proof (cases "bm.store_at (isa_mem u) (i_op i) (isa_addr u i) ?v")
      case (Inl e)
      then have "isa_step i u = Inl e" using isa_step_store [OF assms(5), of u] by (simp add: isa_addr_def)
      moreover have "int k < cpu_inst_cnt (ss_cpu ?f)" by (simp add: finish_instr_def)
      ultimately have "isa_failed im t ?f" using tr(2) assms(3,5) unfolding isa_failed_def by blast
      then show ?thesis unfolding res by (simp add: leads_on_def)
    next
      case (Inr m)
      let ?u = "u\<lparr>isa_mem := m, isa_pc := isa_pc u + 4\<rparr>"
      have step: "isa_step i u = Inr ?u" using Inr isa_step_store [OF assms(5), of u] by (simp add: isa_addr_def)
      have q: "q = []" using send(3) True by simp
      then have it: "in_transit held ?f = in_transit held s @ [?p]" and bl: "blocked ?f = []"
        using send(2) rd(6) hcf by (simp_all add: in_transit_def blocked_def finish_instr_def)
      have ts: "to_serve held ?f = to_serve held s @ [MemStore ?w]"
        unfolding to_serve_def it using hcf by (simp add: renew_packet_def finish_instr_def)
      have "cpu_request ?p" by (auto simp: cpu_request_def intro!: exI [of _ ?w])
      then have ok: "traffic_ok held cfg ?f" using tr(1) hcf unfolding traffic_ok_def it by auto
      have "stores_to ?u (to_serve held ?f) (dm_base (ss_dm ?f))"
        unfolding ts using stores_to_snoc [OF rd(4), of ?w ?u] store Inr hcf by (simp add: finish_instr_def)
      then have "tracks_at held cfg im t (Suc k) ?u i (if i_op i = HCF then PhHalted else PhReady) ?f"
        using committed [OF tr(2) assms(3) step, of ?f "ss_now s + 1" held cfg] tr rd hcf bl ok
        by (simp add: finish_instr_def load_answers_def coming_back_def)
      then show ?thesis unfolding res by (rule leads_onI)
    qed
  qed
qed

lemma simd_begins:
  assumes "tracks_at held cfg im t k u i0 PhReady s" "last_instr im t k i" "soc_regular u i"
    and "is_simd (i_op i)" "\<not> is_load (i_op i)" "\<not> is_store (i_op i)"
  shows "leads_on held cfg im t (Suc k) (instr_result ops i s)"
proof -
  note tr = tracks_at_D [OF assms(1)] and rd = ready_D [OF assms(1)]
  let ?a = "isa_rf u ! nat (o_reg (i_a2 i))" and ?b = "isa_rf u ! nat (o_reg (i_a3 i))"
  let ?s = "s\<lparr>ss_soc := (ss_soc s)\<lparr>soc_cpu := CFUReq i ?a ?b ((ss_cpu s)\<lparr>cpu_events := [], cpu_inst_cnt := int k + 1\<rparr>)\<rparr>\<rparr>"
  have "reg_ok (i_a2 i)" "reg_ok (i_a3 i)" using assms(3,4) by (simp_all add: soc_regular_def simd_regular_def)
  then have "rf_get (cpu_rf (ss_cpu s)) (i_a2 i) = Inr ?a" "rf_get (cpu_rf (ss_cpu s)) (i_a3 i) = Inr ?b"
    using tr(4,6) by (simp_all add: rf_list_access)
  then have res: "instr_result ops i s = Inr ?s"
    using assms(4-6) rd(7) by (simp add: instr_result_def processInstr_def Let_def)
  have "tracks_at held cfg im t k u i PhComputing ?s"
    using assms(1,2,4) tr rd unfolding tracks_at_def
    by (simp add: between_def CFUReq_def traffic_ok_def to_serve_def in_transit_def blocked_def load_answers_def coming_back_def)
  then show ?thesis unfolding res by (rule leads_onI)
qed

lemma other_runs:
  assumes "tracks_at held cfg im t k u i0 PhReady s" "last_instr im t k i" "soc_regular u i"
    and "\<not> is_load (i_op i)" "\<not> is_store (i_op i)" "\<not> is_simd (i_op i)"
  shows "leads_on held cfg im t (Suc k) (instr_result ops i s)"
proof -
  note tr = tracks_at_D [OF assms(1)] and rd = ready_D [OF assms(1)]
  let ?sw = "exec_switch (isa_rf u) (isa_pc u) i"
  have isa: "bindE ?sw (\<lambda>(rf, pc). Inr (u\<lparr>isa_rf := rf, isa_pc := pc\<rparr>)) = isa_step i u"
    by (rule exec_switch_isa [OF tr(6) _ assms(4-6)]) (use assms(3) in \<open>simp add: soc_regular_def\<close>)
  have nxt: "isa_run im (Suc k) t = isa_step i u" by (rule isa_run_next [OF tr(2) assms(2)])
  have res: "instr_result ops i s = bindE ?sw (\<lambda>(rf, pc). Inr (s\<lparr>ss_soc := (ss_soc s)\<lparr>soc_cpu :=
      finish_instr (ss_now s) i pc ((ss_cpu s)\<lparr>cpu_events := [], cpu_inst_cnt := int k + 1, cpu_rf := rf\<rparr>)\<rparr>\<rparr>))"
    using assms(4-6) tr(4,5) rd(7) by (simp add: instr_result_def processInstr_def Let_def bindE_assoc split_def)
  show ?thesis
  proof (cases ?sw)
    case (Inl e)
    then show ?thesis using res isa nxt by (simp add: leads_on_def)
  next
    case (Inr rp)
    then obtain rf pc where sw: "?sw = Inr (rf, pc)" by (cases rp) auto
    let ?u = "u\<lparr>isa_rf := rf, isa_pc := pc\<rparr>"
    let ?s = "s\<lparr>ss_soc := (ss_soc s)\<lparr>soc_cpu :=
      finish_instr (ss_now s) i pc ((ss_cpu s)\<lparr>cpu_events := [], cpu_inst_cnt := int k + 1, cpu_rf := rf\<rparr>)\<rparr>\<rparr>"
    have step: "isa_step i u = Inr ?u" using isa sw by simp
    have same: "in_transit held ?s = in_transit held s" "load_answers held ?s = load_answers held s" "blocked ?s = blocked s"
      by (simp_all add: in_transit_def load_answers_def coming_back_def blocked_def)
    have ts: "to_serve held ?s = to_serve held s" unfolding to_serve_def same by simp
    have "tracks_at held cfg im t (Suc k) ?u i (if i_op i = HCF then PhHalted else PhReady) ?s"
    proof (rule committed [OF tr(2) assms(2) step])
      show "stores_to ?u (to_serve held ?s) (dm_base (ss_dm ?s))" unfolding ts using rd(4) by (simp add: stores_to_def)
      show "traffic_ok held cfg ?s" using tr(1) unfolding traffic_ok_def same by simp
      show "length (isa_rf ?u) = 32" using exec_switch_length [OF sw] tr(6) by simp
      show "cpu_inst_cnt (ss_cpu ?s) = int (Suc k)" by (simp add: finish_instr_def)
    qed (use tr rd same in simp_all)
    then show ?thesis using res sw by (simp add: leads_onI)
  qed
qed

lemma instr_leads_on:
  assumes "slot_contract ops held drain" "soc_regular_program im t" "tracks_at held cfg im t k u i0 ph s"
    and "soc_act ops held drain cfg SocInstr s = Some res"
  shows "leads_on held cfg im t (Suc (begun s)) res"
proof -
  note tr = tracks_at_D [OF assms(3)]
  have "cpu_events (ss_cpu s) \<noteq> []" using assms(4) by (auto split: list.splits)
  then have ph: "ph = PhReady" using tr(9) by (cases ph) auto
  note at = assms(3) [unfolded ph]
  have cnt: "begun s = k" using ready_D(7) [OF at] by simp
  obtain t0 where "cpu_events (ss_cpu s) = [t0]" using tr(9) ph by auto
  then have res: "res = bindE (execOneInstr ops (ss_now s) (soc_ctr (ss_soc s)) ((ss_cpu s)\<lparr>cpu_events := []\<rparr>)) (\<lambda>(c, ctr).
      Inr (s\<lparr>ss_soc := (ss_soc s)\<lparr>soc_cpu := c, soc_ctr := ctr\<rparr>\<rparr>))"
    using assms(4) by (simp split: if_splits)
  show ?thesis
  proof (cases "array_get ''imem'' im (int (unat (isa_pc u) div 4))")
    case (Inl e)
    then show ?thesis unfolding cnt using res tr(2,3,5) by (simp add: execOneInstr_def fetchInstr_def leads_on_def)
  next
    case (Inr i)
    have last: "last_instr im t k i" using tr(2) Inr by (auto simp: last_instr_def)
    note reg = regular_at [OF assms(2) tr(2) last]
    have "res = instr_result ops i s" using res tr(3,5) Inr by (simp add: execOneInstr_def fetchInstr_def instr_result_def)
    then show ?thesis unfolding cnt
      using load_begins [OF assms(1) at last reg] store_begins [OF assms(1) at last reg] simd_begins [OF at last reg] other_runs [OF at last reg]
      by metis
  qed
qed

text \<open>Every action.\<close>

lemma action_leads_on:
  assumes "slot_contract ops held drain" "soc_regular_program im t" "tracks_at held cfg im t k u i ph s" "soc_act ops held drain cfg a s = Some res"
  shows "leads_on held cfg im t (if a = SocInstr then Suc (begun s) else begun s) res"
proof -
  note ok = tracks_at_D(1) [OF assms(3)] and quiet = silent_leads_on [OF _ assms(3), of res]
  show ?thesis
  proof (cases a)
    case (SocWait n)
    show ?thesis by (rule quiet) (rule wait_silent [OF ok assms(4) [unfolded SocWait]])
  next
    case SocTake
    show ?thesis by (rule quiet) (rule take_silent [OF assms(1) ok assms(4) [unfolded SocTake]])
  next
    case SocDeliver
    show ?thesis by (rule quiet) (rule deliver_silent [OF assms(1) ok assms(4) [unfolded SocDeliver]])
  next
    case SocAck
    show ?thesis by (rule quiet) (rule ack_silent [OF assms(1) ok assms(4) [unfolded SocAck]])
  next
    case SocIdle
    show ?thesis by (rule quiet) (rule idle_silent(1) [OF assms(1) ok assms(4) [unfolded SocIdle]])
  next
    case SocMemRetry
    show ?thesis by (rule quiet) (rule idle_silent(2) [OF assms(1) ok assms(4) [unfolded SocMemRetry]])
  next
    case SocCpuRetry
    show ?thesis by (rule quiet) (rule load_retry_silent [OF assms(1) ok assms(4) [unfolded SocCpuRetry]])
  next
    case SocInstr
    then show ?thesis using instr_leads_on [OF assms(1-3)] assms(4) by simp
  next
    case (SocMem n)
    then show ?thesis using mem_leads_on [OF assms(1,3)] assms(4) by simp
  next
    case (SocRespond n)
    show ?thesis by (rule answer_leads_on [OF assms(2,3) assms(4) [unfolded SocRespond]])
  next
    case SocCfuReq
    show ?thesis by (rule cfu_leads_on(1) [OF assms(2,3) assms(4) [unfolded SocCfuReq]])
  next
    case SocCfuResp
    show ?thesis by (rule cfu_leads_on(2) [OF assms(2,3) assms(4) [unfolded SocCfuResp]])
  qed
qed

section \<open>Runs\<close>

text \<open>The instructions begun are never fewer than before.\<close>

lemma cpu_cnt:
  "execOneInstr ops now ctr c = Inr (c', ctr') \<Longrightarrow> cpu_inst_cnt c' = cpu_inst_cnt c + 1"
  "cpu_step cfg now p c = Inr c' \<Longrightarrow> cpu_inst_cnt c' = cpu_inst_cnt c"
  "CFURespHandler now q c = Inr c' \<Longrightarrow> cpu_inst_cnt c' = cpu_inst_cnt c"
  "cpu_masterPortRetry ops cfg now c = Inr c' \<Longrightarrow> cpu_inst_cnt c' = cpu_inst_cnt c"
proof -
  have instr: "cpu_inst_cnt c' = cpu_inst_cnt c + 1" if "processInstr ops now ctr i c = Inr (c', ctr')" for i
    by (cases rule: processInstr_cases [OF that]) (auto simp: CFUReq_def finish_instr_def Let_def)
  then show "execOneInstr ops now ctr c = Inr (c', ctr') \<Longrightarrow> cpu_inst_cnt c' = cpu_inst_cnt c + 1"
    by (auto simp: execOneInstr_def bindE_eq_Inr)
  have "cpu_inst_cnt c' = cpu_inst_cnt c" if "memReadResps now ps c = Inr c'" for ps c c'
    using that by (induction ps arbitrary: c) (fastforce simp: memReadRespHandler_def bindE_eq_Inr)+
  then show "cpu_step cfg now p c = Inr c' \<Longrightarrow> cpu_inst_cnt c' = cpu_inst_cnt c"
    by (auto simp: cpu_step_def memReadXBarRespHandler_def memWriteXBarRespHandler_def log_error_def split: option.splits sim_packet.splits if_splits)
  show "CFURespHandler now q c = Inr c' \<Longrightarrow> cpu_inst_cnt c' = cpu_inst_cnt c"
    by (auto simp: CFURespHandler_def bindE_eq_Inr)
  show "cpu_masterPortRetry ops cfg now c = Inr c' \<Longrightarrow> cpu_inst_cnt c' = cpu_inst_cnt c"
    by (erule cpu_retry_cases) simp_all
qed

lemma soc_act_cnt:
  assumes "soc_act ops held drain cfg a s = Some (Inr s')"
  shows "cpu_inst_cnt (ss_cpu s) \<le> cpu_inst_cnt (ss_cpu s')"
proof -
  have req: "soc_cpu x' = soc_cpu x" if "soc_request ops cfg now p x = Inr x'" for now p x x'
    using that by (auto simp: soc_request_def bindE_eq_Inr split: if_splits)
  have resp: "cpu_inst_cnt (soc_cpu x') = cpu_inst_cnt (soc_cpu x)" if "soc_response ops cfg now p x = Inr x'" for now p x x'
    using that by (auto simp: soc_response_def bindE_eq_Inr dest: cpu_cnt(2) split: if_splits)
  show ?thesis
    using assms
    by (cases a)
      (auto simp: Let_def with_cpu_def with_dm_def bindE_eq_Inr CFUReqPacket_visit_def CFURespPacket_visit_def dest!: req resp cpu_cnt split: list.splits option.splits if_splits sim_packet.splits)
qed

lemma soc_runs_related:
  assumes "slot_contract ops held drain" "soc_regular_program im t" "soc_runs ops held drain cfg s0 s" "soc_tracks held cfg im t s0"
  shows "soc_tracks held cfg im t s \<or> isa_failed im t s"
  using assms(3,4)
proof (induction rule: soc_runs.induct)
  case (soc_runs_step s s1 a s2)
  then consider "soc_tracks held cfg im t s1" | "isa_failed im t s1" by blast
  then show ?case
  proof cases
    case 1
    then obtain k u i ph where "tracks_at held cfg im t k u i ph s1" unfolding soc_tracks_def by blast
    from action_leads_on [OF assms(1,2) this soc_runs_step.hyps(2)] show ?thesis by (simp add: leads_on_def)
  next
    case 2
    then show ?thesis using soc_act_cnt [OF soc_runs_step.hyps(2)] unfolding isa_failed_def by (meson order_less_le_trans)
  qed
qed simp

lemma boot_tracks:
  assumes "soc_boot held s"
  shows "tracks_at held cfg (cpu_imem (ss_cpu s)) (soc_abs (ss_soc s)) 0 (soc_abs (ss_soc s)) blank_instr PhReady s"
  using assms
  by (auto simp: soc_boot_def soc_start_def soc_ok_def cpu_ok_def soc_abs_def tracks_at_def traffic_ok_def between_def in_transit_def to_serve_def
      blocked_def load_answers_def coming_back_def stores_to_Nil fresh_trackers_def)

lemma boot_runs_tracks:
  assumes "slot_contract ops held drain" "soc_boot held s0" "soc_regular_program (cpu_imem (ss_cpu s0)) (soc_abs (ss_soc s0))"
    and "soc_runs ops held drain cfg s0 s"
  shows "soc_tracks held cfg (cpu_imem (ss_cpu s0)) (soc_abs (ss_soc s0)) s \<or> isa_failed (cpu_imem (ss_cpu s0)) (soc_abs (ss_soc s0)) s"
  using soc_runs_related [OF assms(1,3,4)] boot_tracks [OF assms(2)] unfolding soc_tracks_def by blast

section \<open>What has been committed\<close>

text \<open>
  An instruction is in flight: a store the register refused, an operation of the CFU, or a load that is not
  answered yet. The instructions committed, and the stores that the memory has not executed yet.
\<close>

fun stored :: "mem_req \<Rightarrow> write_req_payload list" where
  "stored (MemLoad q) = []"
| "stored (MemStore w) = [w]"

definition instr_in_flight :: "('r \<Rightarrow> sim_packet option) \<Rightarrow> 'r soc_sys \<Rightarrow> bool" where
  "instr_in_flight held s \<longleftrightarrow> blocked s \<noteq> [] \<or> cpu_cfu_chan (ss_cpu s) \<noteq> [] \<or> ss_cfu s \<noteq> [] \<or> load_answers held s \<noteq> []
     \<or> (\<exists>r \<in> set (to_serve held s). stored r = [])"

definition committed_count :: "('r \<Rightarrow> sim_packet option) \<Rightarrow> 'r soc_sys \<Rightarrow> nat" where
  "committed_count held s = begun s - (if instr_in_flight held s then 1 else 0)"

definition pending_stores :: "('r \<Rightarrow> sim_packet option) \<Rightarrow> 'r soc_sys \<Rightarrow> write_req_payload list" where
  "pending_stores held s = concat (map stored (to_serve held s))"

lemma concat_stored [simp]: "concat (map (stored \<circ> MemStore) ws) = ws"
  by (induction ws) auto

lemma tracks_committed:
  assumes "tracks_at held cfg im t k u i ph s"
  shows "instr_in_flight held s \<longleftrightarrow> \<not> between ph" "committed_count held s = k"
    "dm_apply_writes (dm_base (ss_dm s)) (pending_stores held s) = Inr (isa_mem u)"
proof -
  note tr = tracks_at_D [OF assms]
  have "(instr_in_flight held s \<longleftrightarrow> \<not> between ph) \<and> dm_apply_writes (dm_base (ss_dm s)) (pending_stores held s) = Inr (isa_mem u)"
    using tr(9) unfolding instr_in_flight_def pending_stores_def between_def
    by (cases ph) (auto simp: stores_to_def)
  then show a: "instr_in_flight held s \<longleftrightarrow> \<not> between ph" "dm_apply_writes (dm_base (ss_dm s)) (pending_stores held s) = Inr (isa_mem u)" by blast+
  then show "committed_count held s = k" using tr(7) by (simp add: committed_count_def)
qed

text \<open>The instruction in flight, or what comes next.\<close>

lemma tracks_status:
  assumes "tracks_at held cfg im t k u i ph s"
  shows "instr_in_flight held s \<Longrightarrow> cpu_events (ss_cpu s) = [] \<and> (\<exists>i. last_instr im t k i \<and> (is_load (i_op i) \<or> is_store (i_op i) \<or> is_simd (i_op i)))"
    "\<not> instr_in_flight held s \<Longrightarrow> (\<exists>n. cpu_events (ss_cpu s) = [n])
       \<or> cpu_events (ss_cpu s) = [] \<and> 0 < k \<and> (\<exists>i. last_instr im t (k - 1) i \<and> i_op i = HCF)"
proof -
  note tr = tracks_at_D [OF assms] and com = tracks_committed(1) [OF assms]
  have halted: "ph = PhHalted \<Longrightarrow> 0 < k \<and> last_instr im t (k - 1) i" using assms by (simp add: tracks_at_def)
  show "instr_in_flight held s \<Longrightarrow> cpu_events (ss_cpu s) = [] \<and> (\<exists>i. last_instr im t k i \<and> (is_load (i_op i) \<or> is_store (i_op i) \<or> is_simd (i_op i)))"
    using tr(8,9) com by (cases ph) (auto simp: between_def)
  show "\<not> instr_in_flight held s \<Longrightarrow> (\<exists>n. cpu_events (ss_cpu s) = [n])
       \<or> cpu_events (ss_cpu s) = [] \<and> 0 < k \<and> (\<exists>i. last_instr im t (k - 1) i \<and> i_op i = HCF)"
    using tr(9) com halted by (cases ph) (auto simp: between_def)
qed

text \<open>The next action fails only as the reference does.\<close>

lemma tracks_error:
  assumes "slot_contract ops held drain" "soc_regular_program im t" "tracks_at held cfg im t k u i ph s"
    and "soc_act ops held drain cfg a s = Some (Inl e)"
  shows "isa_run im (Suc k) t = Inl e"
proof -
  have "isa_run im (if a = SocInstr then Suc (begun s) else begun s) t = Inl e"
    using action_leads_on [OF assms] by (simp add: leads_on_def)
  moreover have "begun s = k \<or> begun s = Suc k \<and> a \<noteq> SocInstr"
  proof (cases "between ph")
    case True
    then show ?thesis using tracks_at_D(7) [OF assms(3)] by simp
  next
    case False
    then have "cpu_events (ss_cpu s) = []" using tracks_status(1) [OF assms(3)] tracks_committed(1) [OF assms(3)] by blast
    then have "a \<noteq> SocInstr" using assms(4) by auto
    moreover have "begun s = Suc k" using False tracks_at_D(7) [OF assms(3)] by (simp add: nat_add_distrib)
    ultimately show ?thesis by blast
  qed
  ultimately show ?thesis using tracks_at_D(2) [OF assms(3)] by (auto simp del: isa_run.simps split: if_splits)
qed

end
