(* ===== verification/SocProgress.thy ===== *)
theory SocProgress
  imports SocRuns
begin

text \<open>
  The system of \<open>SocRuns\<close> makes progress: everything under way can arrive, so that every run in which no store
  was refused can be continued until any number of instructions is committed and nothing is under way,
  as long as the reference machine runs and does not halt.
\<close>

section \<open>Actions other than an instruction\<close>

lemma cpu_step_frame:
  assumes "cpu_step cfg now p c = Inr c'"
  shows "cpu_reg c' = cpu_reg c \<and> cpu_request_queue c' = cpu_request_queue c \<and> cpu_cfu_chan c' = cpu_cfu_chan c"
proof -
  have "cpu_reg c' = cpu_reg c \<and> cpu_request_queue c' = cpu_request_queue c \<and> cpu_cfu_chan c' = cpu_cfu_chan c"
    if "memReadResps now ps c = Inr c'" for ps c c'
    using that by (induction ps arbitrary: c) (fastforce simp: memReadRespHandler_def bindE_eq_Inr)+
  with assms show ?thesis
    by (auto simp: cpu_step_def memReadXBarRespHandler_def memWriteXBarRespHandler_def log_error_def split: option.splits sim_packet.splits if_splits)
qed

lemma CFURespHandler_frame:
  "CFURespHandler now q c = Inr c' \<Longrightarrow> cpu_reg c' = cpu_reg c \<and> cpu_request_queue c' = cpu_request_queue c \<and> cpu_cfu_chan c' = cpu_cfu_chan c"
  by (auto simp: CFURespHandler_def bindE_eq_Inr)

lemma load_retry_frame:
  assumes "cpu_masterPortRetry ops cfg now c = Inr c'" "cpu_request_queue c = ReadReq p # ps"
  shows "filter (\<lambda>p. \<not> is_read_req p) (cpu_request_queue c') = filter (\<lambda>p. \<not> is_read_req p) (cpu_request_queue c)"
  using assms(2) by (cases rule: cpu_retry_cases [OF assms(1)]) auto

lemma act_frame:
  assumes "soc_act ops held drain cfg a s = Some (Inr s')" "a \<noteq> SocInstr"
  shows "cpu_inst_cnt (ss_cpu s') = cpu_inst_cnt (ss_cpu s)" "blocked s' = blocked s"
proof -
  have req: "soc_cpu x' = soc_cpu x" if "soc_request ops cfg now p x = Inr x'" for now p x x'
    using that by (auto simp: soc_request_def bindE_eq_Inr split: if_splits)
  have resp: "cpu_inst_cnt (soc_cpu x') = cpu_inst_cnt (soc_cpu x) \<and> cpu_request_queue (soc_cpu x') = cpu_request_queue (soc_cpu x)"
    if "soc_response ops cfg now p x = Inr x'" for now p x x'
    using that by (auto simp: soc_response_def bindE_eq_Inr dest: cpu_cnt(2) cpu_step_frame split: if_splits)
  have "cpu_inst_cnt (ss_cpu s') = cpu_inst_cnt (ss_cpu s) \<and> blocked s' = blocked s"
    using assms
    by (cases a)
      (auto simp: Let_def with_cpu_def with_dm_def bindE_eq_Inr blocked_def CFUReqPacket_visit_def CFURespPacket_visit_def dest: cpu_cnt load_retry_frame CFURespHandler_frame
        dest!: req resp split: list.splits option.splits if_splits sim_packet.splits)
  then show "cpu_inst_cnt (ss_cpu s') = cpu_inst_cnt (ss_cpu s)" "blocked s' = blocked s" by blast+
qed

text \<open>A state on the way: the reference runs without an error as far as instructions were begun.\<close>

definition on_track :: "('r \<Rightarrow> sim_packet option) \<Rightarrow> sim_config \<Rightarrow> instr list \<Rightarrow> isa \<Rightarrow> 'r soc_sys \<Rightarrow> bool" where
  "on_track held cfg im t s \<longleftrightarrow> soc_tracks held cfg im t s \<and> (\<exists>v. isa_run im (begun s) t = Inr v)"

lemma isa_run_prefix: "isa_run im n t = Inr v \<Longrightarrow> j \<le> n \<Longrightarrow> \<exists>u. isa_run im j t = Inr u"
  by (induction n arbitrary: v) (auto simp: bindE_eq_Inr le_Suc_eq)

lemma not_failed:
  assumes "isa_run im n t = Inr v" "begun s \<le> n"
  shows "\<not> isa_failed im t s"
proof
  assume "isa_failed im t s"
  then obtain j u i e where j: "int j < cpu_inst_cnt (ss_cpu s)" "isa_run im j t = Inr u" "last_instr im t j i" "isa_step i u = Inl e"
    by (auto simp: isa_failed_def)
  have "Suc j \<le> n" using j(1) assms(2) by linarith
  then obtain w where "isa_run im (Suc j) t = Inr w" using isa_run_prefix [OF assms(1)] by blast
  then show False using isa_run_next [OF j(2,3)] j(4) by simp
qed

lemma on_track_act:
  assumes "slot_contract ops held drain" "soc_regular_program im t" "on_track held cfg im t s"
    and "soc_act ops held drain cfg a s = Some res" "a \<noteq> SocInstr"
  obtains s' where "res = Inr s'" "on_track held cfg im t s'" "cpu_inst_cnt (ss_cpu s') = cpu_inst_cnt (ss_cpu s)" "blocked s' = blocked s"
proof -
  obtain k u i ph v where s: "tracks_at held cfg im t k u i ph s" "isa_run im (begun s) t = Inr v"
    using assms(3) unfolding on_track_def soc_tracks_def by blast
  have leads: "leads_on held cfg im t (begun s) res" using action_leads_on [OF assms(1,2) s(1) assms(4)] assms(5) by simp
  then obtain s' where res: "res = Inr s'" using s(2) by (cases res) (auto simp: leads_on_def)
  note fr = act_frame [OF assms(4) [unfolded res] assms(5)]
  have "\<not> isa_failed im t s'"
  proof
    assume "isa_failed im t s'"
    then show False using not_failed [OF s(2), of s'] by (simp add: fr(1))
  qed
  then have "on_track held cfg im t s'" using leads s(2) fr(1) by (auto simp: res leads_on_def on_track_def)
  with res fr show thesis by (intro that)
qed

section \<open>What is left to arrive\<close>

definition traffic_left :: "('r \<Rightarrow> sim_packet option) \<Rightarrow> 'r soc_sys \<Rightarrow> nat" where
  "traffic_left held s = 8 * length (waiting held (cpu_reg (ss_cpu s)) (filter is_read_req (cpu_request_queue (ss_cpu s)))) + 7 * length (ss_req s)
     + 3 * length (dm_events (ss_dm s)) + 2 * length (waiting held (dm_reg (ss_dm s)) (dm_respQ (ss_dm s))) + length (ss_resp s)
     + 2 * length (cpu_cfu_chan (ss_cpu s)) + length (ss_cfu s)"

text \<open>From \<open>s\<close> a state like it with less traffic can be reached.\<close>

definition less_left :: "'r reg_ops \<Rightarrow> ('r \<Rightarrow> sim_packet option) \<Rightarrow> ('r \<Rightarrow> 'r) \<Rightarrow> sim_config \<Rightarrow> instr list \<Rightarrow> isa \<Rightarrow> nat \<Rightarrow> 'r soc_sys \<Rightarrow> bool" where
  "less_left ops held drain cfg im t m s \<longleftrightarrow> (\<exists>s'. soc_runs ops held drain cfg s s' \<and> on_track held cfg im t s'
     \<and> cpu_inst_cnt (ss_cpu s') = cpu_inst_cnt (ss_cpu s) \<and> blocked s' = blocked s \<and> traffic_left held s' < m)"

lemma less_left_act:
  assumes "slot_contract ops held drain" "soc_regular_program im t" "on_track held cfg im t s"
    and "soc_act ops held drain cfg a s = Some res" "a \<noteq> SocInstr" "\<And>s'. res = Inr s' \<Longrightarrow> traffic_left held s' < m"
  shows "less_left ops held drain cfg im t m s"
proof -
  obtain s' where s': "res = Inr s'" "on_track held cfg im t s'" "cpu_inst_cnt (ss_cpu s') = cpu_inst_cnt (ss_cpu s)" "blocked s' = blocked s"
    by (rule on_track_act [OF assms(1-5)])
  have "soc_runs ops held drain cfg s s'"
    using soc_runs.soc_runs_step [OF soc_runs.soc_runs_start] assms(4) s'(1) by metis
  then show ?thesis using s' assms(6) unfolding less_left_def by blast
qed

lemma less_left_then:
  assumes "slot_contract ops held drain" "soc_regular_program im t" "on_track held cfg im t s"
    and "soc_act ops held drain cfg a s = Some res" "a \<noteq> SocInstr" "\<And>s'. res = Inr s' \<Longrightarrow> on_track held cfg im t s' \<Longrightarrow> less_left ops held drain cfg im t m s'"
  shows "less_left ops held drain cfg im t m s"
proof -
  obtain s' where s': "res = Inr s'" "on_track held cfg im t s'" "cpu_inst_cnt (ss_cpu s') = cpu_inst_cnt (ss_cpu s)" "blocked s' = blocked s"
    by (rule on_track_act [OF assms(1-5)])
  have "soc_runs ops held drain cfg s s'"
    using soc_runs.soc_runs_step [OF soc_runs.soc_runs_start] assms(4) s'(1) by metis
  moreover obtain s2 where "soc_runs ops held drain cfg s' s2" "on_track held cfg im t s2"
    "cpu_inst_cnt (ss_cpu s2) = cpu_inst_cnt (ss_cpu s')" "blocked s2 = blocked s'" "traffic_left held s2 < m"
    using assms(6) [OF s'(1,2)] unfolding less_left_def by blast
  ultimately show ?thesis using s'(3,4) soc_runs_trans unfolding less_left_def by metis
qed

lemma left_wait: "traffic_left held (s\<lparr>ss_now := n, ss_free := b\<rparr>) = traffic_left held s"
  by (simp add: traffic_left_def coming_back_def)

lemma take_left:
  assumes "slot_contract ops held drain" "soc_regular_program im t" "on_track held cfg im t s" "held (cpu_reg (ss_cpu s)) = Some p"
  shows "less_left ops held drain cfg im t (traffic_left held s) s"
  by (rule less_left_act [OF assms(1-3), where a = SocTake])
    (use assms(4) slot_drain [OF assms(1)] in \<open>auto simp: traffic_left_def coming_back_def with_cpu_def\<close>)

lemma ack_left:
  assumes "slot_contract ops held drain" "soc_regular_program im t" "on_track held cfg im t s" "held (dm_reg (ss_dm s)) = Some p"
  shows "less_left ops held drain cfg im t (traffic_left held s) s"
  by (rule less_left_act [OF assms(1-3), where a = SocAck])
    (use assms(4) slot_drain [OF assms(1)] in \<open>auto simp: traffic_left_def coming_back_def with_dm_def\<close>)

lemma cfu_left:
  assumes "slot_contract ops held drain" "soc_regular_program im t" "on_track held cfg im t s"
  shows "cpu_cfu_chan (ss_cpu s) \<noteq> [] \<Longrightarrow> less_left ops held drain cfg im t (traffic_left held s) s"
    "ss_cfu s \<noteq> [] \<Longrightarrow> less_left ops held drain cfg im t (traffic_left held s) s"
proof -
  assume "cpu_cfu_chan (ss_cpu s) \<noteq> []"
  then obtain q qs where q: "cpu_cfu_chan (ss_cpu s) = q # qs" by (cases "cpu_cfu_chan (ss_cpu s)") auto
  show "less_left ops held drain cfg im t (traffic_left held s) s"
    by (rule less_left_act [OF assms, where a = SocCfuReq]) (use q in \<open>auto simp: traffic_left_def bindE_eq_Inr CFUReqPacket_visit_def\<close>)
next
  assume "ss_cfu s \<noteq> []"
  then obtain q qs where q: "ss_cfu s = q # qs" by (cases "ss_cfu s") auto
  show "less_left ops held drain cfg im t (traffic_left held s) s"
    by (rule less_left_act [OF assms, where a = SocCfuResp])
      (use q in \<open>auto simp: traffic_left_def bindE_eq_Inr CFURespPacket_visit_def dest!: CFURespHandler_frame\<close>)
qed

lemma waiting_trySend:
  assumes "slot_contract ops held drain" "dm_respQ d \<noteq> []"
  shows "held (dm_reg (trySendResponse ops d)) \<noteq> None"
    "length (waiting held (dm_reg (trySendResponse ops d)) (dm_respQ (trySendResponse ops d))) = length (waiting held (dm_reg d) (dm_respQ d))"
proof -
  obtain r q where t: "try_send ops (dm_reg d) (dm_respQ d) = (r, q)" by fastforce
  note w = slot_try_send [OF assms(1) t]
  have tr: "trySendResponse ops d = d\<lparr>dm_reg := r, dm_respQ := q\<rparr>" using t by (simp add: trySendResponse_def)
  show "held (dm_reg (trySendResponse ops d)) \<noteq> None" using w assms(2) unfolding tr settled_def by (cases "held r") auto
  show "length (waiting held (dm_reg (trySendResponse ops d)) (dm_respQ (trySendResponse ops d))) = length (waiting held (dm_reg d) (dm_respQ d))"
    using w unfolding tr by simp
qed

lemma respQ_left:
  assumes "slot_contract ops held drain" "soc_regular_program im t" "on_track held cfg im t s" "dm_respQ (ss_dm s) \<noteq> []"
  shows "less_left ops held drain cfg im t (traffic_left held s) s"
proof (rule less_left_then [OF assms(1-3), where a = SocMemRetry])
  fix s'
  assume s': "Inr (with_dm s (trySendResponse ops (ss_dm s))) = Inr s'" "on_track held cfg im t s'"
  note w = waiting_trySend [OF assms(1,4)]
  have eq: "ss_soc s' = (ss_soc s)\<lparr>soc_dmem := trySendResponse ops (ss_dm s)\<rparr>" "ss_req s' = ss_req s" "ss_resp s' = ss_resp s" "ss_cfu s' = ss_cfu s"
    using s'(1) by (auto simp: with_dm_def)
  then have "traffic_left held s' = traffic_left held s"
    using w(2) by (simp add: traffic_left_def trySendResponse_def split: prod.split)
  moreover obtain p where "held (dm_reg (ss_dm s')) = Some p" using w(1) eq(1) by auto
  ultimately show "less_left ops held drain cfg im t (traffic_left held s) s'" using ack_left [OF assms(1,2) s'(2)] by metis
qed (simp_all add: dm_masterPortRetry_def)

text \<open>What comes back is for the CPU.\<close>

lemma coming_back_dst:
  assumes "tracks_at held cfg im t k u i ph s" "p \<in> set (coming_back held s)"
  shows "dst_of p = 0"
proof (cases "is_ack p")
  case True
  then show ?thesis by (auto simp: is_ack_def packet_defs)
next
  case False
  then have "p \<in> set (load_answers held s)" using assms(2) by (simp add: load_answers_def)
  then obtain q v where "p = load_answer q v" "load_request u i q" using tracks_at_D(9) [OF assms(1)] by (cases ph) auto
  then show ?thesis by (simp add: load_answer_def dm_read_packet_def load_request_def packet_defs)
qed

lemma resp_left:
  assumes "slot_contract ops held drain" "soc_regular_program im t" "on_track held cfg im t s" "ss_resp s \<noteq> []"
  shows "less_left ops held drain cfg im t (traffic_left held s) s"
proof -
  obtain p ps where p: "ss_resp s = p # ps" using assms(4) by (cases "ss_resp s") auto
  have "dst_of p = 0" using assms(3) p coming_back_dst unfolding on_track_def soc_tracks_def by (fastforce simp: coming_back_def)
  then show ?thesis
    by (intro less_left_act [OF assms(1-3), where a = "SocRespond 0"])
      (use p in \<open>auto simp: traffic_left_def soc_response_def bindE_eq_Inr remove_nth_def dest!: cpu_step_frame\<close>)
qed

lemma dm_exec_event_left:
  assumes "slot_contract ops held drain" "dm_exec_event ops e d = Inr d'"
  shows "dm_events d' = dm_events d"
    "length (waiting held (dm_reg d') (dm_respQ d')) \<le> Suc (length (waiting held (dm_reg d) (dm_respQ d)))"
proof -
  have "dm_events d' = dm_events d \<and> length (waiting held (dm_reg d') (dm_respQ d')) \<le> Suc (length (waiting held (dm_reg d) (dm_respQ d)))"
  proof (cases e)
    case TrySendEvent
    obtain r q where "trySendResponse ops d = d\<lparr>dm_reg := r, dm_respQ := q\<rparr>" "waiting held r q = waiting held (dm_reg d) (dm_respQ d)"
      by (rule slot_trySendResponse [OF assms(1)])
    then have "d' = d\<lparr>dm_reg := r, dm_respQ := q\<rparr>" "length (waiting held r q) = length (waiting held (dm_reg d) (dm_respQ d))"
      using assms(2) TrySendEvent by (simp_all only: dm_exec_event.simps sum.inject)
    then show ?thesis by simp
  qed (use assms(2) in \<open>auto simp: memReadReqHandler_def memWriteReqHandler_def dm_collect_read_def dm_collect_write_def bindE_eq_Inr Let_def\<close>)
  then show "dm_events d' = dm_events d"
    "length (waiting held (dm_reg d') (dm_respQ d')) \<le> Suc (length (waiting held (dm_reg d) (dm_respQ d)))" by blast+
qed

lemma earliest:
  assumes "evs \<noteq> []"
  obtains i where "i < length evs" "\<forall>e \<in> set evs. fst (evs ! i) \<le> (fst e :: nat)"
proof -
  have "Min (fst ` set evs) \<in> fst ` set evs" using assms by (intro Min_in) auto
  then obtain i where i: "i < length evs" "fst (evs ! i) = Min (fst ` set evs)" by (auto simp: in_set_conv_nth)
  then show thesis by (intro that [of i]) auto
qed

lemma events_left:
  assumes "slot_contract ops held drain" "soc_regular_program im t" "on_track held cfg im t s" "dm_events (ss_dm s) \<noteq> []"
  shows "less_left ops held drain cfg im t (traffic_left held s) s"
proof -
  let ?evs = "dm_events (ss_dm s)"
  obtain i where i: "i < length ?evs" "\<forall>e \<in> set ?evs. fst (?evs ! i) \<le> fst e" by (rule earliest [OF assms(4)])
  show ?thesis
  proof (rule less_left_then [OF assms(1-3), where a = "SocWait (fst (?evs ! i))"])
    fix s'
    assume s': "Inr (s\<lparr>ss_now := ss_now s + Suc (fst (?evs ! i)), ss_free := True\<rparr>) = Inr s'" "on_track held cfg im t s'"
    have eq: "s' = s\<lparr>ss_now := ss_now s + Suc (fst (?evs ! i)), ss_free := True\<rparr>" using s'(1) by simp
    let ?d = "(ss_dm s)\<lparr>dm_events := remove_nth i ?evs\<rparr>"
    have act: "soc_act ops held drain cfg (SocMem i) s' = Some (bindE (dm_exec_event ops (snd (?evs ! i)) ?d) (\<lambda>d. Inr (with_dm s' d)))"
      using i by (simp add: eq Let_def)
    show "less_left ops held drain cfg im t (traffic_left held s) s'"
    proof (rule less_left_act [OF assms(1,2) s'(2) act])
      fix s2
      assume "bindE (dm_exec_event ops (snd (?evs ! i)) ?d) (\<lambda>d. Inr (with_dm s' d)) = Inr s2"
      then obtain d where d: "dm_exec_event ops (snd (?evs ! i)) ?d = Inr d" "s2 = with_dm s' d" by (auto simp: bindE_eq_Inr)
      have "Suc (length (remove_nth i ?evs)) = length ?evs" using i(1) by (simp add: remove_nth_def)
      then show "traffic_left held s2 < traffic_left held s"
        using dm_exec_event_left [OF assms(1) d(1)] by (simp add: traffic_left_def d(2) with_dm_def eq)
    qed simp
  qed simp_all
qed

lemma req_left:
  assumes "slot_contract ops held drain" "soc_regular_program im t" "on_track held cfg im t s" "ss_req s \<noteq> []"
  shows "less_left ops held drain cfg im t (traffic_left held s) s"
proof (rule less_left_then [OF assms(1-3), where a = "SocWait 0"])
  fix s'
  assume s': "Inr (s\<lparr>ss_now := ss_now s + Suc 0, ss_free := True\<rparr>) = Inr s'" "on_track held cfg im t s'"
  have eq: "s' = s\<lparr>ss_now := ss_now s + Suc 0, ss_free := True\<rparr>" using s'(1) by simp
  obtain p ps where p: "ss_req s = p # ps" using assms(4) by (cases "ss_req s") auto
  have "cpu_request p" using assms(3) p unfolding on_track_def soc_tracks_def
    by (auto dest!: tracks_at_D(1) simp: traffic_ok_def in_transit_def)
  from dm_step_request [OF assms(1) this] obtain r q e tid where
    req: "soc_request ops cfg (ss_now s') p (ss_soc s) = Inr ((ss_soc s)\<lparr>soc_dmem := (ss_dm s)\<lparr>dm_reg := r, dm_respQ := q,
        dm_pending := expect_beats (dm_pending (ss_dm s)) tid 1,
        dm_events := dm_events (ss_dm s) @ [(ss_now s' + memory_read_latency cfg, e), (ss_now s' + 2 + memory_read_latency cfg, TrySendEvent)]\<rparr>\<rparr>)"
    and "waiting held r q = waiting held (dm_reg (ss_dm s)) (dm_respQ (ss_dm s))" by metis
  from arg_cong [OF this(2), of length] show "less_left ops held drain cfg im t (traffic_left held s) s'"
    by (intro less_left_act [OF assms(1,2) s'(2), where a = SocDeliver]) (use req p in \<open>auto simp: traffic_left_def eq\<close>)
qed simp_all

lemma queue_left:
  assumes "slot_contract ops held drain" "soc_regular_program im t" "on_track held cfg im t s" "filter is_read_req (cpu_request_queue (ss_cpu s)) \<noteq> []"
    and "held (cpu_reg (ss_cpu s)) = None"
  shows "less_left ops held drain cfg im t (traffic_left held s) s"
proof -
  obtain k u i ph where s: "tracks_at held cfg im t k u i ph s" using assms(3) unfolding on_track_def soc_tracks_def by blast
  note tr = tracks_at_D [OF s]
  obtain p where "p \<in> set (filter is_read_req (cpu_request_queue (ss_cpu s)))" using assms(4) by (cases "filter is_read_req (cpu_request_queue (ss_cpu s))") auto
  then have p: "is_read_req p" "p \<in> set (in_transit held s)" by (auto simp: in_transit_def)
  then obtain q where q: "p = ReadReq (single q 0 0 (rq_tid q))" using tr(1) by (auto simp: traffic_ok_def cpu_request_def)
  have "MemLoad q \<in> set (packet_reqs p)" by (simp add: q renew_packet_def)
  then have "MemLoad q \<in> set (to_serve held s)" using p(2) by (auto simp: to_serve_def)
  then have "blocked s = []" using tr(9) by (cases ph) (auto simp: stores_to_def)
  then have "\<forall>x \<in> set (cpu_request_queue (ss_cpu s)). is_read_req x" by (simp add: blocked_def filter_empty_conv)
  then obtain x ps where q: "cpu_request_queue (ss_cpu s) = ReadReq x # ps"
    using assms(4) by (cases "cpu_request_queue (ss_cpu s)") (auto elim: is_read_req.elims)
  obtain r where r: "push ops (cpu_reg (ss_cpu s)) (ReadReq x) = (r, True)" "held r = Some (ReadReq x)" "\<not> isStalled ops (cpu_reg (ss_cpu s))"
    by (rule slot_push [OF assms(1,5)])
  show ?thesis
  proof (rule less_left_then [OF assms(1-3), where a = SocCpuRetry])
    fix s'
    assume s': "Inr (with_cpu s ((ss_cpu s)\<lparr>cpu_reg := r, cpu_request_queue := ps\<rparr>)) = Inr s'" "on_track held cfg im t s'"
    then have eq: "s' = with_cpu s ((ss_cpu s)\<lparr>cpu_reg := r, cpu_request_queue := ps\<rparr>)" by simp
    have "held (cpu_reg (ss_cpu s')) = Some (ReadReq x)" using r(2) by (simp add: eq with_cpu_def)
    moreover have "traffic_left held s' = traffic_left held s" using q r(2) assms(5) by (simp add: eq with_cpu_def traffic_left_def)
    ultimately show "less_left ops held drain cfg im t (traffic_left held s) s'" using take_left [OF assms(1,2) s'(2)] by metis
  qed (simp_all add: q r cpu_masterPortRetry_def)
qed

section \<open>Everything arrives\<close>

lemma some_left:
  assumes "slot_contract ops held drain" "soc_regular_program im t" "on_track held cfg im t s" "0 < traffic_left held s"
  shows "less_left ops held drain cfg im t (traffic_left held s) s"
proof -
  consider "ss_req s \<noteq> []" | "ss_resp s \<noteq> []" | "dm_events (ss_dm s) \<noteq> []" | "dm_respQ (ss_dm s) \<noteq> []" | p where "held (dm_reg (ss_dm s)) = Some p"
    | p where "held (cpu_reg (ss_cpu s)) = Some p" | "cpu_cfu_chan (ss_cpu s) \<noteq> []" | "ss_cfu s \<noteq> []"
    | "filter is_read_req (cpu_request_queue (ss_cpu s)) \<noteq> []" "held (cpu_reg (ss_cpu s)) = None"
    using assms(4) unfolding traffic_left_def by (auto split: option.splits)
  then show ?thesis
    using req_left [OF assms(1-3)] resp_left [OF assms(1-3)] events_left [OF assms(1-3)] respQ_left [OF assms(1-3)] ack_left [OF assms(1-3)]
      take_left [OF assms(1-3)] cfu_left [OF assms(1-3)] queue_left [OF assms(1-3)]
    by cases blast+
qed

lemma drained:
  assumes "slot_contract ops held drain" "soc_regular_program im t" "on_track held cfg im t s"
  shows "less_left ops held drain cfg im t 1 s"
  using assms(3)
proof (induction "traffic_left held s" arbitrary: s rule: less_induct)
  case less
  show ?case
  proof (cases "traffic_left held s")
    case 0
    then show ?thesis using less.prems soc_runs.soc_runs_start unfolding less_left_def by force
  next
    case (Suc n)
    then obtain s' where s': "soc_runs ops held drain cfg s s'" "on_track held cfg im t s'"
      "cpu_inst_cnt (ss_cpu s') = cpu_inst_cnt (ss_cpu s)" "blocked s' = blocked s" "traffic_left held s' < traffic_left held s"
      using some_left [OF assms(1,2) less.prems] unfolding less_left_def by auto
    from less.hyps [OF s'(5,2)] show ?thesis using s'(1,3,4) soc_runs_trans unfolding less_left_def by metis
  qed
qed

section \<open>The next instruction\<close>

text \<open>With nothing under way and no store refused, the state is that of the reference.\<close>

lemma quiet_state:
  assumes "tracks_at held cfg im t k u i ph s" "traffic_left held s = 0" "blocked s = []"
  shows "between ph" "cpu_inst_cnt (ss_cpu s) = int k" "soc_abs (ss_soc s) = u" "held (cpu_reg (ss_cpu s)) = None" "cpu_request_queue (ss_cpu s) = []"
    "\<not> instr_in_flight held s" "pending_stores held s = []"
proof -
  note tr = tracks_at_D [OF assms(1)]
  have none: "filter is_read_req (cpu_request_queue (ss_cpu s)) = []" "held (cpu_reg (ss_cpu s)) = None" "ss_req s = []" "dm_events (ss_dm s) = []"
    "coming_back held s = []" "cpu_cfu_chan (ss_cpu s) = []" "ss_cfu s = []"
    using assms(2) by (auto simp: traffic_left_def coming_back_def split: option.splits)
  then have served: "to_serve held s = []" "load_answers held s = []" by (simp_all add: to_serve_def in_transit_def load_answers_def)
  then show "\<not> instr_in_flight held s" "pending_stores held s = []" using none assms(3) by (simp_all add: instr_in_flight_def pending_stores_def)
  from served none have ph: "between ph" "dm_base (ss_dm s) = isa_mem u"
    using tr(9) assms(3) by (cases ph; simp add: between_def stores_to_Nil)+
  then show "between ph" "cpu_inst_cnt (ss_cpu s) = int k" "soc_abs (ss_soc s) = u" using tr by (simp_all add: soc_abs_def)
  show "held (cpu_reg (ss_cpu s)) = None" by (rule none)
  have "\<forall>p \<in> set (cpu_request_queue (ss_cpu s)). False" using none(1) assms(3) by (auto simp: blocked_def filter_empty_conv)
  then show "cpu_request_queue (ss_cpu s) = []" by (cases "cpu_request_queue (ss_cpu s)") auto
qed

lemma instr_unblocked:
  assumes "slot_contract ops held drain" "execOneInstr ops now ctr c = Inr (c', ctr')" "held (cpu_reg c) = None" "cpu_request_queue c = []"
  shows "cpu_request_queue c' = []"
proof -
  obtain i where i: "processInstr ops now ctr i c = Inr (c', ctr')" using assms(2) by (auto simp: execOneInstr_def bindE_eq_Inr)
  have send: "cpu_request_queue (fst (cpu_send ops p (c\<lparr>cpu_inst_cnt := n\<rparr>))) = [] \<and> snd (cpu_send ops p (c\<lparr>cpu_inst_cnt := n\<rparr>))" for p n
  proof -
    let ?c = "c\<lparr>cpu_inst_cnt := n\<rparr>"
    obtain r q where "cpu_send ops p ?c = (?c\<lparr>cpu_reg := r, cpu_request_queue := q\<rparr>, held (cpu_reg ?c) = None)"
      "q = (if held (cpu_reg ?c) = None then [] else [p])"
      by (rule cpu_send_slot [OF assms(1), of ?c p]) (use assms(4) in simp)
    then show ?thesis using assms(3) by simp
  qed
  show ?thesis
    using i by (cases rule: processInstr_cases) (use assms(4) send in \<open>simp_all add: CFUReq_def Let_def\<close>)
qed

lemma one_more:
  assumes "slot_contract ops held drain" "soc_regular_program im t" "on_track held cfg im t s" "traffic_left held s = 0" "blocked s = []"
    and "isa_run im (Suc (begun s)) t = Inr v" "\<And>j i. Suc j = begun s \<Longrightarrow> last_instr im t j i \<Longrightarrow> i_op i \<noteq> HCF"
  obtains s' where "soc_runs ops held drain cfg s s'" "on_track held cfg im t s'" "begun s' = Suc (begun s)" "blocked s' = []"
proof -
  obtain k u i ph where s: "tracks_at held cfg im t k u i ph s" using assms(3) unfolding on_track_def soc_tracks_def by blast
  note q = quiet_state [OF s assms(4,5)] and tr = tracks_at_D [OF s]
  have "ph \<noteq> PhHalted"
  proof
    assume "ph = PhHalted"
    then have "0 < k \<and> last_instr im t (k - 1) i \<and> i_op i = HCF" using s by (simp add: tracks_at_def)
    then show False using assms(7) [of "k - 1" i] q(2) by simp
  qed
  then have ph: "ph = PhReady" using q(1) by (simp add: between_def)
  then obtain n where n: "cpu_events (ss_cpu s) = [n]" using tr(9) by auto
  have wait: "soc_act ops held drain cfg (SocWait n) s = Some (Inr (s\<lparr>ss_now := ss_now s + Suc n, ss_free := True\<rparr>))" by simp
  then obtain s1 where s1: "s1 = s\<lparr>ss_now := ss_now s + Suc n, ss_free := True\<rparr>" "on_track held cfg im t s1"
    using on_track_act [OF assms(1-3) wait] by auto
  obtain k1 u1 i1 ph1 where t1: "tracks_at held cfg im t k1 u1 i1 ph1 s1" using s1(2) unfolding on_track_def soc_tracks_def by blast
  let ?res = "execOneInstr ops (ss_now s1) (soc_ctr (ss_soc s1)) ((ss_cpu s1)\<lparr>cpu_events := []\<rparr>)"
  have act: "soc_act ops held drain cfg SocInstr s1 = Some (bindE ?res (\<lambda>(c, ctr). Inr (s1\<lparr>ss_soc := (ss_soc s1)\<lparr>soc_cpu := c, soc_ctr := ctr\<rparr>\<rparr>)))"
    using n by (simp add: s1(1))
  have begun: "begun s1 = begun s" by (simp add: s1(1))
  have leads: "leads_on held cfg im t (Suc (begun s)) (bindE ?res (\<lambda>(c, ctr). Inr (s1\<lparr>ss_soc := (ss_soc s1)\<lparr>soc_cpu := c, soc_ctr := ctr\<rparr>\<rparr>)))"
    using action_leads_on [OF assms(1,2) t1 act] begun by simp
  then obtain c ctr where c: "?res = Inr (c, ctr)" using assms(6) by (cases ?res) (auto simp: leads_on_def simp del: isa_run.simps)
  let ?s = "s1\<lparr>ss_soc := (ss_soc s1)\<lparr>soc_cpu := c, soc_ctr := ctr\<rparr>\<rparr>"
  have "cpu_inst_cnt c = cpu_inst_cnt (ss_cpu s1) + 1" using cpu_cnt(1) [OF c] by simp
  then have cnt: "begun ?s = Suc (begun s)" using q(2) by (simp add: s1(1) nat_add_distrib)
  have "\<not> isa_failed im t ?s"
  proof
    assume "isa_failed im t ?s"
    then show False using not_failed [OF assms(6), of ?s] cnt by simp
  qed
  then have "on_track held cfg im t ?s" using leads assms(6) c unfolding on_track_def cnt by (auto simp: leads_on_def)
  moreover have "soc_runs ops held drain cfg s s1" by (rule soc_runs_step [OF soc_runs_start, where a = "SocWait n"]) (simp add: s1(1))
  then have "soc_runs ops held drain cfg s ?s" by (rule soc_runs_step [where a = SocInstr]) (simp only: act c bindE_Inr prod.case)
  moreover have "cpu_request_queue c = []" by (rule instr_unblocked [OF assms(1) c]) (use q(4,5) in \<open>simp_all add: s1(1)\<close>)
  then have "blocked ?s = []" by (simp add: blocked_def)
  ultimately show thesis using cnt by (intro that)
qed

lemma reach_count:
  assumes "slot_contract ops held drain" "soc_regular_program im t" "on_track held cfg im t s" "blocked s = []"
    and "isa_run im n t = Inr v" "\<And>j i. Suc j < n \<Longrightarrow> last_instr im t j i \<Longrightarrow> i_op i \<noteq> HCF" "begun s \<le> n"
  shows "\<exists>s'. soc_runs ops held drain cfg s s' \<and> on_track held cfg im t s' \<and> begun s' = n \<and> blocked s' = [] \<and> traffic_left held s' = 0"
  using assms(3,4,7)
proof (induction "n - begun s" arbitrary: s)
  case 0
  then show ?case using drained [OF assms(1,2) 0(2)] unfolding less_left_def by force
next
  case (Suc m)
  obtain s1 where s1: "soc_runs ops held drain cfg s s1" "on_track held cfg im t s1"
    "cpu_inst_cnt (ss_cpu s1) = cpu_inst_cnt (ss_cpu s)" "blocked s1 = []" "traffic_left held s1 = 0"
    using drained [OF assms(1,2) Suc.prems(1)] Suc.prems(2) unfolding less_left_def by auto
  have less: "Suc (begun s1) \<le> n" "n - Suc (begun s1) = m" using Suc.hyps(2) s1(3) by linarith+
  obtain w where w: "isa_run im (Suc (begun s1)) t = Inr w" using isa_run_prefix [OF assms(5) less(1)] by blast
  have hcf: "\<And>j i. Suc j = begun s1 \<Longrightarrow> last_instr im t j i \<Longrightarrow> i_op i \<noteq> HCF" using assms(6) less(1) by (metis Suc_le_eq)
  obtain s2 where s2: "soc_runs ops held drain cfg s1 s2" "on_track held cfg im t s2" "begun s2 = Suc (begun s1)" "blocked s2 = []"
    by (rule one_more [OF assms(1,2) s1(2,5,4) w hcf])
  from Suc.hyps(1) [of s2] s2 less show ?case using s1(1) soc_runs_trans by metis
qed

end
