(* ===== verification/Pipeline.thy ===== *)
theory Pipeline
  imports RiscvCPU
begin

text \<open>
  The timing stages of the five-stage pipeline (\<open>src/riscv\<close>: \<open>PipelineUtils.hh\<close>, \<open>IFStage\<close>,
  \<open>IDStage\<close>, \<open>EXEStage\<close>, \<open>MEMStage\<close>, \<open>WBStage\<close>). A stage tracks the packets downstream of it by
  pointer; the pool of packets (\<open>heap\<close> below) is an argument of every step. The slave port or
  pipe register in front of a stage (its front packet, if any) and the register behind it (whether
  it is stalled, whether it takes a push) belong to ACALSim and are arguments too; what a step does
  to them is its \<open>stage_effect\<close>.
\<close>

type_synonym heap = "nat \<Rightarrow> inst_packet"

section \<open>Hazard detection\<close>

text \<open>The copy of \<open>instrToString\<close> in \<open>PipelineUtils\<close>.\<close>

definition pl_instrToString :: "instr_type \<Rightarrow> string" where
  "pl_instrToString ty = rv_instrToString ty"

definition getDestReg :: "instr \<Rightarrow> int" where
  "getDestReg i =
     (if i_op i \<in> {ADD, ADDI, AND', ANDI, OR', ORI, XOR', XORI, SUB, SLL, SLLI, SRL, SRLI, SRA, SRAI, SLT, SLTI, SLTU,
        SLTIU, LB, LH, LW, LBU, LHU, LUI, AUIPC, JAL, JALR} then o_reg (i_a1 i) else 0)"

definition isRs1Used :: "instr \<Rightarrow> bool" where
  "isRs1Used i \<longleftrightarrow> i_op i \<in> {ADD, SUB, AND', OR', XOR', SLT, SLTU, SLL, SRL, SRA, BEQ, BNE, BLT, BGE, BLTU, BGEU,
     SW, SB, SH, ADDI, ANDI, ORI, XORI, SLTI, SLTIU, SLLI, SRLI, SRAI, LW, LH, LHU, LB, LBU, JALR}"

definition isRs2Used :: "instr \<Rightarrow> bool" where
  "isRs2Used i \<longleftrightarrow> i_op i \<in> {ADD, SUB, AND', OR', XOR', SLT, SLTU, SLL, SRL, SRA, BEQ, BNE, BLT, BGE, BLTU, BGEU,
     SW, SB, SH}"

definition checkRAW :: "int \<Rightarrow> instr \<Rightarrow> bool" where
  "checkRAW rd i =
     (if rd = 0 then False
      else (let (rs1, rs2) =
        (if i_op i \<in> {ADD, AND', OR', XOR', SUB, SLL, SLT, SLTU, SRL, SRA} then (o_reg (i_a2 i), o_reg (i_a3 i))
         else if i_op i \<in> {ADDI, ANDI, ORI, XORI, SLTI, SLTIU, SLLI, SRLI, SRAI, LB, LH, LW, LBU, LHU, JALR}
           then (o_reg (i_a2 i), 0)
         else if i_op i \<in> {SB, SH, SW} then (o_reg (i_a1 i), o_reg (i_a2 i))
         else if i_op i \<in> {BEQ, BNE, BLT, BGE, BLTU, BGEU} then (o_reg (i_a1 i), o_reg (i_a2 i))
         else (0, 0))
       in rs1 = rd \<or> rs2 = rd))"

definition packet_rd :: "inst_packet option \<Rightarrow> int" where
  "packet_rd p = (case p of None \<Rightarrow> 0 | Some q \<Rightarrow> getDestReg (ip_inst q))"

definition depends_on :: "instr \<Rightarrow> int \<Rightarrow> bool" where
  "depends_on i rd \<longleftrightarrow> isRs1Used i \<and> checkRAW rd i \<or> isRs2Used i \<and> checkRAW rd i"

definition hazard_check :: "inst_packet option \<Rightarrow> inst_packet option \<Rightarrow> inst_packet option \<Rightarrow> inst_packet option
    \<Rightarrow> inst_packet option \<Rightarrow> bool \<times> bool \<times> bool" where
  "hazard_check IF_packet ID_packet EXE_packet MEM_packet WB_packet =
     (case ID_packet of
        None \<Rightarrow> (False, False, False)
      | Some q \<Rightarrow>
          if depends_on (ip_inst q) (packet_rd EXE_packet) \<or> depends_on (ip_inst q) (packet_rd MEM_packet)
             \<or> depends_on (ip_inst q) (packet_rd WB_packet)
          then (True, True, True) else (False, False, False))"

definition is_MemPacket :: "inst_packet option \<Rightarrow> bool" where
  "is_MemPacket p = (case p of None \<Rightarrow> False | Some q \<Rightarrow> i_op (ip_inst q) \<in> {LB, LH, LW, LBU, LHU, SB, SH, SW})"

definition memory_access_time :: nat where
  "memory_access_time = 1000"

definition get_memory_access_time :: nat where
  "get_memory_access_time = memory_access_time"

section \<open>The stages\<close>

text \<open>\<open>last_mem_access_pc\<close> is an \<open>int\<close> compared with the unsigned \<open>pc\<close>, so modulo \<open>2 ^ 32\<close>; it starts at -1.\<close>

record stage_ctr =
  mem_access_count :: nat
  last_mem_access_pc :: u32

record if_stage = stage_ctr +
  flush_flag :: bool
  if_ID :: "nat option"
  if_EXE :: "nat option"
  if_MEM :: "nat option"
  if_WB :: "nat option"

record id_stage = stage_ctr +
  id_EXE :: "nat option"
  id_MEM :: "nat option"
  id_WB :: "nat option"

record exe_stage = stage_ctr +
  exe_MEM :: "nat option"
  exe_WB :: "nat option"

record mem_stage = stage_ctr +
  mem_WB :: "nat option"

definition if_new :: if_stage where
  "if_new = \<lparr>mem_access_count = 0, last_mem_access_pc = -1, flush_flag = False, if_ID = None, if_EXE = None,
     if_MEM = None, if_WB = None\<rparr>"

definition id_new :: id_stage where
  "id_new = \<lparr>mem_access_count = 0, last_mem_access_pc = -1, id_EXE = None, id_MEM = None, id_WB = None\<rparr>"

definition exe_new :: exe_stage where
  "exe_new = \<lparr>mem_access_count = 0, last_mem_access_pc = -1, exe_MEM = None, exe_WB = None\<rparr>"

definition mem_new_stage :: mem_stage where
  "mem_new_stage = \<lparr>mem_access_count = 0, last_mem_access_pc = -1, mem_WB = None\<rparr>"

record stage_effect =
  popped :: bool
  pushed :: "nat option"
  force_step :: bool

definition no_effect :: stage_effect where
  "no_effect = \<lparr>popped = False, pushed = None, force_step = False\<rparr>"

definition wait_effect :: stage_effect where
  "wait_effect = \<lparr>popped = False, pushed = None, force_step = True\<rparr>"

definition pass_effect :: "nat \<Rightarrow> stage_effect" where
  "pass_effect p = \<lparr>popped = True, pushed = Some p, force_step = False\<rparr>"

text \<open>The block that computes \<open>stall_ma\<close>, the same in the four stages.\<close>

definition mem_stall :: "inst_packet option \<Rightarrow> 'z stage_ctr_scheme \<Rightarrow> 'z stage_ctr_scheme \<times> bool" where
  "mem_stall p s =
     (case p of
        Some q \<Rightarrow>
          if is_MemPacket p then
            if last_mem_access_pc s \<noteq> ip_pc q then (s\<lparr>last_mem_access_pc := ip_pc q, mem_access_count := 1\<rparr>, True)
            else if mem_access_count s < get_memory_access_time then (s\<lparr>mem_access_count := mem_access_count s + 1\<rparr>, True)
            else (s, False)
          else (s, False)
      | None \<Rightarrow> (s, False))"

text \<open>A failed push is logged as an error; the tracking shifts in any case.\<close>

definition push_out :: "sim_config \<Rightarrow> bool \<Rightarrow> 's \<Rightarrow> 's result" where
  "push_out cfg accepts s = (if accepts then Inr s else log_error cfg ''failed to push InstPacket'' (Inr s))"

definition deref :: "heap \<Rightarrow> nat option \<Rightarrow> inst_packet option" where
  "deref hp r = map_option hp r"

definition if_flush :: "if_stage \<Rightarrow> if_stage" where
  "if_flush s = (if flush_flag s
     then s\<lparr>flush_flag := False, if_ID := None, if_EXE := None, if_MEM := None, if_WB := None\<rparr> else s)"

definition if_instPacketHandler :: "sim_config \<Rightarrow> bool \<Rightarrow> nat \<Rightarrow> if_stage \<Rightarrow> if_stage result" where
  "if_instPacketHandler cfg accepts p s =
     push_out cfg accepts (s\<lparr>if_WB := if_MEM s, if_MEM := if_EXE s, if_EXE := if_ID s, if_ID := Some p\<rparr>)"

definition if_step :: "sim_config \<Rightarrow> heap \<Rightarrow> nat option \<Rightarrow> bool \<Rightarrow> bool \<Rightarrow> if_stage \<Rightarrow> (if_stage \<times> stage_effect) result" where
  "if_step cfg hp inp stalled accepts s0 =
     (let s1 = if_flush s0
      in case inp of
           None \<Rightarrow> Inr (s1, no_effect)
         | Some p \<Rightarrow>
             (let (ifHazard, idHazard, exeHazard) = hazard_check (Some (hp p)) (deref hp (if_ID s1)) (deref hp (if_EXE s1))
                    (deref hp (if_MEM s1)) (deref hp (if_WB s1));
                  hazard = (ifHazard \<or> idHazard \<or> exeHazard);
                  (s, stall_ma) = mem_stall (deref hp (if_MEM s1)) s1;
                  control_hazard = (case if_EXE s of None \<Rightarrow> False | Some e \<Rightarrow> ip_taken (hp e))
              in if stalled then Inr (s, no_effect)
                 else if \<not> hazard \<and> \<not> stall_ma \<and> \<not> control_hazard
                 then bindE (if_instPacketHandler cfg accepts p s) (\<lambda>s'. Inr (s', pass_effect p))
                 else if \<not> stall_ma
                 then Inr (s\<lparr>if_WB := if_MEM s, if_MEM := if_EXE s, if_EXE := None\<rparr>, wait_effect)
                 else Inr (s, wait_effect)))"

definition id_instPacketHandler :: "sim_config \<Rightarrow> bool \<Rightarrow> nat \<Rightarrow> id_stage \<Rightarrow> id_stage result" where
  "id_instPacketHandler cfg accepts p s =
     push_out cfg accepts (s\<lparr>id_WB := id_MEM s, id_MEM := id_EXE s, id_EXE := Some p\<rparr>)"

definition id_step :: "sim_config \<Rightarrow> heap \<Rightarrow> nat option \<Rightarrow> bool \<Rightarrow> bool \<Rightarrow> id_stage \<Rightarrow> (id_stage \<times> stage_effect) result" where
  "id_step cfg hp inp stalled accepts s0 =
     (case inp of
        None \<Rightarrow> Inr (s0, no_effect)
      | Some p \<Rightarrow>
          (let (_, idHazard, exeHazard) = hazard_check None (Some (hp p)) (deref hp (id_EXE s0))
                 (deref hp (id_MEM s0)) (deref hp (id_WB s0));
               hazard = (idHazard \<or> exeHazard);
               control_hazard = (case id_EXE s0 of None \<Rightarrow> False | Some e \<Rightarrow> ip_taken (hp e));
               (s, stall_ma) = mem_stall (deref hp (id_MEM s0)) s0
           in if stalled then Inr (s, no_effect)
              else if \<not> hazard \<and> \<not> stall_ma
              then bindE (id_instPacketHandler cfg accepts p s) (\<lambda>s'. Inr (s', pass_effect p))
              else if \<not> stall_ma \<and> (control_hazard \<or> hazard)
              then Inr (s\<lparr>id_WB := id_MEM s, id_MEM := id_EXE s, id_EXE := None\<rparr>, wait_effect)
              else Inr (s, wait_effect)))"

definition exe_instPacketHandler :: "sim_config \<Rightarrow> bool \<Rightarrow> nat \<Rightarrow> exe_stage \<Rightarrow> exe_stage result" where
  "exe_instPacketHandler cfg accepts p s = push_out cfg accepts (s\<lparr>exe_WB := exe_MEM s, exe_MEM := Some p\<rparr>)"

definition exe_step :: "sim_config \<Rightarrow> heap \<Rightarrow> nat option \<Rightarrow> bool \<Rightarrow> bool \<Rightarrow> exe_stage \<Rightarrow> (exe_stage \<times> stage_effect) result" where
  "exe_step cfg hp inp stalled accepts s0 =
     (case inp of
        None \<Rightarrow> Inr (s0, no_effect)
      | Some p \<Rightarrow>
          (let (s, stall_ma) = mem_stall (deref hp (exe_MEM s0)) s0
           in if stalled then Inr (s, no_effect)
              else if \<not> stall_ma
              then bindE (exe_instPacketHandler cfg accepts p s) (\<lambda>s'. Inr (s', pass_effect p))
              else Inr (s, wait_effect)))"

definition mem_instPacketHandler :: "sim_config \<Rightarrow> bool \<Rightarrow> nat \<Rightarrow> mem_stage \<Rightarrow> mem_stage result" where
  "mem_instPacketHandler cfg accepts p s = push_out cfg accepts (s\<lparr>mem_WB := Some p\<rparr>)"

definition mem_step :: "sim_config \<Rightarrow> heap \<Rightarrow> nat option \<Rightarrow> bool \<Rightarrow> bool \<Rightarrow> mem_stage \<Rightarrow> (mem_stage \<times> stage_effect) result" where
  "mem_step cfg hp inp stalled accepts s0 =
     (case inp of
        None \<Rightarrow> Inr (s0, no_effect)
      | Some p \<Rightarrow>
          (let (s, stall_ma) = mem_stall (Some (hp p)) s0
           in if stalled then Inr (s, no_effect)
              else if \<not> stall_ma
              then bindE (mem_instPacketHandler cfg accepts p s) (\<lambda>s'. Inr (s', pass_effect p))
              else Inr (s, wait_effect)))"

text \<open>The write-back stage pops whatever is valid and recycles it; it keeps no state.\<close>

definition wb_step :: "nat option \<Rightarrow> bool \<times> nat option" where
  "wb_step inp = (case inp of None \<Rightarrow> (False, None) | Some p \<Rightarrow> (True, Some p))"

section \<open>What the hazard check decides\<close>

text \<open>The registers an instruction reads and the one it writes, by class (0 where it writes none).\<close>

definition rv_sources :: "instr \<Rightarrow> int set" where
  "rv_sources i =
     (if i_op i \<in> alu_rr then {o_reg (i_a2 i), o_reg (i_a3 i)}
      else if i_op i \<in> alu_ri \<union> {JALR} \<or> is_load (i_op i) then {o_reg (i_a2 i)}
      else if is_store (i_op i) \<or> i_op i \<in> branch_ops then {o_reg (i_a1 i), o_reg (i_a2 i)}
      else {})"

definition rv_dest :: "instr \<Rightarrow> int" where
  "rv_dest i = (if writes_rd (i_op i) then o_reg (i_a1 i) else 0)"

text \<open>A read-after-write dependence of \<open>j\<close> on the earlier \<open>i\<close>.\<close>

definition raw_dep :: "instr \<Rightarrow> instr \<Rightarrow> bool" where
  "raw_dep i j \<longleftrightarrow> rv_dest i \<noteq> 0 \<and> rv_dest i \<in> rv_sources j"

lemma getDestReg_eq: "i_op i \<noteq> MUL \<Longrightarrow> getDestReg i = rv_dest i"
  by (cases "i_op i") (simp_all add: getDestReg_def rv_dest_def writes_rd_def op_class_defs)

lemma depends_on_eq: "i_op j \<noteq> MUL \<Longrightarrow> depends_on j rd \<longleftrightarrow> rd \<noteq> 0 \<and> rd \<in> rv_sources j"
  by (cases "i_op j") (auto simp: depends_on_def isRs1Used_def isRs2Used_def checkRAW_def rv_sources_def op_class_defs)

text \<open>
  C15: the hazard check raises its three flags together, and raises them exactly when the
  instruction in ID reads a register other than \<open>x0\<close> that the instruction in EXE, MEM or WB
  writes, for all instructions of the model.
\<close>

theorem hazard_check_iff_raw:
  assumes "\<forall>p \<in> set_option ID \<union> set_option EXE \<union> set_option M \<union> set_option WB. i_op (ip_inst p) \<noteq> MUL"
  shows "hazard_check IF' ID EXE M WB = (b, b, b) \<longleftrightarrow>
    b = (\<exists>j \<in> set_option ID. \<exists>i \<in> set_option EXE \<union> set_option M \<union> set_option WB. raw_dep (ip_inst i) (ip_inst j))"
proof -
  have "packet_rd p \<noteq> 0 \<and> packet_rd p \<in> rv_sources j \<longleftrightarrow> (\<exists>i \<in> set_option p. raw_dep (ip_inst i) j)"
    if "\<forall>q \<in> set_option p. i_op (ip_inst q) \<noteq> MUL" for p j
    using that by (cases p) (auto simp: packet_rd_def raw_dep_def getDestReg_eq)
  then have dep: "depends_on j (packet_rd p) \<longleftrightarrow> (\<exists>i \<in> set_option p. raw_dep (ip_inst i) j)"
    if "\<forall>q \<in> set_option p. i_op (ip_inst q) \<noteq> MUL" "i_op j \<noteq> MUL" for p j
    using that by (simp add: depends_on_eq)
  show ?thesis
  proof (cases ID)
    case None
    then show ?thesis by (simp add: hazard_check_def)
  next
    case (Some q)
    have "hazard_check IF' ID EXE M WB = (h, h, h)"
      if "h = (\<exists>i \<in> set_option EXE \<union> set_option M \<union> set_option WB. raw_dep (ip_inst i) (ip_inst q))" for h
      using assms that Some dep by (simp add: hazard_check_def bex_Un)
    then show ?thesis using Some by auto
  qed
qed

theorem hazard_check_iff_raw_witness:
  "hazard_check None (Some \<lparr>ip_inst = rv_prog ! 1, ip_pc = 4, ip_taken = False\<rparr>)
     (Some \<lparr>ip_inst = rv_prog ! 0, ip_pc = 0, ip_taken = False\<rparr>) None None = (True, True, True)"
proof -
  let ?sw = "\<lparr>ip_inst = rv_prog ! 1, ip_pc = 4, ip_taken = False\<rparr>" and ?addi = "\<lparr>ip_inst = rv_prog ! 0, ip_pc = 0, ip_taken = False\<rparr>"
  have "\<forall>p \<in> set_option (Some ?sw) \<union> set_option (Some ?addi) \<union> set_option None \<union> set_option None. i_op (ip_inst p) \<noteq> MUL"
    by (simp add: rv_prog_def)
  from hazard_check_iff_raw [OF this, of None True] show ?thesis
    by (simp add: raw_dep_def rv_dest_def rv_sources_def rv_prog_def rv_reg_def writes_rd_def op_class_defs)
qed

section \<open>Progress of a stage\<close>

text \<open>
  A stage that keeps its input and whose output register is free either passes its packet on or
  waits, asks to be stepped again and comes closer to passing it on: \<open>dist\<close> falls.
\<close>

primrec stage_steps :: "('s \<Rightarrow> ('s \<times> stage_effect) result) \<Rightarrow> nat \<Rightarrow> 's \<Rightarrow> ('s \<times> stage_effect list) result" where
  "stage_steps f 0 s = Inr (s, [])"
| "stage_steps f (Suc n) s =
     bindE (f s) (\<lambda>(s', e). bindE (stage_steps f n s') (\<lambda>(s'', es). Inr (s'', e # es)))"

locale waiting_stage =
  fixes stage :: "'s \<Rightarrow> ('s \<times> stage_effect) result"
    and packet :: nat
    and dist :: "'s \<Rightarrow> nat"
  assumes progress: "(\<exists>s'. stage s = Inr (s', pass_effect packet))
    \<or> (\<exists>s'. stage s = Inr (s', wait_effect) \<and> dist s' < dist s)"
begin

lemma passes_within:
  "\<exists>n \<le> dist s. \<exists>s'. stage_steps stage (Suc n) s = Inr (s', replicate n wait_effect @ [pass_effect packet])"
proof (induction "dist s" arbitrary: s rule: less_induct)
  case less
  show ?case
  proof (cases "\<exists>s'. stage s = Inr (s', pass_effect packet)")
    case True
    then show ?thesis by (intro exI [of _ 0]) auto
  next
    case False
    then obtain s1 where s1: "stage s = Inr (s1, wait_effect)" "dist s1 < dist s" using progress by blast
    with less obtain n s' where "n \<le> dist s1" "stage_steps stage (Suc n) s1 = Inr (s', replicate n wait_effect @ [pass_effect packet])"
      by blast
    with s1 show ?thesis by (intro exI [of _ "Suc n"]) auto
  qed
qed

end

text \<open>Steps the memory stall still takes, and the occupied slots downstream.\<close>

definition stall_left :: "inst_packet option \<Rightarrow> 'z stage_ctr_scheme \<Rightarrow> nat" where
  "stall_left p s = (case p of
     Some q \<Rightarrow> if is_MemPacket p then
       (if last_mem_access_pc s \<noteq> ip_pc q then memory_access_time else memory_access_time - mem_access_count s) else 0
   | None \<Rightarrow> 0)"

definition slot_rank :: "nat option \<Rightarrow> nat option \<Rightarrow> nat option \<Rightarrow> nat" where
  "slot_rank e m w = (if e \<noteq> None then 3 else if m \<noteq> None then 2 else if w \<noteq> None then 1 else 0)"

lemma mem_stall_left:
  assumes "mem_stall p s = (s', b)"
  shows "b \<longleftrightarrow> 0 < stall_left p s" "b \<Longrightarrow> stall_left p s' < stall_left p s" "stall_left p s \<le> memory_access_time"
    "\<not> b \<Longrightarrow> s' = s" "stage_ctr.more s' = stage_ctr.more s"
  using assms
  by (auto simp: mem_stall_def stall_left_def memory_access_time_def get_memory_access_time_def split: option.splits if_splits)

lemma slot_rank_shift: "slot_rank e m w \<noteq> 0 \<Longrightarrow> slot_rank None e m < slot_rank e m w"
  by (cases e; cases m; cases w) (simp_all add: slot_rank_def)

lemma depends_on_x0 [simp]: "\<not> depends_on j 0"
  by (simp add: depends_on_def checkRAW_def)

lemma hazard_empty: "slot_rank e m w = 0 \<Longrightarrow>
    hazard_check p q (deref hp e) (deref hp m) (deref hp w) = (False, False, False) \<and> e = None \<and> m = None"
  by (cases e; cases m; cases w; cases q) (simp_all add: hazard_check_def slot_rank_def deref_def packet_rd_def)

text \<open>How far each stage is from passing its packet on.\<close>

definition if_dist :: "heap \<Rightarrow> if_stage \<Rightarrow> nat" where
  "if_dist hp s0 = (let s = if_flush s0 in
     slot_rank (if_EXE s) (if_MEM s) (if_WB s) * (memory_access_time + 1) + stall_left (deref hp (if_MEM s)) s)"

definition id_dist :: "heap \<Rightarrow> id_stage \<Rightarrow> nat" where
  "id_dist hp s = slot_rank (id_EXE s) (id_MEM s) (id_WB s) * (memory_access_time + 1) + stall_left (deref hp (id_MEM s)) s"

lemma stall_left_le: "stall_left p s \<le> memory_access_time"
  by (auto simp: stall_left_def split: option.splits)

lemma rank_step: "r' < r \<Longrightarrow> r' * (memory_access_time + 1) + stall_left p s' < r * (memory_access_time + 1) + x"
proof -
  assume "r' < r"
  then have "(r' + 1) * (memory_access_time + 1) \<le> r * (memory_access_time + 1)"
    by (intro mult_le_mono1) simp
  then show ?thesis using stall_left_le [of p s'] by simp
qed

interpretation if_w: waiting_stage "if_step cfg hp (Some p) False True" p "if_dist hp"
  for cfg hp p
proof
  fix s0
  define s where "s = if_flush s0"
  have fl: "if_flush s0 = s" "flush_flag s = False" by (simp_all add: s_def if_flush_def)
  obtain s1 b where st: "mem_stall (deref hp (if_MEM s)) s = (s1, b)" by fastforce
  have slots: "if_ID s1 = if_ID s" "if_EXE s1 = if_EXE s" "if_MEM s1 = if_MEM s" "if_WB s1 = if_WB s" "flush_flag s1 = False"
    using st fl(2) by (auto simp: mem_stall_def split: option.splits if_splits)
  obtain h1 h2 h3 where hz: "hazard_check (Some (hp p)) (deref hp (if_ID s)) (deref hp (if_EXE s)) (deref hp (if_MEM s))
      (deref hp (if_WB s)) = (h1, h2, h3)" by (metis surj_pair)
  show "(\<exists>s'. if_step cfg hp (Some p) False True s0 = Inr (s', pass_effect p))
    \<or> (\<exists>s'. if_step cfg hp (Some p) False True s0 = Inr (s', wait_effect) \<and> if_dist hp s' < if_dist hp s0)"
  proof (cases b)
    case True
    then have "if_step cfg hp (Some p) False True s0 = Inr (s1, wait_effect)"
      using st hz fl by (simp add: if_step_def)
    moreover have "if_dist hp s1 < if_dist hp s0"
      using mem_stall_left(2) [OF st True] slots fl by (simp add: if_dist_def if_flush_def)
    ultimately show ?thesis by blast
  next
    case False
    then have s1: "s1 = s" using mem_stall_left(4) [OF st] by simp
    show ?thesis
    proof (cases "\<not> (h1 \<or> h2 \<or> h3) \<and> \<not> (case if_EXE s of None \<Rightarrow> False | Some e \<Rightarrow> ip_taken (hp e))")
      case True
      then show ?thesis using st hz fl False s1
        by (auto simp: if_step_def if_instPacketHandler_def push_out_def)
    next
      case busy: False
      let ?s' = "s\<lparr>if_WB := if_MEM s, if_MEM := if_EXE s, if_EXE := None\<rparr>"
      have "if_step cfg hp (Some p) False True s0 = Inr (?s', wait_effect)"
        using st hz fl False s1 busy by (auto simp: if_step_def)
      moreover have "slot_rank (if_EXE s) (if_MEM s) (if_WB s) \<noteq> 0"
      proof
        assume "slot_rank (if_EXE s) (if_MEM s) (if_WB s) = 0"
        from hazard_empty [OF this, of "Some (hp p)" "deref hp (if_ID s)" hp] busy hz show False by simp
      qed
      then have "slot_rank None (if_EXE s) (if_MEM s) * (memory_access_time + 1) + stall_left (deref hp (if_EXE s)) ?s'
          < slot_rank (if_EXE s) (if_MEM s) (if_WB s) * (memory_access_time + 1) + stall_left (deref hp (if_MEM s)) s"
        by (intro rank_step slot_rank_shift)
      then have "if_dist hp ?s' < if_dist hp s0"
        using fl(2) unfolding if_dist_def fl(1) Let_def by (simp add: if_flush_def)
      ultimately show ?thesis by blast
    qed
  qed
qed

interpretation id_w: waiting_stage "id_step cfg hp (Some p) False True" p "id_dist hp"
  for cfg hp p
proof
  fix s :: id_stage
  obtain s1 b where st: "mem_stall (deref hp (id_MEM s)) s = (s1, b)" by fastforce
  have slots: "id_EXE s1 = id_EXE s" "id_MEM s1 = id_MEM s" "id_WB s1 = id_WB s"
    using st by (auto simp: mem_stall_def split: option.splits if_splits)
  obtain h1 h2 h3 where hz: "hazard_check None (Some (hp p)) (deref hp (id_EXE s)) (deref hp (id_MEM s))
      (deref hp (id_WB s)) = (h1, h2, h3)" by (metis surj_pair)
  show "(\<exists>s'. id_step cfg hp (Some p) False True s = Inr (s', pass_effect p))
    \<or> (\<exists>s'. id_step cfg hp (Some p) False True s = Inr (s', wait_effect) \<and> id_dist hp s' < id_dist hp s)"
  proof (cases b)
    case True
    then have "id_step cfg hp (Some p) False True s = Inr (s1, wait_effect)"
      using st hz by (simp add: id_step_def)
    moreover have "id_dist hp s1 < id_dist hp s"
      using mem_stall_left(2) [OF st True] slots by (simp add: id_dist_def)
    ultimately show ?thesis by blast
  next
    case False
    then have s1: "s1 = s" using mem_stall_left(4) [OF st] by simp
    show ?thesis
    proof (cases "h2 \<or> h3")
      case no: False
      then show ?thesis using st hz False s1
        by (auto simp: id_step_def id_instPacketHandler_def push_out_def)
    next
      case busy: True
      let ?s' = "s\<lparr>id_WB := id_MEM s, id_MEM := id_EXE s, id_EXE := None\<rparr>"
      have "id_step cfg hp (Some p) False True s = Inr (?s', wait_effect)"
        using st hz False s1 busy by (auto simp: id_step_def)
      moreover have "slot_rank (id_EXE s) (id_MEM s) (id_WB s) \<noteq> 0"
      proof
        assume "slot_rank (id_EXE s) (id_MEM s) (id_WB s) = 0"
        from hazard_empty [OF this, of None "Some (hp p)" hp] busy hz show False by simp
      qed
      then have "slot_rank None (id_EXE s) (id_MEM s) * (memory_access_time + 1) + stall_left (deref hp (id_EXE s)) ?s'
          < slot_rank (id_EXE s) (id_MEM s) (id_WB s) * (memory_access_time + 1) + stall_left (deref hp (id_MEM s)) s"
        by (intro rank_step slot_rank_shift)
      then have "id_dist hp ?s' < id_dist hp s" by (simp add: id_dist_def)
      ultimately show ?thesis by blast
    qed
  qed
qed

interpretation exe_w: waiting_stage "exe_step cfg hp (Some p) False True" p
  "\<lambda>s. stall_left (deref hp (exe_MEM s)) s" for cfg hp p
proof
  fix s :: exe_stage
  obtain s1 b where st: "mem_stall (deref hp (exe_MEM s)) s = (s1, b)" by fastforce
  have "exe_MEM s1 = exe_MEM s" using st by (auto simp: mem_stall_def split: option.splits if_splits)
  then show "(\<exists>s'. exe_step cfg hp (Some p) False True s = Inr (s', pass_effect p))
    \<or> (\<exists>s'. exe_step cfg hp (Some p) False True s = Inr (s', wait_effect)
        \<and> stall_left (deref hp (exe_MEM s')) s' < stall_left (deref hp (exe_MEM s)) s)"
    using st mem_stall_left(2) [OF st] by (cases b) (simp_all add: exe_step_def exe_instPacketHandler_def push_out_def)
qed

interpretation mem_w: waiting_stage "mem_step cfg hp (Some p) False True" p "stall_left (Some (hp p))"
  for cfg hp p
proof
  fix s :: mem_stage
  obtain s1 b where st: "mem_stall (Some (hp p)) s = (s1, b)" by fastforce
  then show "(\<exists>s'. mem_step cfg hp (Some p) False True s = Inr (s', pass_effect p))
    \<or> (\<exists>s'. mem_step cfg hp (Some p) False True s = Inr (s', wait_effect)
        \<and> stall_left (Some (hp p)) s' < stall_left (Some (hp p)) s)"
    using mem_stall_left(2) [OF st] by (cases b) (simp_all add: mem_step_def mem_instPacketHandler_def push_out_def)
qed

lemma dist_bounds: "if_dist hp s \<le> 4003" "id_dist hp t \<le> 4003" "stall_left p u \<le> 1000"
proof -
  have rank: "slot_rank e m w * (memory_access_time + 1) \<le> 3003" for e m w
    by (simp add: slot_rank_def memory_access_time_def)
  have left: "stall_left p u \<le> 1000" for p and u :: "'z stage_ctr_scheme"
    using stall_left_le [of p u] by (simp add: memory_access_time_def)
  show "if_dist hp s \<le> 4003" unfolding if_dist_def Let_def
    using add_mono [OF rank left] by fastforce
  show "id_dist hp t \<le> 4003" unfolding id_dist_def
    using add_mono [OF rank left] by fastforce
  show "stall_left p u \<le> 1000" by (rule left)
qed

text \<open>
  C36: no stage holds a packet for ever. With its packet waiting and its output register free, a
  stage only waits, asking to be stepped again, and then passes exactly that packet on: the fetch
  and decode stages after at most 4003 steps whatever hazards, taken branches and memory stalls are
  pending, the execute and memory stages after at most 1000.
\<close>

theorem stages_pass_on:
  "(\<exists>n \<le> 4003. \<exists>s'. stage_steps (if_step cfg hp (Some p) False True) (Suc n) s1 = Inr (s', replicate n wait_effect @ [pass_effect p]))
   \<and> (\<exists>n \<le> 4003. \<exists>s'. stage_steps (id_step cfg hp (Some p) False True) (Suc n) s2 = Inr (s', replicate n wait_effect @ [pass_effect p]))
   \<and> (\<exists>n \<le> 1000. \<exists>s'. stage_steps (exe_step cfg hp (Some p) False True) (Suc n) s3 = Inr (s', replicate n wait_effect @ [pass_effect p]))
   \<and> (\<exists>n \<le> 1000. \<exists>s'. stage_steps (mem_step cfg hp (Some p) False True) (Suc n) s4 = Inr (s', replicate n wait_effect @ [pass_effect p]))"
proof (intro conjI)
  note trans = order_trans [OF _ dist_bounds(1)] order_trans [OF _ dist_bounds(2)] order_trans [OF _ dist_bounds(3)]
  show "\<exists>n \<le> 4003. \<exists>s'. stage_steps (if_step cfg hp (Some p) False True) (Suc n) s1 = Inr (s', replicate n wait_effect @ [pass_effect p])"
    using if_w.passes_within [of hp s1 cfg p] trans(1) by blast
  show "\<exists>n \<le> 4003. \<exists>s'. stage_steps (id_step cfg hp (Some p) False True) (Suc n) s2 = Inr (s', replicate n wait_effect @ [pass_effect p])"
    using id_w.passes_within [of hp s2 cfg p] trans(2) by blast
  show "\<exists>n \<le> 1000. \<exists>s'. stage_steps (exe_step cfg hp (Some p) False True) (Suc n) s3 = Inr (s', replicate n wait_effect @ [pass_effect p])"
    using exe_w.passes_within [of hp s3 cfg p] trans(3) by blast
  show "\<exists>n \<le> 1000. \<exists>s'. stage_steps (mem_step cfg hp (Some p) False True) (Suc n) s4 = Inr (s', replicate n wait_effect @ [pass_effect p])"
    using mem_w.passes_within [of hp p s4 cfg] trans(3) by blast
qed

section \<open>Memory accesses in the MEM stage\<close>

lemma mem_stall_one:
  assumes "mem_stall p s = (s', True)"
  shows "stall_left p s = Suc (stall_left p s')"
  using assms
  by (auto simp: mem_stall_def stall_left_def get_memory_access_time_def memory_access_time_def split: option.splits if_splits)

lemma mem_stage_waits:
  assumes "stall_left (Some (hp p)) s = n"
  shows "\<exists>s'. stage_steps (mem_step cfg hp (Some p) False True) (Suc n) s = Inr (s', replicate n wait_effect @ [pass_effect p])
    \<and> stall_left (Some (hp p)) s' = 0"
  using assms
proof (induction n arbitrary: s)
  case 0
  then have "mem_stall (Some (hp p)) s = (s, False)"
    using mem_stall_left(1,4) by (metis (full_types) less_numeral_extra(3) surj_pair)
  with 0 show ?case
    by (auto simp: mem_step_def mem_instPacketHandler_def push_out_def stall_left_def)
next
  case (Suc n)
  obtain s1 b where st: "mem_stall (Some (hp p)) s = (s1, b)" by fastforce
  then have b: "b" using Suc.prems mem_stall_left(1) [OF st] by simp
  then have "stall_left (Some (hp p)) s1 = n" using mem_stall_one st Suc.prems by fastforce
  from Suc.IH [OF this] st b show ?case by (auto simp: mem_step_def)
qed

text \<open>
  C40: a load or store whose address differs from that of the last access holds the MEM stage for
  exactly 1000 steps; the next load or store at the same program address, as in a loop with a
  single memory instruction, is not held at all.
\<close>

theorem mem_access_counted_once:
  assumes "is_MemPacket (Some (hp p))" "is_MemPacket (Some (hp q))" "ip_pc (hp q) = ip_pc (hp p)"
    and "last_mem_access_pc s \<noteq> ip_pc (hp p)"
  shows "\<exists>s' s''. stage_steps (mem_step cfg hp (Some p) False True) 1001 s = Inr (s', replicate 1000 wait_effect @ [pass_effect p])
    \<and> mem_step cfg hp (Some q) False True s' = Inr (s'', pass_effect q)"
proof -
  have "stall_left (Some (hp p)) s = 1000" using assms(1,4) by (simp add: stall_left_def memory_access_time_def)
  from mem_stage_waits [of hp p s 1000 cfg, OF this] obtain s' where
    "stage_steps (mem_step cfg hp (Some p) False True) (Suc 1000) s = Inr (s', replicate 1000 wait_effect @ [pass_effect p])"
    and left: "stall_left (Some (hp p)) s' = 0" by blast
  moreover have "Suc 1000 = 1001" by simp
  ultimately have s': "stage_steps (mem_step cfg hp (Some p) False True) 1001 s
      = Inr (s', replicate 1000 wait_effect @ [pass_effect p])" by metis
  have "stall_left (Some (hp q)) s' = 0" using left assms(1-3) by (simp add: stall_left_def split: if_splits)
  then have "mem_stall (Some (hp q)) s' = (s', False)"
    using mem_stall_left(1,4) by (metis (full_types) less_numeral_extra(3) surj_pair)
  then have "mem_step cfg hp (Some q) False True s' = Inr (s'\<lparr>mem_WB := Some q\<rparr>, pass_effect q)"
    by (simp add: mem_step_def mem_instPacketHandler_def push_out_def)
  with s' show ?thesis by blast
qed

theorem mem_access_counted_once_witness:
  "\<exists>s' s''. stage_steps (mem_step default_config (\<lambda>_. \<lparr>ip_inst = rv_prog ! 1, ip_pc = 4, ip_taken = False\<rparr>) (Some 0) False True) 1001
      mem_new_stage = Inr (s', replicate 1000 wait_effect @ [pass_effect 0])
    \<and> mem_step default_config (\<lambda>_. \<lparr>ip_inst = rv_prog ! 1, ip_pc = 4, ip_taken = False\<rparr>) (Some 1) False True s' = Inr (s'', pass_effect 1)"
  by (rule mem_access_counted_once) (simp_all add: is_MemPacket_def rv_prog_def mem_new_stage_def)

section \<open>The interlock of the fetch stage\<close>

text \<open>
  The fetch stage from reset, under any behaviour of its ports. The pool is arbitrary in every step:
  write-back recycles packets the stage still tracks, and the container hands them out again.
\<close>

inductive if_reach :: "sim_config \<Rightarrow> if_stage \<Rightarrow> bool" for cfg where
  Reset: "if_reach cfg if_new"
| Step: "if_reach cfg s \<Longrightarrow> if_step cfg hp inp stalled accepts s = Inr (s', e) \<Longrightarrow> if_reach cfg s'"

lemma if_step_no_flush:
  assumes "if_step cfg hp inp stalled accepts s = Inr (s', e)"
  shows "\<not> flush_flag s'"
proof -
  have fl: "\<not> flush_flag (if_flush s)" by (simp add: if_flush_def)
  show ?thesis
  proof (cases inp)
    case None
    then show ?thesis using assms fl by (simp add: if_step_def)
  next
    case (Some p)
    obtain s1 b where st: "mem_stall (deref hp (if_MEM (if_flush s))) (if_flush s) = (s1, b)" by fastforce
    then have "\<not> flush_flag s1" using fl by (auto simp: mem_stall_def split: option.splits if_splits)
    moreover obtain h1 h2 h3 where "hazard_check (Some (hp p)) (deref hp (if_ID (if_flush s))) (deref hp (if_EXE (if_flush s)))
        (deref hp (if_MEM (if_flush s))) (deref hp (if_WB (if_flush s))) = (h1, h2, h3)" by (metis surj_pair)
    ultimately show ?thesis
      using assms Some st
      by (auto simp: if_step_def Let_def if_instPacketHandler_def push_out_def log_error_def result_simps split: if_splits)
  qed
qed

lemma if_reach_no_flush: "if_reach cfg s \<Longrightarrow> \<not> flush_flag s"
  by (induction rule: if_reach.induct) (simp_all add: if_new_def if_step_no_flush)

text \<open>The four packets the stage tracks, from the youngest to the oldest.\<close>

definition if_slots :: "if_stage \<Rightarrow> nat option \<times> nat option \<times> nat option \<times> nat option" where
  "if_slots s = (if_ID s, if_EXE s, if_MEM s, if_WB s)"

definition if_tracked :: "if_stage \<Rightarrow> nat set" where
  "if_tracked s = set_option (if_ID s) \<union> set_option (if_EXE s) \<union> set_option (if_MEM s) \<union> set_option (if_WB s)"

text \<open>The instruction in ID depends on one of those tracked ahead of it.\<close>

definition if_raw :: "heap \<Rightarrow> if_stage \<Rightarrow> bool" where
  "if_raw hp s \<longleftrightarrow> (\<exists>j \<in> set_option (if_ID s). \<exists>i \<in> set_option (if_EXE s) \<union> set_option (if_MEM s) \<union> set_option (if_WB s).
     raw_dep (ip_inst (hp i)) (ip_inst (hp j)))"

lemma hazard_raw:
  assumes "\<forall>r \<in> if_tracked s. i_op (ip_inst (hp r)) \<noteq> MUL"
  shows "hazard_check p (deref hp (if_ID s)) (deref hp (if_EXE s)) (deref hp (if_MEM s)) (deref hp (if_WB s)) = (if_raw hp s, if_raw hp s, if_raw hp s)"
proof -
  have "depends_on j (packet_rd (deref hp x)) \<longleftrightarrow> (\<exists>i \<in> set_option x. raw_dep (ip_inst (hp i)) j)"
    if "\<forall>r \<in> set_option x. i_op (ip_inst (hp r)) \<noteq> MUL" "i_op j \<noteq> MUL" for j x
    using that by (cases x) (auto simp: depends_on_eq packet_rd_def deref_def raw_dep_def getDestReg_eq)
  moreover have "\<forall>r \<in> set_option (if_EXE s). i_op (ip_inst (hp r)) \<noteq> MUL" "\<forall>r \<in> set_option (if_MEM s). i_op (ip_inst (hp r)) \<noteq> MUL"
    "\<forall>r \<in> set_option (if_WB s). i_op (ip_inst (hp r)) \<noteq> MUL"
    using assms by (auto simp: if_tracked_def)
  ultimately show ?thesis
    using assms by (cases "if_ID s") (auto simp: hazard_check_def if_raw_def deref_def if_tracked_def bex_Un)
qed

text \<open>
  C18: the interlock of the fetch stage. In every state it reaches from reset, whatever its ports do and
  whatever the pool of packets holds from step to step, a stage with a packet waiting and its output free
  does exactly this: while the access of the instruction in MEM is waited for, it counts one step of the
  wait and moves nothing; otherwise, if the instruction in ID reads a register that an instruction it
  tracks in EXE, MEM or WB still has to write, or the instruction in EXE is a taken branch, it keeps the
  packet and the instruction in ID and lets a bubble into EXE; otherwise it passes the packet on and the
  instruction in ID enters EXE, so it depends on none of the instructions now in MEM and WB. The contents
  are those the pool has in this step (of packets that are no \<open>MUL\<close>, which this program does not execute).
\<close>

theorem if_interlock:
  assumes "if_reach cfg s" "\<forall>r \<in> if_tracked s. i_op (ip_inst (hp r)) \<noteq> MUL"
  shows "\<exists>s' e. if_step cfg hp (Some p) False True s = Inr (s', e) \<and>
    (if 0 < stall_left (deref hp (if_MEM s)) s
     then e = wait_effect \<and> if_slots s' = if_slots s \<and> stall_left (deref hp (if_MEM s)) s = Suc (stall_left (deref hp (if_MEM s)) s')
     else if if_raw hp s \<or> (\<exists>r \<in> set_option (if_EXE s). ip_taken (hp r))
     then e = wait_effect \<and> if_slots s' = (if_ID s, None, if_EXE s, if_MEM s)
     else e = pass_effect p \<and> if_slots s' = (Some p, if_ID s, if_EXE s, if_MEM s)
       \<and> (\<forall>j \<in> set_option (if_EXE s'). \<forall>i \<in> set_option (if_MEM s') \<union> set_option (if_WB s'). \<not> raw_dep (ip_inst (hp i)) (ip_inst (hp j))))"
proof -
  have fl: "if_flush s = s" using if_reach_no_flush [OF assms(1)] by (simp add: if_flush_def)
  obtain s1 b where st: "mem_stall (deref hp (if_MEM s)) s = (s1, b)" by fastforce
  have slots: "if_slots s1 = if_slots s"
    using st by (auto simp: mem_stall_def if_slots_def split: option.splits if_splits)
  have b: "b \<longleftrightarrow> 0 < stall_left (deref hp (if_MEM s)) s" by (rule mem_stall_left(1) [OF st])
  have taken: "(case if_EXE s of None \<Rightarrow> False | Some e \<Rightarrow> ip_taken (hp e)) \<longleftrightarrow> (\<exists>r \<in> set_option (if_EXE s). ip_taken (hp r))"
    by (cases "if_EXE s") simp_all
  note step = if_step_def fl hazard_raw [OF assms(2)] st if_instPacketHandler_def push_out_def Let_def
  show ?thesis
  proof (cases b)
    case True
    then have "mem_stall (deref hp (if_MEM s)) s = (s1, True)" using st by simp
    from mem_stall_one [OF this] True b slots show ?thesis by (simp add: step)
  next
    case False
    then have "s1 = s" using mem_stall_left(4) [OF st] by simp
    then show ?thesis using False b taken by (auto simp: step if_slots_def if_raw_def)
  qed
qed

definition ex_pool :: heap where
  "ex_pool r = \<lparr>ip_inst = (if r = 0 then rv_prog ! 0 else rv_prog ! 1), ip_pc = of_nat (4 * r), ip_taken = False\<rparr>"

text \<open>The store behind the \<open>ADDI\<close> whose result it stores: it reaches ID and is kept there.\<close>

theorem if_interlock_witness:
  "\<exists>s s'. if_reach default_config s \<and> if_slots s = (Some 1, Some 0, None, None) \<and> if_raw ex_pool s
    \<and> if_step default_config ex_pool (Some 2) False True s = Inr (s', wait_effect) \<and> if_slots s' = (Some 1, None, Some 0, None)"
proof -
  note defs = if_step_def if_flush_def if_new_def deref_def hazard_check_def mem_stall_def is_MemPacket_def
    if_instPacketHandler_def push_out_def packet_rd_def
  let ?s1 = "if_new\<lparr>if_ID := Some 0\<rparr>"
  let ?s2 = "if_new\<lparr>if_ID := Some 1, if_EXE := Some 0\<rparr>"
  have "if_step default_config ex_pool (Some 0) False True if_new = Inr (?s1, pass_effect 0)"
    by (simp add: defs)
  then have r1: "if_reach default_config ?s1" by (rule Step [OF Reset])
  have "if_step default_config ex_pool (Some 1) False True ?s1 = Inr (?s2, pass_effect 1)"
    by (simp add: defs)
  then have r2: "if_reach default_config ?s2" by (rule Step [OF r1])
  have raw: "if_raw ex_pool ?s2"
    by (simp add: if_raw_def if_new_def ex_pool_def raw_dep_def rv_dest_def rv_sources_def rv_prog_def rv_reg_def writes_rd_def op_class_defs)
  have "\<forall>r \<in> if_tracked ?s2. i_op (ip_inst (ex_pool r)) \<noteq> MUL" by (simp add: ex_pool_def rv_prog_def if_new_def if_tracked_def)
  note inter = if_interlock [OF r2 this, of 2]
  have idle: "stall_left (deref ex_pool (if_MEM ?s2)) ?s2 = 0" by (simp add: if_new_def stall_left_def deref_def)
  have slots: "if_slots ?s2 = (Some 1, Some 0, None, None)" by (simp add: if_slots_def if_new_def)
  from inter raw idle obtain s' where "if_step default_config ex_pool (Some 2) False True ?s2 = Inr (s', wait_effect)"
    "if_slots s' = (Some 1, None, Some 0, None)" by (auto simp: if_new_def)
  with r2 raw slots show ?thesis by blast
qed

end
