(* ===== verification/RvEmulator.thy ===== *)
theory RvEmulator
  imports Emulator
begin

text \<open>
  The assembler of the five-stage pipeline model (\<open>src/riscv/libs/Emulator.cc\<close>). Its operand, label,
  directive and pseudo-instruction functions are those of the SoC's assembler, line for line; the
  functions that differ are here: the table of mnemonics and the switch over the operation have no
  \<open>MUL\<close> and no SIMD operations, and so everything above them down to \<open>parse\<close>. The field \<open>str\<close> that
  this version adds to an instruction is only ever written: the functions work on the type of the SoC, and the
  instructions of a loaded program are shown to be those of the type of this program (\<open>rv_assembled_ok\<close>).
\<close>

section \<open>The types of this program\<close>

text \<open>
  The instruction type of \<open>src/riscv/include/DataStruct.hh\<close>: the enumeration without the operations the SoC adds,
  and an instruction that also carries its mnemonic. The operations of an instruction read it as the SoC's.
\<close>

datatype rv_instr_type =
    Rv_UNIMPL | Rv_ADD | Rv_ADDI | Rv_AND | Rv_ANDI | Rv_AUIPC | Rv_BEQ | Rv_BGE | Rv_BGEU | Rv_BLT | Rv_BLTU
  | Rv_BNE | Rv_JAL | Rv_JALR | Rv_LB | Rv_LBU | Rv_LH | Rv_LHU | Rv_LUI | Rv_LW | Rv_OR | Rv_ORI | Rv_SB | Rv_SH
  | Rv_SLL | Rv_SLLI | Rv_SLT | Rv_SLTI | Rv_SLTIU | Rv_SLTU | Rv_SRA | Rv_SRAI | Rv_SRL | Rv_SRLI | Rv_SUB | Rv_SW
  | Rv_XOR | Rv_XORI | Rv_HCF

primrec as_soc_op :: "rv_instr_type \<Rightarrow> instr_type" where
  "as_soc_op Rv_UNIMPL = UNIMPL"
| "as_soc_op Rv_ADD = ADD"
| "as_soc_op Rv_ADDI = ADDI"
| "as_soc_op Rv_AND = AND'"
| "as_soc_op Rv_ANDI = ANDI"
| "as_soc_op Rv_AUIPC = AUIPC"
| "as_soc_op Rv_BEQ = BEQ"
| "as_soc_op Rv_BGE = BGE"
| "as_soc_op Rv_BGEU = BGEU"
| "as_soc_op Rv_BLT = BLT"
| "as_soc_op Rv_BLTU = BLTU"
| "as_soc_op Rv_BNE = BNE"
| "as_soc_op Rv_JAL = JAL"
| "as_soc_op Rv_JALR = JALR"
| "as_soc_op Rv_LB = LB"
| "as_soc_op Rv_LBU = LBU"
| "as_soc_op Rv_LH = LH"
| "as_soc_op Rv_LHU = LHU"
| "as_soc_op Rv_LUI = LUI"
| "as_soc_op Rv_LW = LW"
| "as_soc_op Rv_OR = OR'"
| "as_soc_op Rv_ORI = ORI"
| "as_soc_op Rv_SB = SB"
| "as_soc_op Rv_SH = SH"
| "as_soc_op Rv_SLL = SLL"
| "as_soc_op Rv_SLLI = SLLI"
| "as_soc_op Rv_SLT = SLT"
| "as_soc_op Rv_SLTI = SLTI"
| "as_soc_op Rv_SLTIU = SLTIU"
| "as_soc_op Rv_SLTU = SLTU"
| "as_soc_op Rv_SRA = SRA"
| "as_soc_op Rv_SRAI = SRAI"
| "as_soc_op Rv_SRL = SRL"
| "as_soc_op Rv_SRLI = SRLI"
| "as_soc_op Rv_SUB = SUB"
| "as_soc_op Rv_SW = SW"
| "as_soc_op Rv_XOR = XOR'"
| "as_soc_op Rv_XORI = XORI"
| "as_soc_op Rv_HCF = HCF"

record rv_instr =
  rvi_str :: string
  rvi_op :: rv_instr_type
  rvi_a1 :: operand
  rvi_a2 :: operand
  rvi_a3 :: operand
  rvi_psrc :: "nat option"
  rvi_orig_line :: int
  rvi_breakpoint :: bool

definition as_soc_instr :: "rv_instr \<Rightarrow> instr" where
  "as_soc_instr j = \<lparr>i_op = as_soc_op (rvi_op j), i_a1 = rvi_a1 j, i_a2 = rvi_a2 j, i_a3 = rvi_a3 j,
     i_psrc = rvi_psrc j, i_orig_line = rvi_orig_line j, i_breakpoint = rvi_breakpoint j\<rparr>"

lemma range_as_soc_op: "range as_soc_op = - {op. op = MUL \<or> op = NOP \<or> is_simd op}"
proof -
  have "(UNIV :: rv_instr_type set) = {Rv_UNIMPL, Rv_ADD, Rv_ADDI, Rv_AND, Rv_ANDI, Rv_AUIPC, Rv_BEQ, Rv_BGE, Rv_BGEU, Rv_BLT, Rv_BLTU, Rv_BNE, Rv_JAL,
      Rv_JALR, Rv_LB, Rv_LBU, Rv_LH, Rv_LHU, Rv_LUI, Rv_LW, Rv_OR, Rv_ORI, Rv_SB, Rv_SH, Rv_SLL, Rv_SLLI, Rv_SLT,
      Rv_SLTI, Rv_SLTIU, Rv_SLTU, Rv_SRA, Rv_SRAI, Rv_SRL, Rv_SRLI, Rv_SUB, Rv_SW, Rv_XOR, Rv_XORI, Rv_HCF}" (is "_ = ?A")
  proof (intro set_eqI iffI)
    fix x :: rv_instr_type
    show "x \<in> ?A" by (cases x) simp_all
  qed simp
  moreover have "op \<in> as_soc_op ` ?A \<longleftrightarrow> op \<noteq> MUL \<and> op \<noteq> NOP \<and> \<not> is_simd op" for op
    by (cases op) (simp_all add: is_simd_def)
  ultimately show ?thesis by auto
qed

text \<open>An instruction of the SoC's type is one of this program exactly when it has one of its operations.\<close>

lemma range_as_soc_instr: "i \<in> range as_soc_instr \<longleftrightarrow> i_op i \<in> range as_soc_op"
proof
  assume "i_op i \<in> range as_soc_op"
  then obtain x where "i_op i = as_soc_op x" by auto
  then have "i = as_soc_instr \<lparr>rvi_str = [], rvi_op = x, rvi_a1 = i_a1 i, rvi_a2 = i_a2 i, rvi_a3 = i_a3 i,
      rvi_psrc = i_psrc i, rvi_orig_line = i_orig_line i, rvi_breakpoint = i_breakpoint i\<rparr>"
    by (intro instr.equality) (simp_all add: as_soc_instr_def)
  then show "i \<in> range as_soc_instr" by (rule range_eqI)
qed (auto simp: as_soc_instr_def)

section \<open>One instruction\<close>

definition rv_mnemonics :: "(string \<times> instr_type) list" where
  "rv_mnemonics = [(''add'', ADD), (''sub'', SUB), (''slt'', SLT), (''sltu'', SLTU), (''and'', AND'), (''or'', OR'),
     (''xor'', XOR'), (''sll'', SLL), (''srl'', SRL), (''sra'', SRA),
     (''addi'', ADDI), (''slti'', SLTI), (''sltiu'', SLTIU), (''andi'', ANDI), (''ori'', ORI), (''xori'', XORI),
     (''slli'', SLLI), (''srli'', SRLI), (''srai'', SRAI),
     (''lb'', LB), (''lbu'', LBU), (''lh'', LH), (''lhu'', LHU), (''lw'', LW), (''sb'', SB), (''sh'', SH), (''sw'', SW),
     (''beq'', BEQ), (''bge'', BGE), (''bgeu'', BGEU), (''blt'', BLT), (''bltu'', BLTU), (''bne'', BNE),
     (''jal'', JAL), (''jalr'', JALR), (''auipc'', AUIPC), (''lui'', LUI), (''hcf'', HCF)]"

definition rv_parse_mnemonic :: "string \<Rightarrow> instr_type" where
  "rv_parse_mnemonic tok = (case map_of rv_mnemonics tok of Some ty \<Rightarrow> ty | None \<Rightarrow> UNIMPL)"

definition rv_parse_operands ::
  "sim_config \<Rightarrow> string option \<Rightarrow> string option \<Rightarrow> string option \<Rightarrow> string option \<Rightarrow> instr \<Rightarrow> instr result" where
  "rv_parse_operands cfg o1 o2 o3 o4 i =
     (let oper = i_op i
      in if oper = JAL then
           (if o2 \<noteq> None then
              format_check cfg (o1 = None \<or> o2 = None \<or> o3 \<noteq> None \<or> o4 \<noteq> None)
                (tok_get o1 (\<lambda>t1. bindE (parse_reg cfg t1) (\<lambda>r. tok_get o2 (\<lambda>l.
                   Inr (i\<lparr>i_a1 := reg_operand r (i_a1 i), i_a2 := label_operand l (i_a2 i)\<rparr>)))))
            else
              format_check cfg (o1 = None \<or> o2 \<noteq> None \<or> o3 \<noteq> None \<or> o4 \<noteq> None)
                (tok_get o1 (\<lambda>l. Inr (i\<lparr>i_a1 := reg_operand 1 (i_a1 i), i_a2 := label_operand l (i_a2 i)\<rparr>))))
         else if oper = JALR then parse_reg_mem cfg o1 o2 o3 o4 i
         else if oper \<in> {ADD, SUB, SLT, SLTU, AND', OR', XOR', SLL, SRL, SRA} then parse_regs3 cfg o1 o2 o3 o4 i
         else if oper \<in> {LB, LBU, LH, LHU, LW, SB, SH, SW} then parse_reg_mem cfg o1 o2 o3 o4 i
         else if oper \<in> {ADDI, SLTI, SLTIU, ANDI, ORI, XORI, SLLI, SRLI, SRAI} then
           format_check cfg (o1 = None \<or> o2 = None \<or> o3 = None \<or> o4 \<noteq> None)
             (tok_get o1 (\<lambda>t1. bindE (parse_reg cfg t1) (\<lambda>r1. tok_get o2 (\<lambda>t2. bindE (parse_reg cfg t2) (\<lambda>r2.
              tok_get o3 (\<lambda>t3. bindE (parse_imm cfg t3 12) (\<lambda>imm.
                Inr (i\<lparr>i_a1 := (i_a1 i)\<lparr>o_reg := r1\<rparr>, i_a2 := (i_a2 i)\<lparr>o_reg := r2\<rparr>,
                       i_a3 := (i_a3 i)\<lparr>o_imm := signextend imm 12\<rparr>\<rparr>))))))))
         else if oper \<in> {BEQ, BGE, BGEU, BLT, BLTU, BNE} then
           format_check cfg (o1 = None \<or> o2 = None \<or> o3 = None \<or> o4 \<noteq> None)
             (tok_get o1 (\<lambda>t1. bindE (parse_reg cfg t1) (\<lambda>r1. tok_get o2 (\<lambda>t2. bindE (parse_reg cfg t2) (\<lambda>r2.
              tok_get o3 (\<lambda>l.
                Inr (i\<lparr>i_a1 := (i_a1 i)\<lparr>o_reg := r1\<rparr>, i_a2 := (i_a2 i)\<lparr>o_reg := r2\<rparr>, i_a3 := label_operand l (i_a3 i)\<rparr>)))))))
         else if oper \<in> {LUI, AUIPC} then
           format_check cfg (o1 = None \<or> o2 = None \<or> o3 \<noteq> None \<or> o4 \<noteq> None)
             (tok_get o1 (\<lambda>t1. bindE (parse_reg cfg t1) (\<lambda>r1. tok_get o2 (\<lambda>t2. bindE (parse_imm cfg t2 20) (\<lambda>imm.
                Inr (i\<lparr>i_a1 := (i_a1 i)\<lparr>o_reg := r1\<rparr>, i_a2 := (i_a2 i)\<lparr>o_imm := imm\<rparr>\<rparr>))))))
         else Inr i)"

definition rv_parse_instr :: "sim_config \<Rightarrow> int \<Rightarrow> string \<Rightarrow> string \<Rightarrow> emulator \<Rightarrow> (nat \<times> emulator) result" where
  "rv_parse_instr cfg line ftok rest st =
     (if em_memoff st + 4 > data_offset cfg then Inl (ProgramExit 1)
      else (let (o1, r1) = strtok operand_delims rest; (o2, r2) = strtok operand_delims r1;
                (o3, r3) = strtok operand_delims r2; (o4, r4) = strtok operand_delims r3;
                ioff = em_memoff st div 4
            in bindE (parse_pseudoinstructions cfg line ftok ioff o1 o2 o3 o4 st) (\<lambda>(pscnt, st1).
                 if pscnt > 0 then Inr (pscnt, st1)
                 else
                   bindE (get_instr ioff st1) (\<lambda>i.
                   bindE (append_source cfg ftok o1 o2 o3 (em_src st1) (i\<lparr>i_op := rv_parse_mnemonic ftok, i_orig_line := line\<rparr>)) (\<lambda>(s, i1).
                   bindE (rv_parse_operands cfg o1 o2 o3 o4 i1) (\<lambda>i2.
                   bindE (put_instr ioff (s, i2) st1) (\<lambda>st2. Inr (1, st2))))))))"

section \<open>Lines and files\<close>

definition rv_parse_instr_line :: "sim_config \<Rightarrow> int \<Rightarrow> string \<Rightarrow> string \<Rightarrow> emulator \<Rightarrow> emulator result" where
  "rv_parse_instr_line cfg line ftok rest st =
     bindE (rv_parse_instr cfg line ftok rest st) (\<lambda>(count, st1).
     bindE (foldE (\<lambda>m i. mem_write (em_memoff st1 + i * 4) mark_word m) (em_mem st1) [0..<count]) (\<lambda>m.
       Inr (st1\<lparr>em_mem := m, em_memoff := em_memoff st1 + count * 4\<rparr>)))"

definition rv_parse_line :: "sim_config \<Rightarrow> int \<Rightarrow> string \<Rightarrow> emulator \<Rightarrow> emulator result" where
  "rv_parse_line cfg line rbuf st =
     (case strtok line_delims (map tolower_char rbuf) of
        (None, _) \<Rightarrow> Inr st
      | (Some ftok, rest) \<Rightarrow>
          if hd ftok = CHR ''#'' then Inr st
          else if hd ftok = CHR ''.'' then parse_assembler_directive cfg ftok rest st
          else if last ftok = CHR '':'' then
            bindE (add_label cfg (butlast ftok) st) (\<lambda>st1.
              (case strtok line_delims rest of
                 (None, _) \<Rightarrow> Inr st1
               | (Some ntok, rest') \<Rightarrow>
                   if hd ntok = CHR ''.'' then parse_assembler_directive cfg ntok rest' st1
                   else rv_parse_instr_line cfg line ntok rest' st1))
          else rv_parse_instr_line cfg line ftok rest st)"

definition rv_parse :: "sim_config \<Rightarrow> string option \<Rightarrow> emulator \<Rightarrow> emulator result" where
  "rv_parse cfg file st =
     (case file of
        None \<Rightarrow> log_error cfg ''No such file'' (Inl (OutOfBounds ''fin''))
      | Some content \<Rightarrow> (let ls = read_lines 1023 content
          in foldE (\<lambda>st (k, l). rv_parse_line cfg (int k) l st) st (zip [1..<length ls + 1] ls)))"

section \<open>Agreement with the assembler of the SoC\<close>

definition extension_mnemonics :: "string list" where
  "extension_mnemonics = [''mul'', ''saddi8i8s.vv'', ''saddi16i16s.vv'', ''ssubi8i8s.vv'', ''ssubi16i16s.vv'',
     ''spmuli8i16s.vv.l'', ''spmuli8i16s.vv.h'', ''samuli8i8s.vv.nq'', ''samuli8i8s.vv.l'']"

text \<open>The token of a line that is read as a mnemonic: the first, or the one after a label.\<close>

definition line_mnemonic :: "string \<Rightarrow> string option" where
  "line_mnemonic rbuf =
     (case strtok line_delims (map tolower_char rbuf) of
        (None, _) \<Rightarrow> None
      | (Some ftok, rest) \<Rightarrow>
          if hd ftok \<in> {CHR ''#'', CHR ''.''} then None
          else if last ftok = CHR '':'' then
            (case fst (strtok line_delims rest) of
               None \<Rightarrow> None
             | Some ntok \<Rightarrow> if hd ntok = CHR ''.'' then None else Some ntok)
          else Some ftok)"

definition base_line :: "string \<Rightarrow> bool" where
  "base_line rbuf \<longleftrightarrow> (case line_mnemonic rbuf of None \<Rightarrow> True | Some t \<Rightarrow> t \<notin> set extension_mnemonics)"

lemma map_of_filter_keys: "map_of (filter (\<lambda>p. P (fst p)) xs) k = (if P k then map_of xs k else None)"
  by (induction xs) auto

lemma rv_mnemonics_eq: "rv_mnemonics = filter (\<lambda>p. fst p \<notin> set extension_mnemonics) mnemonics"
  by (simp add: rv_mnemonics_def mnemonics_def extension_mnemonics_def)

lemma rv_parse_mnemonic_eq: "rv_parse_mnemonic t = (if t \<in> set extension_mnemonics then UNIMPL else parse_mnemonic t)"
  using map_of_filter_keys [of "\<lambda>k. k \<notin> set extension_mnemonics" mnemonics t]
  by (simp add: rv_parse_mnemonic_def parse_mnemonic_def rv_mnemonics_eq)

lemma rv_parse_mnemonic_base: "rv_parse_mnemonic t \<noteq> MUL \<and> \<not> is_simd (rv_parse_mnemonic t) \<and> rv_parse_mnemonic t \<noteq> NOP"
proof -
  have "\<forall>ty \<in> snd ` set rv_mnemonics. ty \<noteq> MUL \<and> \<not> is_simd ty \<and> ty \<noteq> NOP" by (simp add: rv_mnemonics_def is_simd_def)
  then show ?thesis
    by (auto simp: rv_parse_mnemonic_def is_simd_def split: option.splits dest!: map_of_SomeD)
qed

lemma rv_parse_operands_eq:
  "i_op i \<noteq> MUL \<Longrightarrow> \<not> is_simd (i_op i) \<Longrightarrow> rv_parse_operands cfg o1 o2 o3 o4 i = parse_operands cfg o1 o2 o3 o4 i"
  by (cases "i_op i") (simp_all add: rv_parse_operands_def parse_operands_def op_class_defs)

lemma rv_parse_instr_eq:
  assumes "t \<notin> set extension_mnemonics"
  shows "rv_parse_instr cfg line t rest st = parse_instr cfg line t rest st"
proof -
  have op: "i_op i' = i_op i" if "append_source cfg oper a1 a2 a3 s i = Inr (s', i')" for oper a1 a2 a3 s i s' i'
    using that by (auto simp: append_source_def split: option.splits if_splits)
  have tok: "rv_parse_mnemonic t = parse_mnemonic t" using assms by (simp add: rv_parse_mnemonic_eq)
  have "bindE (append_source cfg t o1 o2 o3 s (i\<lparr>i_op := parse_mnemonic t, i_orig_line := line\<rparr>))
      (\<lambda>(s, i1). bindE (rv_parse_operands cfg o1 o2 o3 o4 i1) (k s))
    = bindE (append_source cfg t o1 o2 o3 s (i\<lparr>i_op := parse_mnemonic t, i_orig_line := line\<rparr>))
      (\<lambda>(s, i1). bindE (parse_operands cfg o1 o2 o3 o4 i1) (k s))" (is "bindE ?a _ = _")
    for o1 o2 o3 o4 s i and k :: "source \<Rightarrow> instr \<Rightarrow> (nat \<times> emulator) result"
    using rv_parse_mnemonic_base [of t] rv_parse_operands_eq
    by (cases ?a) (auto simp: tok dest!: op)
  then show ?thesis unfolding rv_parse_instr_def parse_instr_def tok by presburger
qed

lemma rv_parse_line_eq:
  assumes "base_line rbuf"
  shows "rv_parse_line cfg line rbuf st = parse_line cfg line rbuf st"
proof -
  obtain t rest where t: "strtok line_delims (map tolower_char rbuf) = (t, rest)" by fastforce
  obtain t2 rest2 where t2: "strtok line_delims rest = (t2, rest2)" by fastforce
  have eq: "rv_parse_instr_line cfg line u r s = parse_instr_line cfg line u r s" if "u \<notin> set extension_mnemonics" for u r s
    using that by (simp add: rv_parse_instr_line_def parse_instr_line_def rv_parse_instr_eq)
  show ?thesis
    using assms t t2 by (cases t; cases t2) (auto simp: rv_parse_line_def parse_line_def base_line_def line_mnemonic_def eq intro!: bindE_cong split: if_splits)
qed

lemma foldE_cong: "(\<And>s x. x \<in> set xs \<Longrightarrow> f s x = g s x) \<Longrightarrow> foldE f s xs = foldE g s xs"
  by (induction xs arbitrary: s) simp_all

lemma rv_parse_eq:
  assumes "\<forall>l \<in> set (read_lines 1023 content). base_line l"
  shows "rv_parse cfg (Some content) st = parse cfg (Some content) st"
proof -
  have "rv_parse_line cfg (int k) l s = parse_line cfg (int k) l s"
    if "(k, l) \<in> set (zip [1..<length (read_lines 1023 content) + 1] (read_lines 1023 content))" for k l s
    using assms set_zip_rightD [OF that] by (simp add: rv_parse_line_eq)
  then show ?thesis unfolding rv_parse_def parse_def by (auto simp: Let_def intro!: foldE_cong)
qed

text \<open>
  C39: on every file none of whose lines uses a mnemonic of the extensions, the assembler of the
  pipeline model and that of the SoC do the same from the same state: same instructions, memory
  image, labels and source texts, or the same error. On the mnemonics of the extensions alone
  they differ: the pipeline's assembler reads them as \<open>UNIMPL\<close>.
\<close>

theorem rv_assembler_agrees:
  assumes "\<forall>l \<in> set (read_lines 1023 content). base_line l"
  shows "rv_parse cfg (Some content) st = parse cfg (Some content) st
    \<and> rv_parse_mnemonic t = (if t \<in> set extension_mnemonics then UNIMPL else parse_mnemonic t)
    \<and> (rv_parse_mnemonic t \<noteq> parse_mnemonic t \<longleftrightarrow> t \<in> set extension_mnemonics)"
proof -
  have "parse_mnemonic t \<noteq> UNIMPL" if "t \<in> set extension_mnemonics"
    using that by (auto simp: extension_mnemonics_def parse_mnemonic_def mnemonics_def)
  then show ?thesis using rv_parse_eq [OF assms] rv_parse_mnemonic_eq by auto
qed

theorem rv_assembler_agrees_witness:
  "rv_parse tiny_config (Some ''x: beqz ra x'') (emulator_new tiny_config (replicate 16 0) (replicate 2 blank_instr))
     = parse tiny_config (Some ''x: beqz ra x'') (emulator_new tiny_config (replicate 16 0) (replicate 2 blank_instr))
   \<and> rv_parse_mnemonic ''mul'' = UNIMPL"
proof -
  have low: "map tolower_char ''x: beqz ra x'' = ''x: beqz ra x''" by (simp add: tolower_char_def)
  have "read_lines 1023 ''x: beqz ra x'' = [''x: beqz ra x'']" by (rule read_lines_one) simp_all
  moreover have "base_line ''x: beqz ra x''"
    unfolding base_line_def line_mnemonic_def low by (simp add: strtok_def line_delims_def extension_mnemonics_def)
  ultimately have "\<forall>l \<in> set (read_lines 1023 ''x: beqz ra x''). base_line l" by simp
  from rv_assembler_agrees [OF this] show ?thesis by (simp add: extension_mnemonics_def)
qed

section \<open>Assembled programs\<close>

text \<open>What this assembler keeps of every instruction: a branch has a label, and the operation is one it knows.\<close>

definition rv_instr_ok :: "instr \<Rightarrow> bool" where
  "rv_instr_ok i \<longleftrightarrow> branch_labelled i \<and> i \<in> range as_soc_instr"

interpretation rvi: instr_property rv_instr_ok
  by unfold_locales (auto simp: rv_instr_ok_def branch_labelled_def branch_ops_def is_simd_def range_as_soc_instr range_as_soc_op)

lemma parse_operands_op: "parse_operands cfg o1 o2 o3 o4 i = Inr i' \<Longrightarrow> i_op i' = i_op i"
  unfolding parse_operands_def Let_def parse_reg_mem_def parse_regs3_def
  by (auto simp: result_simps split: if_splits)

lemma rv_parse_instr_wf:
  assumes "rv_parse_instr cfg line ftok rest st = Inr (c, st')" "em_wf rv_instr_ok cfg n m st"
  shows "em_wf rv_instr_ok cfg n m st'"
proof -
  from assms(1) obtain k o1 o2 o3 o4 pc st1 where ps: "parse_pseudoinstructions cfg line ftok k o1 o2 o3 o4 st = Inr (pc, st1)"
    and rest: "st' = st1 \<or> (\<exists>i s i1 i2. append_source cfg ftok o1 o2 o3 (em_src st1) (i\<lparr>i_op := rv_parse_mnemonic ftok, i_orig_line := line\<rparr>) = Inr (s, i1)
       \<and> rv_parse_operands cfg o1 o2 o3 o4 i1 = Inr i2 \<and> put_instr k (s, i2) st1 = Inr st')"
    unfolding rv_parse_instr_def Let_def by (fastforce simp: result_simps split: if_splits prod.splits)
  from rvi.pseudo_wf [OF ps assms(2)] have wf: "em_wf rv_instr_ok cfg n m st1" .
  from rest show ?thesis
  proof (elim disjE exE conjE)
    fix i s i1 i2
    assume as: "append_source cfg ftok o1 o2 o3 (em_src st1) (i\<lparr>i_op := rv_parse_mnemonic ftok, i_orig_line := line\<rparr>) = Inr (s, i1)"
      and ops: "rv_parse_operands cfg o1 o2 o3 o4 i1 = Inr i2" and put: "put_instr k (s, i2) st1 = Inr st'"
    have "i_op i1 = rv_parse_mnemonic ftok" using as by (auto simp: append_source_def split: option.splits if_splits)
    with ops rv_parse_mnemonic_base [of ftok] have "parse_operands cfg o1 o2 o3 o4 i1 = Inr i2" "\<not> is_simd (i_op i1)" "i_op i1 \<noteq> MUL"
      by (simp_all add: rv_parse_operands_eq)
    moreover have "i_op i1 \<in> range as_soc_op" using \<open>i_op i1 = rv_parse_mnemonic ftok\<close> rv_parse_mnemonic_base [of ftok] by (simp add: range_as_soc_op)
    ultimately have "rv_instr_ok i2" using parse_operands_keeps parse_operands_op by (metis rv_instr_ok_def range_as_soc_instr)
    then show ?thesis by (rule rvi.instr_body_wf [OF as put _ wf])
  qed (use wf in simp)
qed

lemma rv_instr_line_wf:
  assumes "rv_parse_instr_line cfg line ftok rest st = Inr st'" "em_wf rv_instr_ok cfg n m st"
  shows "em_wf rv_instr_ok cfg n m st'"
  using assms by (auto simp: rv_parse_instr_line_def result_simps intro: rvi.marked_wf dest: rv_parse_instr_wf)

lemma rv_parse_line_wf:
  assumes "rv_parse_line cfg line rbuf st = Inr st'" "em_wf rv_instr_ok cfg n m st"
  shows "em_wf rv_instr_ok cfg n m st'"
proof -
  obtain t rest where t: "strtok line_delims (map tolower_char rbuf) = (t, rest)" by fastforce
  obtain t2 rest2 where "strtok line_delims rest = (t2, rest2)" by fastforce
  with t assms show ?thesis
    unfolding rv_parse_line_def
    by (cases t; cases t2) (auto simp: result_simps intro: rvi.directive_wf rv_instr_line_wf rvi.add_label_wf split: if_splits)
qed

lemma rv_parse_wf:
  assumes "rv_parse cfg file st = Inr st'" "em_wf rv_instr_ok cfg n m st"
  shows "em_wf rv_instr_ok cfg n m st'"
proof -
  from assms(1) obtain ls where "foldE (\<lambda>st (k, l). rv_parse_line cfg (int k) l st) st ls = Inr st'"
    by (auto simp: rv_parse_def Let_def result_simps split: option.splits)
  then show ?thesis using assms(2) by (rule foldE_invariant) (auto split: prod.splits dest: rv_parse_line_wf)
qed

lemma rv_assembled_ok:
  assumes "bindE (rv_parse cfg file (emulator_new cfg m im)) (normalize_labels cfg) = Inr st"
    and "\<forall>i \<in> set im. rv_instr_ok i"
  shows "length (em_mem st) = length m \<and> length (em_imem st) = length im
    \<and> set (em_imem st) \<subseteq> range as_soc_instr
    \<and> (error_aborts cfg \<longrightarrow> (\<forall>k < data_offset cfg div 4. let i = em_imem st ! k in
         i_op i \<noteq> UNIMPL \<longrightarrow> no_label i \<and> (i_op i \<in> branch_ops \<longrightarrow> branch_resolved (em_labels st) k i)))"
proof -
  from assms(1) obtain st1 where p: "rv_parse cfg file (emulator_new cfg m im) = Inr st1" and n: "normalize_labels cfg st1 = Inr st"
    by (auto simp: result_simps)
  have "em_wf rv_instr_ok cfg (length m) (length im) (emulator_new cfg m im)"
    using assms(2) by (simp add: em_wf_def emulator_new_def)
  then have wf: "em_wf rv_instr_ok cfg (length m) (length im) st1" by (rule rv_parse_wf [OF p])
  then have "length (s_src (em_src st1)) = max_src_len cfg" by (simp add: em_wf_def)
  note r = normalize_prefix [OF n [unfolded normalize_labels_def] this]
  have ok: "rv_instr_ok (em_imem st1 ! k)" if "k < length im" for k
    using that wf by (simp add: em_wf_def)
  have "i_op (em_imem st ! k) = i_op (em_imem st1 ! k)" for k
    using r by (cases "k < data_offset cfg div 4") (auto simp: normalized_def)
  then have "set (em_imem st) \<subseteq> range as_soc_instr"
    using ok r wf by (auto simp only: subset_iff in_set_conv_nth em_wf_def rv_instr_ok_def range_as_soc_instr)
  moreover have "branch_labelled (em_imem st1 ! k)" if "k < data_offset cfg div 4" for k
    using that r wf ok [of k] by (simp add: em_wf_def rv_instr_ok_def)
  ultimately show ?thesis
    using r wf by (auto simp: em_wf_def normalized_def branch_labelled_def Let_def)
qed

end
