(* ===== verification/PipelineTop.thy ===== *)
theory PipelineTop
  imports Pipeline RvEmulator
begin

text \<open>
  The five-stage pipeline put together (\<open>src/riscv/include/SOCTop.hh\<close>, \<open>libs/SOC.cc\<close>,
  \<open>libs/TopPipeRegisterManager.cc\<close>): the functional core, the port between it and the fetch stage,
  the five stages and the four pipe registers between them. Ports and pipe registers are classes
  of ACALSim and the operations the stages call on them are parameters (\<open>port_ops\<close>, \<open>slave_ops\<close>,
  \<open>pipe_ops\<close>); \<open>fifo_port\<close> and \<open>fifo_pipe\<close> state that they keep packets in order. The simulators of
  one iteration run in any order, so a run of the system is any sequence of their steps.
\<close>

section \<open>Ports and pipe registers\<close>

text \<open>\<open>isPopValid\<close> with \<open>front\<close>, and \<open>pop\<close>, of the slave port.\<close>

record 'p slave_ops =
  sp_front :: "'p \<Rightarrow> nat option"
  sp_pop :: "'p \<Rightarrow> 'p"

text \<open>\<open>isValid\<close> with \<open>value\<close>, and the other operations of a pipe register.\<close>

record 'q pipe_ops =
  pr_front :: "'q \<Rightarrow> nat option"
  pr_pop :: "'q \<Rightarrow> 'q"
  pr_isStalled :: "'q \<Rightarrow> bool"
  pr_push :: "'q \<Rightarrow> nat \<Rightarrow> 'q \<times> bool"
  pr_sync :: "'q \<Rightarrow> 'q"
  pr_clearStallFlag :: "'q \<Rightarrow> 'q"

text \<open>
  The order of packets: \<open>pk\<close> are the packets a port holds, oldest first. A packet may be hidden
  from the receiver for a while; what the receiver sees is the oldest one.
\<close>

definition fifo_port :: "'p port_ops \<Rightarrow> 'p slave_ops \<Rightarrow> ('p \<Rightarrow> nat list) \<Rightarrow> bool" where
  "fifo_port mo so pk \<longleftrightarrow>
     (\<forall>p r. pk (fst (mp_push mo p r)) = (if snd (mp_push mo p r) then pk p @ [r] else pk p))
     \<and> (\<forall>p r. sp_front so p = Some r \<longrightarrow> pk p = r # pk (sp_pop so p))"

definition fifo_pipe :: "'q pipe_ops \<Rightarrow> ('q \<Rightarrow> nat list) \<Rightarrow> bool" where
  "fifo_pipe po pk \<longleftrightarrow>
     (\<forall>q r. pk (fst (pr_push po q r)) = (if snd (pr_push po q r) then pk q @ [r] else pk q))
     \<and> (\<forall>q r. pr_front po q = Some r \<longrightarrow> pk q = r # pk (pr_pop po q))
     \<and> (\<forall>q. pk (pr_sync po q) = pk q) \<and> (\<forall>q. pk (pr_clearStallFlag po q) = pk q)"

section \<open>The system\<close>

text \<open>\<open>t_retired\<close> records the packets the write-back stage recycles, as they are at that moment.\<close>

record ('p, 'q) soc_top =
  t_soc :: "'p rvcpu"
  t_sIF :: if_stage
  t_sID :: id_stage
  t_sEXE :: exe_stage
  t_sMEM :: mem_stage
  prIF2ID :: 'q
  prID2EXE :: 'q
  prEXE2MEM :: 'q
  prMEM2WB :: 'q
  t_retired :: "inst_packet list"

text \<open>\<open>SOC::simInit\<close>: load the program, then schedule the trigger event.\<close>

definition rv_simInit :: "sim_config \<Rightarrow> nat \<Rightarrow> string option \<Rightarrow> 'p rvcpu \<Rightarrow> 'p rvcpu result" where
  "rv_simInit cfg now file s =
     bindE (rv_parse cfg file (emulator_new cfg (mem (rv_dmem s)) (rv_imem s))) (\<lambda>e.
     bindE (normalize_labels cfg e) (\<lambda>e'.
       Inr (s\<lparr>rv_imem := em_imem e', rv_dmem := (rv_dmem s)\<lparr>mem := em_mem e'\<rparr>, rv_events := rv_events s @ [now + 1]\<rparr>)))"

text \<open>\<open>SOC::init\<close>, after the modules are made: the CPU, its instruction memory and the data memory.\<close>

definition rv_registerModules :: "sim_config \<Rightarrow> (nat \<Rightarrow> inst_packet) \<Rightarrow> 'p \<Rightarrow> 'p rvcpu" where
  "rv_registerModules cfg pool port = rv_new cfg pool port"

definition registerSimulators :: "'p rvcpu \<Rightarrow> 'q \<Rightarrow> ('p, 'q) soc_top" where
  "registerSimulators s q =
     \<lparr>t_soc = s, t_sIF = if_new, t_sID = id_new, t_sEXE = exe_new, t_sMEM = mem_new_stage,
      prIF2ID = q, prID2EXE = q, prEXE2MEM = q, prMEM2WB = q, t_retired = []\<rparr>"

definition top_init :: "sim_config \<Rightarrow> nat \<Rightarrow> string option \<Rightarrow> (nat \<Rightarrow> inst_packet) \<Rightarrow> 'p \<Rightarrow> 'q \<Rightarrow> ('p, 'q) soc_top result" where
  "top_init cfg now file pool port q =
     bindE (rv_simInit cfg now file (rv_registerModules cfg pool port)) (\<lambda>s. Inr (registerSimulators s q))"

section \<open>Steps\<close>

text \<open>
  A stage between its input \<open>x\<close> and its output register \<open>q\<close>: the front packet and the state of the
  register are read, then the packet popped and pushed as the step says.
\<close>

definition run_stage ::
  "('x \<Rightarrow> nat option) \<Rightarrow> ('x \<Rightarrow> 'x) \<Rightarrow> 'q pipe_ops \<Rightarrow> (nat option \<Rightarrow> bool \<Rightarrow> bool \<Rightarrow> 's \<Rightarrow> ('s \<times> stage_effect) result)
     \<Rightarrow> 'x \<Rightarrow> 's \<Rightarrow> 'q \<Rightarrow> ('x \<times> 's \<times> 'q) result" where
  "run_stage fr pop po step x s q =
     bindE (step (fr x) (pr_isStalled po q) (case fr x of None \<Rightarrow> True | Some r \<Rightarrow> snd (pr_push po q r)) s) (\<lambda>(s', e).
       Inr (if popped e then pop x else x, s', case pushed e of None \<Rightarrow> q | Some r \<Rightarrow> fst (pr_push po q r)))"

definition run_IF :: "sim_config \<Rightarrow> 'p slave_ops \<Rightarrow> 'q pipe_ops \<Rightarrow> ('p, 'q) soc_top \<Rightarrow> ('p, 'q) soc_top result" where
  "run_IF cfg so po t =
     bindE (run_stage (sp_front so) (sp_pop so) po (if_step cfg (rv_pool (t_soc t))) (rv_port (t_soc t)) (t_sIF t) (prIF2ID t))
       (\<lambda>(p, s, q). Inr (t\<lparr>t_soc := (t_soc t)\<lparr>rv_port := p\<rparr>, t_sIF := s, prIF2ID := q\<rparr>))"

definition run_ID :: "sim_config \<Rightarrow> 'q pipe_ops \<Rightarrow> ('p, 'q) soc_top \<Rightarrow> ('p, 'q) soc_top result" where
  "run_ID cfg po t =
     bindE (run_stage (pr_front po) (pr_pop po) po (id_step cfg (rv_pool (t_soc t))) (prIF2ID t) (t_sID t) (prID2EXE t))
       (\<lambda>(p, s, q). Inr (t\<lparr>prIF2ID := p, t_sID := s, prID2EXE := q\<rparr>))"

definition run_EXE :: "sim_config \<Rightarrow> 'q pipe_ops \<Rightarrow> ('p, 'q) soc_top \<Rightarrow> ('p, 'q) soc_top result" where
  "run_EXE cfg po t =
     bindE (run_stage (pr_front po) (pr_pop po) po (exe_step cfg (rv_pool (t_soc t))) (prID2EXE t) (t_sEXE t) (prEXE2MEM t))
       (\<lambda>(p, s, q). Inr (t\<lparr>prID2EXE := p, t_sEXE := s, prEXE2MEM := q\<rparr>))"

definition run_MEM :: "sim_config \<Rightarrow> 'q pipe_ops \<Rightarrow> ('p, 'q) soc_top \<Rightarrow> ('p, 'q) soc_top result" where
  "run_MEM cfg po t =
     bindE (run_stage (pr_front po) (pr_pop po) po (mem_step cfg (rv_pool (t_soc t))) (prEXE2MEM t) (t_sMEM t) (prMEM2WB t))
       (\<lambda>(p, s, q). Inr (t\<lparr>prEXE2MEM := p, t_sMEM := s, prMEM2WB := q\<rparr>))"

definition run_WB :: "'q pipe_ops \<Rightarrow> ('p, 'q) soc_top \<Rightarrow> ('p, 'q) soc_top" where
  "run_WB po t =
     (case wb_step (pr_front po (prMEM2WB t)) of (pops, recycled) \<Rightarrow>
        t\<lparr>prMEM2WB := if pops then pr_pop po (prMEM2WB t) else prMEM2WB t,
          t_retired := t_retired t @ (case recycled of None \<Rightarrow> [] | Some r \<Rightarrow> [rv_pool (t_soc t) r])\<rparr>)"

definition sync_reg :: "'q pipe_ops \<Rightarrow> 'q \<Rightarrow> 'q" where
  "sync_reg po q = pr_clearStallFlag po (pr_sync po q)"

definition runSyncPipeRegister :: "'q pipe_ops \<Rightarrow> ('p, 'q) soc_top \<Rightarrow> ('p, 'q) soc_top" where
  "runSyncPipeRegister po t =
     t\<lparr>prIF2ID := sync_reg po (prIF2ID t), prID2EXE := sync_reg po (prID2EXE t),
       prEXE2MEM := sync_reg po (prEXE2MEM t), prMEM2WB := sync_reg po (prMEM2WB t)\<rparr>"

text \<open>The packets between the core and write-back, the oldest first; the last may be waiting for the port.\<close>

definition in_flight :: "('p \<Rightarrow> nat list) \<Rightarrow> ('q \<Rightarrow> nat list) \<Rightarrow> ('p, 'q) soc_top \<Rightarrow> nat list" where
  "in_flight pk qk t = qk (prMEM2WB t) @ qk (prEXE2MEM t) @ qk (prID2EXE t) @ qk (prIF2ID t) @ pk (rv_port (t_soc t))
     @ (case rv_pending (t_soc t) of None \<Rightarrow> [] | Some r \<Rightarrow> [r])"

text \<open>
  One step of any simulator. The container of ACALSim from which the core acquires a packet hands
  out no object that is still in use.
\<close>

inductive top_step ::
  "'p port_ops \<Rightarrow> 'p slave_ops \<Rightarrow> 'q pipe_ops \<Rightarrow> ('p \<Rightarrow> nat list) \<Rightarrow> ('q \<Rightarrow> nat list) \<Rightarrow> sim_config
     \<Rightarrow> ('p, 'q) soc_top \<Rightarrow> ('p, 'q) soc_top \<Rightarrow> bool" for mo so po pk qk cfg where
  Exec_top: "rv_events (t_soc t) = now # es \<Longrightarrow> r \<notin> set (in_flight pk qk t) \<Longrightarrow>
    rv_execOneInstr mo now r ((t_soc t)\<lparr>rv_events := es\<rparr>) = Inr s \<Longrightarrow> top_step mo so po pk qk cfg t (t\<lparr>t_soc := s\<rparr>)"
| Retry_top: "rv_masterPortRetry mo cfg now ''sIF-m'' (t_soc t) = Inr s \<Longrightarrow> top_step mo so po pk qk cfg t (t\<lparr>t_soc := s\<rparr>)"
| IF_top: "run_IF cfg so po t = Inr t' \<Longrightarrow> top_step mo so po pk qk cfg t t'"
| ID_top: "run_ID cfg po t = Inr t' \<Longrightarrow> top_step mo so po pk qk cfg t t'"
| EXE_top: "run_EXE cfg po t = Inr t' \<Longrightarrow> top_step mo so po pk qk cfg t t'"
| MEM_top: "run_MEM cfg po t = Inr t' \<Longrightarrow> top_step mo so po pk qk cfg t t'"
| WB_top: "top_step mo so po pk qk cfg t (run_WB po t)"
| Sync_top: "top_step mo so po pk qk cfg t (runSyncPipeRegister po t)"

section \<open>Stages keep the order of packets\<close>

text \<open>
  The contract of a stage towards its registers, when errors stop the run: a step either leaves both alone, or takes the
  front packet and hands on that packet, having found room for it.
\<close>

locale passing_stage =
  fixes cfg :: sim_config
    and stage :: "nat option \<Rightarrow> bool \<Rightarrow> bool \<Rightarrow> 's \<Rightarrow> ('s \<times> stage_effect) result"
  assumes passes: "error_aborts cfg \<Longrightarrow> stage inp stalled acc s = Inr (s', e) \<Longrightarrow>
    \<not> popped e \<and> pushed e = None \<or> (\<exists>r. inp = Some r \<and> acc \<and> popped e \<and> pushed e = Some r)"
begin

lemma run_keeps_order:
  assumes "run_stage fr pop po stage x s q = Inr (x', s', q')"
    and "\<And>r. fr x = Some r \<Longrightarrow> pk x = r # pk (pop x)" "fifo_pipe po qk" "error_aborts cfg"
  shows "qk q' @ pk x' = qk q @ pk x"
proof -
  from assms(1) obtain e where st: "stage (fr x) (pr_isStalled po q) (case fr x of None \<Rightarrow> True | Some r \<Rightarrow> snd (pr_push po q r)) s = Inr (s', e)"
    and x': "x' = (if popped e then pop x else x)" and q': "q' = (case pushed e of None \<Rightarrow> q | Some r \<Rightarrow> fst (pr_push po q r))"
    by (auto simp: run_stage_def result_simps)
  from passes [OF assms(4) st] show ?thesis
    using assms(2,3) by (auto simp: x' q' fifo_pipe_def)
qed

end

lemmas pass_simps = no_effect_def wait_effect_def pass_effect_def push_out_def log_error_def result_simps

interpretation if_p: passing_stage cfg "if_step cfg hp" for cfg hp
  by unfold_locales
    (auto simp: if_step_def if_instPacketHandler_def pass_simps Let_def split: option.splits prod.splits if_splits)

interpretation id_p: passing_stage cfg "id_step cfg hp" for cfg hp
  by unfold_locales
    (auto simp: id_step_def id_instPacketHandler_def pass_simps Let_def split: option.splits prod.splits if_splits)

interpretation exe_p: passing_stage cfg "exe_step cfg hp" for cfg hp
  by unfold_locales
    (auto simp: exe_step_def exe_instPacketHandler_def pass_simps Let_def split: option.splits prod.splits if_splits)

interpretation mem_p: passing_stage cfg "mem_step cfg hp" for cfg hp
  by unfold_locales
    (auto simp: mem_step_def mem_instPacketHandler_def pass_simps Let_def split: option.splits prod.splits if_splits)

section \<open>Instructions retire in program order\<close>

text \<open>
  The instructions the reference executes, as the packets they should travel in: instruction,
  address, and whether control left the sequential path.
\<close>

fun isa_trace :: "instr list \<Rightarrow> nat \<Rightarrow> isa \<Rightarrow> inst_packet list result" where
  "isa_trace im 0 t = Inr []"
| "isa_trace im (Suc n) t =
     bindE (isa_trace im n t) (\<lambda>ps. bindE (isa_run im n t) (\<lambda>u.
     bindE (array_get ''imem'' im (int (unat (isa_pc u) div 4))) (\<lambda>i. bindE (isa_step i u) (\<lambda>u'.
       Inr (ps @ [\<lparr>ip_inst = i, ip_pc = isa_pc u, ip_taken = isa_pc u' \<noteq> isa_pc u + 4\<rparr>])))))"

definition top_inv :: "('p \<Rightarrow> nat list) \<Rightarrow> ('q \<Rightarrow> nat list) \<Rightarrow> instr list \<Rightarrow> isa \<Rightarrow> ('p, 'q) soc_top \<Rightarrow> bool" where
  "top_inv pk qk im t0 t \<longleftrightarrow>
     rv_tracks im t0 (t_soc t) \<and> distinct (in_flight pk qk t)
     \<and> isa_trace im (nat (rv_inst_cnt (t_soc t))) t0 = Inr (t_retired t @ map (rv_pool (t_soc t)) (in_flight pk qk t))"

text \<open>What a step that moves packets along, or retires the oldest one, must keep.\<close>

lemma top_inv_move:
  assumes "top_inv pk qk im t0 t" "rv_tracks im t0 (t_soc t')"
    and "rv_pool (t_soc t') = rv_pool (t_soc t)" "rv_inst_cnt (t_soc t') = rv_inst_cnt (t_soc t)"
    and "in_flight pk qk t = rs @ in_flight pk qk t'" "t_retired t' = t_retired t @ map (rv_pool (t_soc t)) rs"
  shows "top_inv pk qk im t0 t'"
  using assms unfolding top_inv_def by auto

lemma rv_tracks_port: "rv_tracks im t0 s \<Longrightarrow> rv_tracks im t0 (s\<lparr>rv_port := p\<rparr>)"
  by (auto simp: rv_tracks_def rv_abs_def split: option.splits)

lemma rv_exec_pool_other:
  assumes "rv_execOneInstr ops now r s = Inr s'" "x \<noteq> r"
  shows "rv_pool s' x = rv_pool s x"
proof -
  from assms(1) obtain i where "rv_fetchInstr s (rv_pc s) = Inr i" by (auto simp: rv_execOneInstr_def result_simps)
  from assms rv_exec_effect [OF this, of ops now r] show ?thesis by (auto simp: result_simps)
qed

lemma exec_inv:
  assumes "top_inv pk qk im t0 t" "fifo_port mo so pk" "regular_program im t0"
    and "rv_events (t_soc t) = now # es" "r \<notin> set (in_flight pk qk t)"
    and "rv_execOneInstr mo now r ((t_soc t)\<lparr>rv_events := es\<rparr>) = Inr s"
  shows "top_inv pk qk im t0 (t\<lparr>t_soc := s\<rparr>)"
proof -
  let ?c = "t_soc t" and ?d = "(t_soc t)\<lparr>rv_events := es\<rparr>"
  have tr: "rv_tracks im t0 ?c" using assms(1) by (simp add: top_inv_def)
  then have c: "rv_imem ?c = im" "length (rv_rf ?c) = 32" "rv_pending ?c = None" "0 \<le> rv_inst_cnt ?c"
    "isa_run im (nat (rv_inst_cnt ?c)) t0 = Inr (rv_abs ?c)"
    using assms(4) by (auto simp: rv_tracks_def split: if_splits)
  obtain i where i: "rv_fetchInstr ?d (rv_pc ?d) = Inr i"
    using assms(6) by (auto simp: rv_execOneInstr_def result_simps)
  have abs: "rv_abs ?d = rv_abs ?c" by (simp add: rv_abs_def)
  have get: "array_get ''imem'' im (int (unat (isa_pc (rv_abs ?c)) div 4)) = Inr i"
    using i c(1) by (simp add: rv_fetchInstr_def rv_abs_def)
  have "rv_regular (rv_abs ?d) i" using assms(3) c(5) get unfolding regular_program_def abs by blast
  from rv_exec_isa [OF _ i this, of mo now r] assms(6) c(2)
  have step: "isa_step i (rv_abs ?c) = Inr (rv_abs s)"
    and s: "rv_pool s r = (rv_pool ?c r)\<lparr>ip_inst := i, ip_pc := rv_pc ?c, ip_taken := rv_pc s \<noteq> rv_pc ?c + 4\<rparr>"
      "rv_inst_cnt s = rv_inst_cnt ?c + 1" "rv_port s = fst (mp_push mo (rv_port ?c) r)"
      "rv_pending s = (if snd (mp_push mo (rv_port ?c) r) then None else Some r)"
    using c(3) abs by (auto split: if_splits)
  have fl: "in_flight pk qk (t\<lparr>t_soc := s\<rparr>) = in_flight pk qk t @ [r]"
    using s(3,4) c(3) assms(2) by (auto simp: in_flight_def fifo_port_def)
  have other: "x \<noteq> r \<Longrightarrow> rv_pool s x = rv_pool ?c x" for x using rv_exec_pool_other [OF assms(6)] by simp
  have "map (rv_pool s) (in_flight pk qk t) = map (rv_pool ?c) (in_flight pk qk t)"
    using other assms(5) by (intro map_cong) (simp, metis)
  moreover have "rv_pool s r = \<lparr>ip_inst = i, ip_pc = rv_pc ?c, ip_taken = rv_pc s \<noteq> rv_pc ?c + 4\<rparr>"
    unfolding s(1) by (cases "rv_pool ?c r") simp
  moreover have "nat (rv_inst_cnt s) = Suc (nat (rv_inst_cnt ?c))" using s(2) c(4) by simp
  ultimately have "isa_trace im (nat (rv_inst_cnt s)) t0 = Inr (t_retired t @ map (rv_pool s) (in_flight pk qk (t\<lparr>t_soc := s\<rparr>)))"
    using assms(1) c(5) get step fl by (simp add: top_inv_def rv_abs_def)
  moreover have "rv_tracks im t0 s" by (rule rv_tracks_exec [OF tr assms(4,6,3)])
  ultimately show ?thesis using assms(1,5) fl by (simp add: top_inv_def)
qed

lemma retry_inv:
  assumes "top_inv pk qk im t0 t" "fifo_port mo so pk" "rv_masterPortRetry mo cfg now ''sIF-m'' (t_soc t) = Inr s"
  shows "top_inv pk qk im t0 (t\<lparr>t_soc := s\<rparr>)"
proof (rule top_inv_move [OF assms(1), where rs = "[]"])
  show "rv_tracks im t0 (t_soc (t\<lparr>t_soc := s\<rparr>))"
    using assms(1,3) rv_tracks_retry by (simp add: top_inv_def) blast
  have "rv_pool s = rv_pool (t_soc t) \<and> rv_inst_cnt s = rv_inst_cnt (t_soc t) \<and> in_flight pk qk t = in_flight pk qk (t\<lparr>t_soc := s\<rparr>)"
  proof (cases "rv_pending (t_soc t)")
    case None
    then show ?thesis using assms(3) by (auto simp: rv_masterPortRetry_def retrySendInstPacket_def in_flight_def)
  next
    case (Some r)
    obtain p ok where "mp_push mo (rv_port (t_soc t)) r = (p, ok)" by fastforce
    moreover from this have "pk p = (if ok then pk (rv_port (t_soc t)) @ [r] else pk (rv_port (t_soc t)))"
      using assms(2) by (metis fifo_port_def fst_conv snd_conv)
    ultimately show ?thesis using assms(3) Some
      by (auto simp: rv_masterPortRetry_def retrySendInstPacket_def in_flight_def log_error_def split: if_splits)
  qed
  then show "rv_pool (t_soc (t\<lparr>t_soc := s\<rparr>)) = rv_pool (t_soc t)" "rv_inst_cnt (t_soc (t\<lparr>t_soc := s\<rparr>)) = rv_inst_cnt (t_soc t)"
    "in_flight pk qk t = [] @ in_flight pk qk (t\<lparr>t_soc := s\<rparr>)" by simp_all
qed simp

lemma stage_inv:
  assumes "top_inv pk qk im t0 t" "fifo_port mo so pk" "fifo_pipe po qk" "error_aborts cfg"
    and "run_IF cfg so po t = Inr t' \<or> run_ID cfg po t = Inr t' \<or> run_EXE cfg po t = Inr t' \<or> run_MEM cfg po t = Inr t'"
  shows "top_inv pk qk im t0 t'"
proof (rule top_inv_move [OF assms(1), where rs = "[]"])
  have port: "sp_front so p = Some r \<Longrightarrow> pk p = r # pk (sp_pop so p)" for p r using assms(2) by (simp add: fifo_port_def)
  have pipe: "pr_front po q = Some r \<Longrightarrow> qk q = r # qk (pr_pop po q)" for q r using assms(3) by (simp add: fifo_pipe_def)
  have ord: "in_flight pk qk t = in_flight pk qk t'" "t_soc t' = (t_soc t)\<lparr>rv_port := rv_port (t_soc t')\<rparr>" "t_retired t' = t_retired t"
    using assms(5)
    by (auto simp: run_IF_def run_ID_def run_EXE_def run_MEM_def in_flight_def result_simps
        dest!: if_p.run_keeps_order [where pk = pk, OF _ port assms(3,4)] id_p.run_keeps_order [where pk = qk, OF _ pipe assms(3,4)]
          exe_p.run_keeps_order [where pk = qk, OF _ pipe assms(3,4)] mem_p.run_keeps_order [where pk = qk, OF _ pipe assms(3,4)])
  then show "in_flight pk qk t = [] @ in_flight pk qk t'" "t_retired t' = t_retired t @ map (rv_pool (t_soc t)) []" by simp_all
  show "rv_tracks im t0 (t_soc t')" "rv_pool (t_soc t') = rv_pool (t_soc t)" "rv_inst_cnt (t_soc t') = rv_inst_cnt (t_soc t)"
    using assms(1) by (subst ord(2); simp add: top_inv_def rv_tracks_port)+
qed

lemma wb_inv:
  assumes "top_inv pk qk im t0 t" "fifo_pipe po qk"
  shows "top_inv pk qk im t0 (run_WB po t)"
proof (cases "pr_front po (prMEM2WB t)")
  case None
  then have "run_WB po t = t" by (simp add: run_WB_def wb_step_def)
  then show ?thesis using assms(1) by simp
next
  case (Some r)
  then have "in_flight pk qk t = [r] @ in_flight pk qk (run_WB po t)"
    using assms(2) by (simp add: in_flight_def run_WB_def wb_step_def fifo_pipe_def)
  then show ?thesis
    using assms(1) Some
    by (intro top_inv_move [OF assms(1), of "run_WB po t" "[r]"]) (simp_all add: run_WB_def wb_step_def top_inv_def)
qed

lemma sync_inv:
  assumes "top_inv pk qk im t0 t" "fifo_pipe po qk"
  shows "top_inv pk qk im t0 (runSyncPipeRegister po t)"
  using assms(1)
  by (intro top_inv_move [OF assms(1), of "runSyncPipeRegister po t" "[]"])
    (use assms(2) in \<open>simp_all add: runSyncPipeRegister_def sync_reg_def in_flight_def fifo_pipe_def top_inv_def\<close>)

lemma top_step_inv:
  assumes "top_step mo so po pk qk cfg t t'" "top_inv pk qk im t0 t"
    and "fifo_port mo so pk" "fifo_pipe po qk" "error_aborts cfg" "regular_program im t0"
  shows "top_inv pk qk im t0 t'"
  using assms(1)
proof cases
  case (Exec_top now es r s)
  then show ?thesis using exec_inv assms(2,3,6) by blast
next
  case (Retry_top now s)
  then show ?thesis using retry_inv assms(2,3) by blast
qed (use stage_inv [OF assms(2-5)] wb_inv [OF assms(2,4)] sync_inv [OF assms(2,4)] in blast)+

text \<open>At the start: the core is loaded and has its trigger event, nothing is in flight.\<close>

definition top_start :: "('p \<Rightarrow> nat list) \<Rightarrow> ('q \<Rightarrow> nat list) \<Rightarrow> ('p, 'q) soc_top \<Rightarrow> bool" where
  "top_start pk qk t \<longleftrightarrow>
     length (rv_rf (t_soc t)) = 32 \<and> rv_inst_cnt (t_soc t) = 0 \<and> length (rv_events (t_soc t)) = 1 \<and> rv_pending (t_soc t) = None
     \<and> in_flight pk qk t = [] \<and> t_retired t = []"

lemma top_start_inv: "top_start pk qk t \<Longrightarrow> top_inv pk qk (rv_imem (t_soc t)) (rv_abs (t_soc t)) t"
  by (auto simp: top_start_def top_inv_def rv_tracks_def)

text \<open>
  C4: for a regular program (see \<open>regular_program\<close>: the instructions the reference executes contain no
  \<open>SLTU\<close>, \<open>MUL\<close> or SIMD operation, name registers below 32, write no result to \<open>x0\<close>, shift by less than 32,
  and a \<open>JALR\<close> does not write its own base), in every run of the pipeline, with the simulators stepped in
  any order and however often, the packets that have left the write-back stage, followed by the packets still in the pipeline
  from the oldest to the youngest, are exactly the instructions that the RV32I reference executes,
  in its order, each with its address and whether it was a taken branch: no instruction is lost,
  duplicated, overtaken or seen with the contents of another. When the core is at rest and the
  pipeline is empty, the whole program up to its \<open>HCF\<close> has retired. Ports and registers are
  assumed to keep packets in order and the packet container not to hand out a packet in use.
\<close>

theorem pipeline_retires_in_order:
  assumes "(top_step mo so po pk qk cfg)\<^sup>*\<^sup>* t t'" "top_start pk qk t"
    and "fifo_port mo so pk" "fifo_pipe po qk" "error_aborts cfg"
    and "regular_program (rv_imem (t_soc t)) (rv_abs (t_soc t))"
  shows "isa_trace (rv_imem (t_soc t)) (nat (rv_inst_cnt (t_soc t'))) (rv_abs (t_soc t))
      = Inr (t_retired t' @ map (rv_pool (t_soc t')) (in_flight pk qk t'))
    \<and> distinct (in_flight pk qk t')
    \<and> isa_run (rv_imem (t_soc t)) (nat (rv_inst_cnt (t_soc t'))) (rv_abs (t_soc t)) = Inr (rv_abs (t_soc t'))
    \<and> (rv_events (t_soc t') = [] \<and> in_flight pk qk t' = [] \<longrightarrow>
         (\<exists>ps p. t_retired t' = ps @ [p] \<and> i_op (ip_inst p) = HCF))"
proof -
  let ?im = "rv_imem (t_soc t)" and ?u = "rv_abs (t_soc t)"
  have inv: "top_inv pk qk ?im ?u t'"
    using assms(1)
  proof (induction rule: rtranclp_induct)
    case base
    then show ?case by (rule top_start_inv [OF assms(2)])
  next
    case (step y z)
    then show ?case using top_step_inv assms(3-6) by blast
  qed
  then have tr: "rv_tracks ?im ?u (t_soc t')" and eq: "isa_trace ?im (nat (rv_inst_cnt (t_soc t'))) ?u
      = Inr (t_retired t' @ map (rv_pool (t_soc t')) (in_flight pk qk t'))"
    by (simp_all add: top_inv_def)
  have "\<exists>ps p. t_retired t' = ps @ [p] \<and> i_op (ip_inst p) = HCF" if "rv_events (t_soc t') = []" "in_flight pk qk t' = []"
  proof -
    have "rv_pending (t_soc t') = None" using that(2) by (auto simp: in_flight_def split: option.splits)
    with tr that(1) obtain n i where n: "nat (rv_inst_cnt (t_soc t')) = Suc n" "last_instr ?im ?u n i" "i_op i = HCF"
      by (auto simp: rv_tracks_def gr0_conv_Suc dest!: zero_less_imp_eq_int)
    then show ?thesis using eq that(2) by (auto simp: last_instr_def result_simps dest!: sym [where t = "t_retired t'"])
  qed
  then show ?thesis using inv eq tr by (simp add: top_inv_def rv_tracks_def)
qed

text \<open>A port of one packet, and a register of one visible and one incoming packet, moved up by \<open>sync\<close>.\<close>

definition slot_slave :: "nat list slave_ops" where
  "slot_slave = \<lparr>sp_front = (\<lambda>q. case q of [] \<Rightarrow> None | r # _ \<Rightarrow> Some r), sp_pop = tl\<rparr>"

type_synonym latch = "nat option \<times> nat option"

definition latch_ops :: "latch pipe_ops" where
  "latch_ops = \<lparr>pr_front = fst, pr_pop = (\<lambda>(v, w). (None, w)), pr_isStalled = (\<lambda>(v, w). w \<noteq> None),
     pr_push = (\<lambda>(v, w) r. if w = None then ((v, Some r), True) else ((v, w), False)),
     pr_sync = (\<lambda>(v, w). if v = None then (w, None) else (v, w)), pr_clearStallFlag = (\<lambda>q. q)\<rparr>"

definition latch_packets :: "latch \<Rightarrow> nat list" where
  "latch_packets q = (case q of (v, w) \<Rightarrow>
     (case v of None \<Rightarrow> [] | Some r \<Rightarrow> [r]) @ (case w of None \<Rightarrow> [] | Some r \<Rightarrow> [r]))"

lemma slot_fifo: "fifo_port rv_slot_ops slot_slave (\<lambda>q. q)"
  by (auto simp: fifo_port_def rv_slot_ops_def slot_slave_def split: list.splits)

lemma latch_fifo: "fifo_pipe latch_ops latch_packets"
  by (auto simp: fifo_pipe_def latch_ops_def latch_packets_def split: option.splits)

definition ex_top :: "(nat list, latch) soc_top" where
  "ex_top = registerSimulators ex_rv (None, None)"

abbreviation ex_top_step :: "(nat list, latch) soc_top \<Rightarrow> (nat list, latch) soc_top \<Rightarrow> bool" where
  "ex_top_step \<equiv> top_step rv_slot_ops slot_slave latch_ops (\<lambda>q. q) latch_packets default_config"

text \<open>The first instruction of the program travels through the five stages.\<close>

lemma ex_top_run:
  "\<exists>t. ex_top_step\<^sup>*\<^sup>* ex_top t \<and> rv_inst_cnt (t_soc t) = 1 \<and> length (t_retired t) = 1
    \<and> in_flight (\<lambda>q. q) latch_packets t = []"
proof -
  let ?i = "rv_prog ! 0" and ?s = "ex_rv\<lparr>rv_events := []\<rparr>"
  have abs: "rv_abs ?s = rv_abs ex_rv" by (simp add: rv_abs_def)
  have fetch: "rv_fetchInstr ?s (rv_pc ?s) = Inr ?i" by (simp add: rv_fetchInstr_def ex_rv_def rv_prog_def)
  have "rv_regular (rv_abs ?s) ?i" unfolding abs
    by (simp add: rv_regular_def isa_regular_def rv_prog_def rv_reg_def rv_imm_def reg_ok_def op_class_defs reads_rs1_def writes_rd_def blank_instr_def)
  note exec = rv_exec_isa [OF _ fetch this, of rv_slot_ops 1 0]
  have "\<exists>u. isa_step ?i (rv_abs ex_rv) = Inr u" by (simp add: isa_step_def rv_prog_def op_class_defs Let_def)
  with exec abs obtain s where s: "rv_execOneInstr rv_slot_ops 1 0 ?s = Inr s" "rv_inst_cnt s = 1" "rv_port s = [0]"
    "rv_pending s = None" "ip_inst (rv_pool s 0) = ?i"
    by (auto simp: result_simps ex_rv_def rv_slot_ops_def)
  have op: "i_op (ip_inst (rv_pool s 0)) = ADDI" by (simp add: s(5) rv_prog_def)
  note defs = ex_top_def registerSimulators_def if_new_def id_new_def exe_new_def mem_new_stage_def
  note run = run_stage_def latch_ops_def slot_slave_def deref_def hazard_check_def mem_stall_def is_MemPacket_def
    push_out_def pass_effect_def depends_on_def checkRAW_def packet_rd_def
  let ?t1 = "ex_top\<lparr>t_soc := s\<rparr>"
  let ?t2 = "?t1\<lparr>t_soc := s\<lparr>rv_port := []\<rparr>, t_sIF := if_new\<lparr>if_ID := Some 0\<rparr>, prIF2ID := (None, Some 0)\<rparr>"
  let ?t3 = "?t2\<lparr>prIF2ID := (Some 0, None)\<rparr>"
  let ?t4 = "?t3\<lparr>prIF2ID := (None, None), t_sID := id_new\<lparr>id_EXE := Some 0\<rparr>, prID2EXE := (None, Some 0)\<rparr>"
  let ?t5 = "?t4\<lparr>prID2EXE := (Some 0, None)\<rparr>"
  let ?t6 = "?t5\<lparr>prID2EXE := (None, None), t_sEXE := exe_new\<lparr>exe_MEM := Some 0\<rparr>, prEXE2MEM := (None, Some 0)\<rparr>"
  let ?t7 = "?t6\<lparr>prEXE2MEM := (Some 0, None)\<rparr>"
  let ?t8 = "?t7\<lparr>prEXE2MEM := (None, None), t_sMEM := mem_new_stage\<lparr>mem_WB := Some 0\<rparr>, prMEM2WB := (None, Some 0)\<rparr>"
  let ?t9 = "?t8\<lparr>prMEM2WB := (Some 0, None)\<rparr>"
  let ?t10 = "run_WB latch_ops ?t9"
  have sync: "?t3 = runSyncPipeRegister latch_ops ?t2" "?t5 = runSyncPipeRegister latch_ops ?t4"
    "?t7 = runSyncPipeRegister latch_ops ?t6" "?t9 = runSyncPipeRegister latch_ops ?t8"
    by (simp_all add: runSyncPipeRegister_def sync_reg_def latch_ops_def ex_top_def registerSimulators_def)
  have sync_step: "ex_top_step t t'" if "t' = runSyncPipeRegister latch_ops t" for t t'
    unfolding that by (rule Sync_top)
  have "ex_top_step ex_top ?t1"
    using s(1) by (intro Exec_top [where now = 1 and es = "[]" and r = 0]) (simp_all add: ex_top_def registerSimulators_def ex_rv_def in_flight_def latch_packets_def)
  moreover have "ex_top_step ?t1 ?t2"
    by (rule IF_top) (simp add: defs s run run_IF_def if_step_def if_flush_def if_instPacketHandler_def)
  moreover have "ex_top_step ?t2 ?t3" by (rule sync_step [OF sync(1)])
  moreover have "ex_top_step ?t3 ?t4"
    by (rule ID_top) (simp add: defs s run run_ID_def id_step_def id_instPacketHandler_def)
  moreover have "ex_top_step ?t4 ?t5" by (rule sync_step [OF sync(2)])
  moreover have "ex_top_step ?t5 ?t6"
    by (rule EXE_top) (simp add: defs s run run_EXE_def exe_step_def exe_instPacketHandler_def)
  moreover have "ex_top_step ?t6 ?t7" by (rule sync_step [OF sync(3)])
  moreover have "ex_top_step ?t7 ?t8"
    by (rule MEM_top) (simp add: defs op run run_MEM_def mem_step_def mem_instPacketHandler_def)
  moreover have "ex_top_step ?t8 ?t9" by (rule sync_step [OF sync(4)])
  moreover have "ex_top_step ?t9 ?t10" by (rule WB_top)
  ultimately have "ex_top_step\<^sup>*\<^sup>* ex_top ?t10" by (meson rtranclp.rtrancl_refl converse_rtranclp_into_rtranclp)
  moreover have "rv_inst_cnt (t_soc ?t10) = 1" "length (t_retired ?t10) = 1" "in_flight (\<lambda>q. q) latch_packets ?t10 = []"
    by (simp_all add: run_WB_def wb_step_def latch_ops_def s(2,4) in_flight_def latch_packets_def ex_top_def registerSimulators_def)
  ultimately show ?thesis by blast
qed

theorem pipeline_retires_in_order_witness:
  "\<exists>t. ex_top_step\<^sup>*\<^sup>* ex_top t \<and> isa_trace rv_prog 1 (rv_abs ex_rv) = Inr (t_retired t) \<and> length (t_retired t) = 1"
proof -
  obtain t where t: "ex_top_step\<^sup>*\<^sup>* ex_top t" "rv_inst_cnt (t_soc t) = 1" "length (t_retired t) = 1"
    "in_flight (\<lambda>q. q) latch_packets t = []"
    using ex_top_run by blast
  have top: "t_soc ex_top = ex_rv" "rv_imem ex_rv = rv_prog" by (simp_all add: ex_top_def registerSimulators_def ex_rv_def)
  have start: "top_start (\<lambda>q. q) latch_packets ex_top"
    by (simp add: top_start_def in_flight_def latch_packets_def ex_top_def registerSimulators_def ex_rv_def)
  have err: "error_aborts default_config" by (simp add: default_config_def)
  have "regular_program (rv_imem (t_soc ex_top)) (rv_abs (t_soc ex_top))" using ex_rv_regular by (simp add: top)
  from pipeline_retires_in_order [OF t(1) start slot_fifo latch_fifo err this] t show ?thesis
    by (auto simp: top)
qed

section \<open>The loaded system\<close>


lemma rv_tiny_assembles:
  "\<exists>st. bindE (rv_parse tiny_config (Some ''x: beqz ra x'') (emulator_new tiny_config (replicate 16 0) (replicate 2 blank_instr)))
      (normalize_labels tiny_config) = Inr st \<and> i_op (em_imem st ! 0) = BEQ"
proof -
  have low: "map tolower_char ''x: beqz ra x'' = ''x: beqz ra x''" by (simp add: tolower_char_def)
  have "read_lines 1023 ''x: beqz ra x'' = [''x: beqz ra x'']" by (rule read_lines_one) simp_all
  moreover have "base_line ''x: beqz ra x''"
    unfolding base_line_def line_mnemonic_def low by (simp add: strtok_def line_delims_def extension_mnemonics_def)
  ultimately have "\<forall>l \<in> set (read_lines 1023 ''x: beqz ra x''). base_line l" by simp
  then show ?thesis using tiny_assembles by (simp add: rv_parse_eq)
qed


section \<open>The pipeline never blocks\<close>

text \<open>
  What progress needs of ports and registers: a port that is empty takes a packet and one that is
  not shows it; after synchronisation an empty register takes a packet and shows the one it has.
\<close>

definition live_port :: "'p port_ops \<Rightarrow> 'p slave_ops \<Rightarrow> ('p \<Rightarrow> nat list) \<Rightarrow> bool" where
  "live_port mo so pk \<longleftrightarrow>
     (\<forall>p r. pk p = [] \<longrightarrow> snd (mp_push mo p r)) \<and> (\<forall>p. pk p \<noteq> [] \<longrightarrow> sp_front so p \<noteq> None)"

definition live_pipe :: "'q pipe_ops \<Rightarrow> ('q \<Rightarrow> nat list) \<Rightarrow> bool" where
  "live_pipe po qk \<longleftrightarrow>
     (\<forall>q. qk q = [] \<longrightarrow> \<not> pr_isStalled po (sync_reg po q) \<and> (\<forall>r. snd (pr_push po (sync_reg po q) r)))
     \<and> (\<forall>q. qk q \<noteq> [] \<longrightarrow> pr_front po (sync_reg po q) \<noteq> None)"

text \<open>A stage that waits and then passes its packet on, as a run of the system around it.\<close>

lemma wait_then_pass:
  assumes "stage_steps f (Suc n) s = Inr (s', replicate n wait_effect @ [pass_effect r])"
    and "\<And>s s'. f s = Inr (s', wait_effect) \<Longrightarrow> R (g s) (g s')" "\<And>s s'. f s = Inr (s', pass_effect r) \<Longrightarrow> R (g s) (h s')"
  shows "\<exists>s'. R\<^sup>*\<^sup>* (g s) (h s')"
  using assms(1)
proof (induction n arbitrary: s)
  case 0
  then show ?case using assms(3) by (auto simp: result_simps)
next
  case (Suc n)
  from Suc.prems [unfolded stage_steps.simps(2) [of f "Suc n"]]
  obtain s1 where s1: "f s = Inr (s1, wait_effect)" "stage_steps f (Suc n) s1 = Inr (s', replicate n wait_effect @ [pass_effect r])"
    by (auto simp: result_simps simp del: stage_steps.simps)
  then show ?case using Suc.IH [OF s1(2)] assms(2) by (meson converse_rtranclp_into_rtranclp)
qed

text \<open>
  From \<open>t\<close> to \<open>t'\<close> the oldest packets have retired, the others are still in flight in their order,
  and the core has executed nothing.
\<close>

definition drains :: "('p \<Rightarrow> nat list) \<Rightarrow> ('q \<Rightarrow> nat list) \<Rightarrow> ('p, 'q) soc_top \<Rightarrow> ('p, 'q) soc_top \<Rightarrow> bool" where
  "drains pk qk t t' \<longleftrightarrow>
     (\<exists>rs. in_flight pk qk t = rs @ in_flight pk qk t' \<and> t_retired t' = t_retired t @ map (rv_pool (t_soc t)) rs)
     \<and> rv_pool (t_soc t') = rv_pool (t_soc t) \<and> rv_abs (t_soc t') = rv_abs (t_soc t)
     \<and> rv_inst_cnt (t_soc t') = rv_inst_cnt (t_soc t)"

lemma drains_refl: "drains pk qk t t"
  by (auto simp: drains_def)

lemma drains_trans: "drains pk qk t u \<Longrightarrow> drains pk qk u v \<Longrightarrow> drains pk qk t v"
  unfolding drains_def by (elim conjE exE) (metis append.assoc map_append)

text \<open>How far the packets still have to go.\<close>

definition to_go :: "('p \<Rightarrow> nat list) \<Rightarrow> ('q \<Rightarrow> nat list) \<Rightarrow> ('p, 'q) soc_top \<Rightarrow> nat" where
  "to_go pk qk t = length (qk (prMEM2WB t)) + 2 * length (qk (prEXE2MEM t)) + 3 * length (qk (prID2EXE t))
     + 4 * length (qk (prIF2ID t)) + 5 * length (pk (rv_port (t_soc t))) + (if rv_pending (t_soc t) = None then 0 else 6)"

lemma sync_contents:
  assumes "fifo_pipe po qk"
  shows "qk (sync_reg po q) = qk q" "drains pk qk t (runSyncPipeRegister po t)" "to_go pk qk (runSyncPipeRegister po t) = to_go pk qk t"
proof -
  show qk: "qk (sync_reg po q) = qk q" for q using assms by (simp add: sync_reg_def fifo_pipe_def)
  show "drains pk qk t (runSyncPipeRegister po t)" "to_go pk qk (runSyncPipeRegister po t) = to_go pk qk t"
    by (simp_all add: drains_def runSyncPipeRegister_def in_flight_def to_go_def qk)
qed

lemma wb_drains:
  assumes "fifo_pipe po qk" "pr_front po (prMEM2WB t) \<noteq> None"
  shows "drains pk qk t (run_WB po t) \<and> to_go pk qk (run_WB po t) < to_go pk qk t"
proof -
  from assms(2) obtain r where r: "pr_front po (prMEM2WB t) = Some r" by blast
  with assms(1) have "qk (prMEM2WB t) = r # qk (pr_pop po (prMEM2WB t))" by (simp add: fifo_pipe_def)
  with r show ?thesis
    by (auto simp: drains_def in_flight_def run_WB_def wb_step_def to_go_def intro!: exI [of _ "[r]"])
qed

lemma stage_drains:
  assumes "\<exists>n \<le> d. \<exists>s'. stage_steps f (Suc n) s = Inr (s', replicate n wait_effect @ [pass_effect r])"
    and "\<And>s s'. f s = Inr (s', wait_effect) \<Longrightarrow> R (g s) (g s')" "\<And>s s'. f s = Inr (s', pass_effect r) \<Longrightarrow> R (g s) (h s')"
    and "g s = t" "\<And>s. drains pk qk t (h s) \<and> to_go pk qk (h s) < to_go pk qk t"
  shows "\<exists>t'. R\<^sup>*\<^sup>* t t' \<and> drains pk qk t t' \<and> to_go pk qk t' < to_go pk qk t"
proof -
  obtain n s1 where "stage_steps f (Suc n) s = Inr (s1, replicate n wait_effect @ [pass_effect r])" using assms(1) by blast
  from wait_then_pass [where R = R and g = g and h = h, OF this assms(2,3)] obtain s' where "R\<^sup>*\<^sup>* (g s) (h s')" by blast
  then show ?thesis using assms(4,5) by blast
qed

lemmas drains_simps = drains_def in_flight_def to_go_def fifo_pipe_def fifo_port_def rv_abs_def

lemma mem_drains:
  assumes "fifo_pipe po qk" "pr_front po (prEXE2MEM t) = Some r" "\<not> pr_isStalled po (prMEM2WB t)" "snd (pr_push po (prMEM2WB t) r)"
  shows "\<exists>t'. (top_step mo so po pk qk cfg)\<^sup>*\<^sup>* t t' \<and> drains pk qk t t' \<and> to_go pk qk t' < to_go pk qk t"
proof (rule stage_drains [OF mem_w.passes_within])
  let ?f = "mem_step cfg (rv_pool (t_soc t)) (Some r) False True" and ?g = "\<lambda>s. t\<lparr>t_sMEM := s\<rparr>"
  let ?h = "\<lambda>s. t\<lparr>prEXE2MEM := pr_pop po (prEXE2MEM t), t_sMEM := s, prMEM2WB := fst (pr_push po (prMEM2WB t) r)\<rparr>"
  show "?g (t_sMEM t) = t" by simp
  show "top_step mo so po pk qk cfg (?g s) (?g s')" if "?f s = Inr (s', wait_effect)" for s s'
    by (rule MEM_top) (use that assms(2-4) in \<open>simp add: run_MEM_def run_stage_def wait_effect_def\<close>)
  show "top_step mo so po pk qk cfg (?g s) (?h s')" if "?f s = Inr (s', pass_effect r)" for s s'
    by (rule MEM_top) (use that assms(2-4) in \<open>simp add: run_MEM_def run_stage_def pass_effect_def\<close>)
  show "drains pk qk t (?h s) \<and> to_go pk qk (?h s) < to_go pk qk t" for s
    using assms by (auto simp: drains_simps)
qed

lemma exe_drains:
  assumes "fifo_pipe po qk" "pr_front po (prID2EXE t) = Some r" "\<not> pr_isStalled po (prEXE2MEM t)" "snd (pr_push po (prEXE2MEM t) r)"
  shows "\<exists>t'. (top_step mo so po pk qk cfg)\<^sup>*\<^sup>* t t' \<and> drains pk qk t t' \<and> to_go pk qk t' < to_go pk qk t"
proof (rule stage_drains [OF exe_w.passes_within])
  let ?f = "exe_step cfg (rv_pool (t_soc t)) (Some r) False True" and ?g = "\<lambda>s. t\<lparr>t_sEXE := s\<rparr>"
  let ?h = "\<lambda>s. t\<lparr>prID2EXE := pr_pop po (prID2EXE t), t_sEXE := s, prEXE2MEM := fst (pr_push po (prEXE2MEM t) r)\<rparr>"
  show "?g (t_sEXE t) = t" by simp
  show "top_step mo so po pk qk cfg (?g s) (?g s')" if "?f s = Inr (s', wait_effect)" for s s'
    by (rule EXE_top) (use that assms(2-4) in \<open>simp add: run_EXE_def run_stage_def wait_effect_def\<close>)
  show "top_step mo so po pk qk cfg (?g s) (?h s')" if "?f s = Inr (s', pass_effect r)" for s s'
    by (rule EXE_top) (use that assms(2-4) in \<open>simp add: run_EXE_def run_stage_def pass_effect_def\<close>)
  show "drains pk qk t (?h s) \<and> to_go pk qk (?h s) < to_go pk qk t" for s
    using assms by (auto simp: drains_simps)
qed

lemma id_drains:
  assumes "fifo_pipe po qk" "pr_front po (prIF2ID t) = Some r" "\<not> pr_isStalled po (prID2EXE t)" "snd (pr_push po (prID2EXE t) r)"
  shows "\<exists>t'. (top_step mo so po pk qk cfg)\<^sup>*\<^sup>* t t' \<and> drains pk qk t t' \<and> to_go pk qk t' < to_go pk qk t"
proof (rule stage_drains [OF id_w.passes_within])
  let ?f = "id_step cfg (rv_pool (t_soc t)) (Some r) False True" and ?g = "\<lambda>s. t\<lparr>t_sID := s\<rparr>"
  let ?h = "\<lambda>s. t\<lparr>prIF2ID := pr_pop po (prIF2ID t), t_sID := s, prID2EXE := fst (pr_push po (prID2EXE t) r)\<rparr>"
  show "?g (t_sID t) = t" by simp
  show "top_step mo so po pk qk cfg (?g s) (?g s')" if "?f s = Inr (s', wait_effect)" for s s'
    by (rule ID_top) (use that assms(2-4) in \<open>simp add: run_ID_def run_stage_def wait_effect_def\<close>)
  show "top_step mo so po pk qk cfg (?g s) (?h s')" if "?f s = Inr (s', pass_effect r)" for s s'
    by (rule ID_top) (use that assms(2-4) in \<open>simp add: run_ID_def run_stage_def pass_effect_def\<close>)
  show "drains pk qk t (?h s) \<and> to_go pk qk (?h s) < to_go pk qk t" for s
    using assms by (auto simp: drains_simps)
qed

lemma if_drains:
  assumes "fifo_pipe po qk" "sp_front so (rv_port (t_soc t)) = Some r" "\<not> pr_isStalled po (prIF2ID t)" "snd (pr_push po (prIF2ID t) r)" "fifo_port mo so pk"
  shows "\<exists>t'. (top_step mo so po pk qk cfg)\<^sup>*\<^sup>* t t' \<and> drains pk qk t t' \<and> to_go pk qk t' < to_go pk qk t"
proof (rule stage_drains [OF if_w.passes_within])
  let ?f = "if_step cfg (rv_pool (t_soc t)) (Some r) False True" and ?g = "\<lambda>s. t\<lparr>t_sIF := s\<rparr>"
  let ?h = "\<lambda>s. t\<lparr>t_soc := (t_soc t)\<lparr>rv_port := sp_pop so (rv_port (t_soc t))\<rparr>, t_sIF := s, prIF2ID := fst (pr_push po (prIF2ID t) r)\<rparr>"
  show "?g (t_sIF t) = t" by simp
  show "top_step mo so po pk qk cfg (?g s) (?g s')" if "?f s = Inr (s', wait_effect)" for s s'
    by (rule IF_top) (use that assms(2-4) in \<open>simp add: run_IF_def run_stage_def wait_effect_def\<close>)
  show "top_step mo so po pk qk cfg (?g s) (?h s')" if "?f s = Inr (s', pass_effect r)" for s s'
    by (rule IF_top) (use that assms(2-4) in \<open>simp add: run_IF_def run_stage_def pass_effect_def\<close>)
  show "drains pk qk t (?h s) \<and> to_go pk qk (?h s) < to_go pk qk t" for s
    using assms by (auto simp: drains_simps)
qed

lemma retry_drains:
  assumes "fifo_port mo so pk" "live_port mo so pk" "rv_pending (t_soc t) = Some r" "pk (rv_port (t_soc t)) = []"
  shows "\<exists>t'. (top_step mo so po pk qk cfg)\<^sup>*\<^sup>* t t' \<and> drains pk qk t t' \<and> to_go pk qk t' < to_go pk qk t"
proof -
  obtain p ok where push: "mp_push mo (rv_port (t_soc t)) r = (p, ok)" by fastforce
  have ok: "ok" "pk p = [r]" using assms(1,2,4) push by (simp_all add: live_port_def fifo_port_def) (metis fst_conv snd_conv append_Nil)+
  obtain s where s: "rv_masterPortRetry mo cfg 0 ''sIF-m'' (t_soc t) = Inr s" "rv_port s = p" "rv_pending s = None"
    "rv_pool s = rv_pool (t_soc t)" "rv_inst_cnt s = rv_inst_cnt (t_soc t)" "rv_abs s = rv_abs (t_soc t)"
    using assms(3) push ok(1)
    by (cases "i_op (ip_inst (rv_pool (t_soc t) r)) = HCF") (auto simp: rv_masterPortRetry_def retrySendInstPacket_def rv_abs_def)
  from s(1) have "top_step mo so po pk qk cfg t (t\<lparr>t_soc := s\<rparr>)" by (rule Retry_top)
  moreover have "drains pk qk t (t\<lparr>t_soc := s\<rparr>) \<and> to_go pk qk (t\<lparr>t_soc := s\<rparr>) < to_go pk qk t"
    using s ok assms(3,4) by (auto simp: drains_def in_flight_def to_go_def)
  ultimately show ?thesis by blast
qed

lemma one_drains:
  assumes "fifo_port mo so pk" "live_port mo so pk" "fifo_pipe po qk" "live_pipe po qk" "in_flight pk qk t \<noteq> []"
  shows "\<exists>t'. (top_step mo so po pk qk cfg)\<^sup>*\<^sup>* t t' \<and> drains pk qk t t' \<and> to_go pk qk t' < to_go pk qk t"
proof -
  let ?u = "runSyncPipeRegister po t" and ?R = "top_step mo so po pk qk cfg"
  note c = sync_contents [OF assms(3)]
  have regs: "prMEM2WB ?u = sync_reg po (prMEM2WB t)" "prEXE2MEM ?u = sync_reg po (prEXE2MEM t)"
    "prID2EXE ?u = sync_reg po (prID2EXE t)" "prIF2ID ?u = sync_reg po (prIF2ID t)" "t_soc ?u = t_soc t"
    by (simp_all add: runSyncPipeRegister_def)
  have free: "\<not> pr_isStalled po (sync_reg po q) \<and> (\<forall>r. snd (pr_push po (sync_reg po q) r))" if "qk q = []" for q
    using that assms(4) by (simp add: live_pipe_def)
  have front: "\<exists>r. pr_front po (sync_reg po q) = Some r" if "qk q \<noteq> []" for q
    using that assms(4) by (auto simp: live_pipe_def)
  have "\<exists>t'. ?R\<^sup>*\<^sup>* ?u t' \<and> drains pk qk ?u t' \<and> to_go pk qk t' < to_go pk qk ?u"
  proof -
    consider "qk (prMEM2WB t) \<noteq> []" | "qk (prMEM2WB t) = []" "qk (prEXE2MEM t) \<noteq> []"
      | "qk (prEXE2MEM t) = []" "qk (prID2EXE t) \<noteq> []" | "qk (prID2EXE t) = []" "qk (prIF2ID t) \<noteq> []"
      | "qk (prIF2ID t) = []" "pk (rv_port (t_soc t)) \<noteq> []" | r where "pk (rv_port (t_soc t)) = []" "rv_pending (t_soc t) = Some r"
      using assms(5) by (auto simp: in_flight_def split: option.splits)
    then show ?thesis
    proof cases
      case 1
      then show ?thesis using front wb_drains [OF assms(3)] regs WB_top by (metis option.distinct(1) r_into_rtranclp)
    next
      case 2
      then show ?thesis using front free regs mem_drains [OF assms(3)] by metis
    next
      case 3
      then show ?thesis using front free regs exe_drains [OF assms(3)] by metis
    next
      case 4
      then show ?thesis using front free regs id_drains [OF assms(3)] by metis
    next
      case 5
      then obtain r where "sp_front so (rv_port (t_soc ?u)) = Some r" using assms(2) by (auto simp: live_port_def regs)
      with 5 show ?thesis using free regs if_drains [OF assms(3) _ _ _ assms(1)] by metis
    next
      case 6
      then show ?thesis using retry_drains [OF assms(1,2)] regs by metis
    qed
  qed
  moreover have "?R t ?u" by (rule Sync_top)
  ultimately show ?thesis using c(2,3) drains_trans by (metis converse_rtranclp_into_rtranclp)
qed

text \<open>
  C37: the pipeline never blocks. From every state, whatever hazards, taken branches, memory stalls
  and backpressure are pending, the simulators can be stepped so that all packets in flight retire,
  in order, without the core executing another instruction.
\<close>

theorem pipeline_drains:
  assumes "fifo_port mo so pk" "live_port mo so pk" "fifo_pipe po qk" "live_pipe po qk"
  shows "\<exists>t'. (top_step mo so po pk qk cfg)\<^sup>*\<^sup>* t t' \<and> in_flight pk qk t' = []
    \<and> t_retired t' = t_retired t @ map (rv_pool (t_soc t)) (in_flight pk qk t)
    \<and> rv_abs (t_soc t') = rv_abs (t_soc t) \<and> rv_inst_cnt (t_soc t') = rv_inst_cnt (t_soc t)"
proof -
  have "\<exists>t'. (top_step mo so po pk qk cfg)\<^sup>*\<^sup>* t t' \<and> drains pk qk t t' \<and> in_flight pk qk t' = []"
  proof (induction "to_go pk qk t" arbitrary: t rule: less_induct)
    case less
    show ?case
    proof (cases "in_flight pk qk t = []")
      case True
      then show ?thesis using drains_refl by blast
    next
      case False
      from one_drains [OF assms False] obtain u where "(top_step mo so po pk qk cfg)\<^sup>*\<^sup>* t u" "drains pk qk t u" "to_go pk qk u < to_go pk qk t"
        by blast
      with less show ?thesis using drains_trans rtranclp_trans by metis
    qed
  qed
  then show ?thesis by (auto simp: drains_def)
qed

lemma slot_live: "live_port rv_slot_ops slot_slave (\<lambda>q. q)"
  by (auto simp: live_port_def rv_slot_ops_def slot_slave_def split: list.splits)

lemma latch_live: "live_pipe latch_ops latch_packets"
  by (auto simp: live_pipe_def latch_ops_def latch_packets_def sync_reg_def split: option.splits)

theorem pipeline_drains_witness:
  "\<exists>t. ex_top_step\<^sup>*\<^sup>* (ex_top\<lparr>prIF2ID := (Some 1, Some 2), prMEM2WB := (None, Some 0)\<rparr>) t \<and> length (t_retired t) = 3"
  using pipeline_drains [OF slot_fifo slot_live latch_fifo latch_live, of default_config "ex_top\<lparr>prIF2ID := (Some 1, Some 2), prMEM2WB := (None, Some 0)\<rparr>"]
  by (auto simp: in_flight_def latch_packets_def ex_top_def registerSimulators_def ex_rv_def)

end
