(* ===== verification/Dispatch.thy ===== *)
theory Dispatch
  imports PipelineTop
begin

text \<open>
  The packets and events of the pipeline model as objects (\<open>src/riscv/include/MemPacket.hh\<close>,
  \<open>libs/MemPacket.cc\<close>, \<open>libs/InstPacket.cc\<close>, \<open>libs/event\<close>). A module or simulator passes a packet
  to its \<open>visit\<close>, which finds out by dynamic casts what it was called on and calls the handler of that
  class; on every other class it logs an error. The theorems say that the calls the other theories make
  directly are the ones this dispatch makes, and that nothing else in the system has an effect.
\<close>

section \<open>Packets\<close>

record rv_read_resp =
  rvrr_instr :: instr
  rvrr_op :: instr_type
  rvrr_data :: u32
  rvrr_a1 :: operand

record rv_write_resp =
  rvwr_instr :: instr

text \<open>A renewed packet has every member overwritten, whatever the recycled object held.\<close>

definition MemReadReq_renew :: "instr \<Rightarrow> instr_type \<Rightarrow> u32 \<Rightarrow> operand \<Rightarrow> rv_read_req \<Rightarrow> rv_read_req" where
  "MemReadReq_renew i opc addr a1 p = p\<lparr>rvr_instr := i, rvr_op := opc, rvr_addr := addr, rvr_a1 := a1\<rparr>"

definition MemWriteReq_renew :: "instr \<Rightarrow> instr_type \<Rightarrow> u32 \<Rightarrow> u32 \<Rightarrow> rv_write_req \<Rightarrow> rv_write_req" where
  "MemWriteReq_renew i opc addr data p = p\<lparr>rvw_instr := i, rvw_op := opc, rvw_addr := addr, rvw_data := data\<rparr>"

definition MemReadResp_renew :: "instr \<Rightarrow> instr_type \<Rightarrow> u32 \<Rightarrow> operand \<Rightarrow> rv_read_resp \<Rightarrow> rv_read_resp" where
  "MemReadResp_renew i opc data a1 p = p\<lparr>rvrr_instr := i, rvrr_op := opc, rvrr_data := data, rvrr_a1 := a1\<rparr>"

definition MemWriteResp_renew :: "instr \<Rightarrow> rv_write_resp \<Rightarrow> rv_write_resp" where
  "MemWriteResp_renew i p = p\<lparr>rvwr_instr := i\<rparr>"

text \<open>The classes of packets; an instruction packet is a pointer into the pool.\<close>

datatype rv_packet =
    RvReadReq rv_read_req
  | RvWriteReq rv_write_req
  | RvReadResp rv_read_resp
  | RvWriteResp rv_write_resp
  | RvInst nat

section \<open>Receivers\<close>

text \<open>
  The modules inside the SOC simulator, and the simulators of the pipeline. The output register of a
  stage takes the packet or not (\<open>accepts\<close>); write-back keeps the list of what it recycled.
\<close>

datatype 'c rv_module = DataMemoryModule base_memory | CPUModule 'c

datatype 's rv_simulator =
    SOCSim 's
  | IFSim if_stage
  | IDSim id_stage
  | EXESim exe_stage
  | MEMSim mem_stage
  | WBSim "nat list"

section \<open>Visits\<close>

definition MemReadReq_visit :: "sim_config \<Rightarrow> rv_read_req \<Rightarrow> 'c rv_module \<Rightarrow> 'c rv_module result" where
  "MemReadReq_visit cfg p md =
     (case md of
        DataMemoryModule m \<Rightarrow> bindE (rv_memReadReqHandler m p) (\<lambda>_. Inr (DataMemoryModule m))
      | CPUModule _ \<Rightarrow> log_error cfg ''Invalid module type!'' (Inr md))"

definition MemWriteReq_visit :: "sim_config \<Rightarrow> rv_write_req \<Rightarrow> 'c rv_module \<Rightarrow> 'c rv_module result" where
  "MemWriteReq_visit cfg p md =
     (case md of
        DataMemoryModule m \<Rightarrow> bindE (rv_memWriteReqHandler m p) (\<lambda>m'. Inr (DataMemoryModule m'))
      | CPUModule _ \<Rightarrow> log_error cfg ''Invalid module type!'' (Inr md))"

definition rv_visit_module :: "sim_config \<Rightarrow> rv_packet \<Rightarrow> 'c rv_module \<Rightarrow> 'c rv_module result" where
  "rv_visit_module cfg pkt md =
     (case pkt of
        RvReadReq p \<Rightarrow> MemReadReq_visit cfg p md
      | RvWriteReq p \<Rightarrow> MemWriteReq_visit cfg p md
      | RvReadResp _ \<Rightarrow> log_error cfg ''void MemReadRespPacket::visit (SimModule& module) is not implemented yet!'' (Inr md)
      | RvWriteResp _ \<Rightarrow> log_error cfg ''void MemWriteRespPacket::visit (SimModule& module) is not implemented yet!'' (Inr md)
      | RvInst _ \<Rightarrow> log_error cfg ''void InstPacket::visit (SimModule& module) is not implemented yet!'' (Inr md))"

definition wb_instPacketHandler :: "nat \<Rightarrow> nat list \<Rightarrow> nat list" where
  "wb_instPacketHandler r recycled = recycled @ [r]"

definition InstPacket_visit :: "sim_config \<Rightarrow> bool \<Rightarrow> nat \<Rightarrow> 's rv_simulator \<Rightarrow> 's rv_simulator result" where
  "InstPacket_visit cfg accepts r sim =
     (case sim of
        IFSim s \<Rightarrow> bindE (if_instPacketHandler cfg accepts r s) (\<lambda>s'. Inr (IFSim s'))
      | EXESim s \<Rightarrow> bindE (exe_instPacketHandler cfg accepts r s) (\<lambda>s'. Inr (EXESim s'))
      | WBSim l \<Rightarrow> Inr (WBSim (wb_instPacketHandler r l))
      | IDSim s \<Rightarrow> bindE (id_instPacketHandler cfg accepts r s) (\<lambda>s'. Inr (IDSim s'))
      | MEMSim s \<Rightarrow> bindE (mem_instPacketHandler cfg accepts r s) (\<lambda>s'. Inr (MEMSim s'))
      | SOCSim _ \<Rightarrow> log_error cfg ''Invalid simulator type!'' (Inr sim))"

definition rv_visit_sim :: "sim_config \<Rightarrow> bool \<Rightarrow> rv_packet \<Rightarrow> 's rv_simulator \<Rightarrow> 's rv_simulator result" where
  "rv_visit_sim cfg accepts pkt sim =
     (case pkt of
        RvReadReq _ \<Rightarrow> log_error cfg ''void MemReadReqPacket::visit (SimBase& simulator) is not implemented yet!'' (Inr sim)
      | RvWriteReq _ \<Rightarrow> log_error cfg ''void MemWriteReqPacket::visit (SimBase& simulator) is not implemented yet!'' (Inr sim)
      | RvReadResp _ \<Rightarrow> log_error cfg ''void MemReadRespPacket::visit (SimBase& simulator) is not implemented yet!'' (Inr sim)
      | RvWriteResp _ \<Rightarrow> log_error cfg ''void MemWriteRespPacket::visit (SimBase& simulator) is not implemented yet!'' (Inr sim)
      | RvInst r \<Rightarrow> InstPacket_visit cfg accepts r sim)"

section \<open>Events\<close>

text \<open>\<open>MemReqEvent::process\<close> hands its packet to the data memory it was made for.\<close>

record mem_req_event =
  mre_memReqPkt :: rv_packet

definition MemReqEvent_renew :: "rv_packet \<Rightarrow> mem_req_event \<Rightarrow> mem_req_event" where
  "MemReqEvent_renew p e = e\<lparr>mre_memReqPkt := p\<rparr>"

definition MemReqEvent_process :: "sim_config \<Rightarrow> mem_req_event \<Rightarrow> base_memory \<Rightarrow> base_memory result" where
  "MemReqEvent_process cfg e m =
     bindE (rv_visit_module cfg (mre_memReqPkt e) (DataMemoryModule m :: unit rv_module))
       (\<lambda>md. case md of DataMemoryModule m' \<Rightarrow> Inr m' | CPUModule _ \<Rightarrow> Inr m)"

text \<open>\<open>ExecOneInstrEvent::process\<close>; \<open>r\<close> is the packet object the execution acquires.\<close>

definition ExecOneInstrEvent_process :: "'p port_ops \<Rightarrow> nat \<Rightarrow> nat \<Rightarrow> 'p rvcpu \<Rightarrow> 'p rvcpu result" where
  "ExecOneInstrEvent_process ops now r s = rv_execOneInstr ops now r s"

section \<open>What the dispatch does\<close>

lemma rv_write_handler:
  "rv_memWriteReqHandler m p = (if is_store (rvw_op p) then bm.store_at m (rvw_op p) (rvw_addr p) (rvw_data p) else Inr m)"
  using rv_mem_handlers(2) [of "rvw_op p" m "rvw_instr p" "rvw_addr p" "rvw_data p"]
  by (auto simp: rv_memWriteReqHandler_def is_store_def Let_def)

lemma rv_read_handler: "rv_memReadReqHandler m p = bm.load_at m (rvr_op p) (rvr_addr p)"
  by (cases p) (simp add: rv_mem_handlers(1))

text \<open>The direct call of \<open>memWrite\<close> in the functional core is this dispatch, on any recycled packet object.\<close>

lemma memWrite_dispatch:
  "rv_memWrite m i addr data = MemReqEvent_process cfg (MemReqEvent_renew (RvWriteReq (MemWriteReq_renew i (i_op i) addr data p)) e) m"
  by (cases p; cases e; cases "rv_memWrite m i addr data")
    (simp_all add: rv_memWrite_def MemReqEvent_process_def MemReqEvent_renew_def MemWriteReq_renew_def rv_visit_module_def MemWriteReq_visit_def)

text \<open>So are the calls of the stages.\<close>

lemma stage_dispatch:
  "rv_visit_sim cfg b (RvInst r) (IFSim i) = bindE (if_instPacketHandler cfg b r i) (\<lambda>s'. Inr (IFSim s'))"
  "rv_visit_sim cfg b (RvInst r) (IDSim d) = bindE (id_instPacketHandler cfg b r d) (\<lambda>s'. Inr (IDSim s'))"
  "rv_visit_sim cfg b (RvInst r) (EXESim e) = bindE (exe_instPacketHandler cfg b r e) (\<lambda>s'. Inr (EXESim s'))"
  "rv_visit_sim cfg b (RvInst r) (MEMSim m) = bindE (mem_instPacketHandler cfg b r m) (\<lambda>s'. Inr (MEMSim s'))"
  "rv_visit_sim cfg b (RvInst r) (WBSim w) = Inr (WBSim (w @ (case snd (wb_step (Some r)) of None \<Rightarrow> [] | Some x \<Rightarrow> [x])))"
  by (simp_all add: rv_visit_sim_def InstPacket_visit_def wb_instPacketHandler_def wb_step_def)

text \<open>
  C29: when logged errors stop the run, a module accepts a packet exactly when it is a memory request and the
  module the data memory: a load within the memory, which is left as it was, or a request to write, whose
  store is the only effect. A simulator accepts a packet exactly when it is an instruction packet, the
  simulator a stage, and its output register takes the packet; the effect is that of the handler of its
  class: the packet enters the first of the slots the stage tracks, the others move on by one and the
  oldest leaves, nothing else changes; write-back, which has no output, recycles the packet.
\<close>

theorem dispatch_only_handlers:
  assumes "error_aborts cfg"
  shows "(rv_visit_module cfg pkt md = Inr md' \<longleftrightarrow>
      (\<exists>m p v. md = DataMemoryModule m \<and> md' = md \<and> pkt = RvReadReq p \<and> bm.load_at m (rvr_op p) (rvr_addr p) = Inr v)
      \<or> (\<exists>m m' p. md = DataMemoryModule m \<and> md' = DataMemoryModule m' \<and> pkt = RvWriteReq p
           \<and> (if is_store (rvw_op p) then bm.store_at m (rvw_op p) (rvw_addr p) (rvw_data p) = Inr m' else m' = m)))
    \<and> (rv_visit_sim cfg b pkt sim = Inr sim' \<longleftrightarrow> (\<exists>r. pkt = RvInst r \<and>
      (case sim of
         IFSim s \<Rightarrow> b \<and> sim' = IFSim (s\<lparr>if_ID := Some r, if_EXE := if_ID s, if_MEM := if_EXE s, if_WB := if_MEM s\<rparr>)
       | IDSim s \<Rightarrow> b \<and> sim' = IDSim (s\<lparr>id_EXE := Some r, id_MEM := id_EXE s, id_WB := id_MEM s\<rparr>)
       | EXESim s \<Rightarrow> b \<and> sim' = EXESim (s\<lparr>exe_MEM := Some r, exe_WB := exe_MEM s\<rparr>)
       | MEMSim s \<Rightarrow> b \<and> sim' = MEMSim (s\<lparr>mem_WB := Some r\<rparr>)
       | WBSim w \<Rightarrow> sim' = WBSim (w @ [r])
       | SOCSim _ \<Rightarrow> False)))"
proof -
  have "rv_visit_module cfg pkt md = Inr md' \<longleftrightarrow>
      (\<exists>m p v. md = DataMemoryModule m \<and> md' = md \<and> pkt = RvReadReq p \<and> bm.load_at m (rvr_op p) (rvr_addr p) = Inr v)
      \<or> (\<exists>m m' p. md = DataMemoryModule m \<and> md' = DataMemoryModule m' \<and> pkt = RvWriteReq p
           \<and> (if is_store (rvw_op p) then bm.store_at m (rvw_op p) (rvw_addr p) (rvw_data p) = Inr m' else m' = m))"
    using assms
    by (auto simp: rv_visit_module_def MemReadReq_visit_def MemWriteReq_visit_def rv_read_handler rv_write_handler result_simps
        split: rv_packet.splits rv_module.splits if_splits)
  moreover have "log_error cfg msg (Inr x) \<noteq> Inr y" for msg and x y :: "'c rv_simulator"
    using assms by (simp add: log_error_def)
  ultimately show ?thesis
    using assms
    by (cases pkt; cases sim; auto simp: rv_visit_sim_def InstPacket_visit_def wb_instPacketHandler_def push_out_def log_error_def
      if_instPacketHandler_def id_instPacketHandler_def exe_instPacketHandler_def mem_instPacketHandler_def)
qed

text \<open>A byte stored at address 3 of a memory of 16, the instruction packet that the memory refuses, and write-back.\<close>

theorem dispatch_only_handlers_witness:
  "rv_visit_module default_config (RvWriteReq \<lparr>rvw_instr = blank_instr, rvw_op = SB, rvw_addr = 3, rvw_data = 7\<rparr>)
      (DataMemoryModule (mem_new 16) :: unit rv_module) = Inr (DataMemoryModule ((mem_new 16)\<lparr>mem := (replicate 16 0)[3 := 7]\<rparr>))
    \<and> (\<nexists>md. rv_visit_module default_config (RvInst 0) (DataMemoryModule (mem_new 16) :: unit rv_module) = Inr md)
    \<and> (\<nexists>sim. rv_visit_sim default_config False (RvInst 4) (IFSim if_new :: unit rv_simulator) = Inr sim)
    \<and> rv_visit_sim default_config True (RvInst 4) (MEMSim mem_new_stage :: unit rv_simulator) = Inr (MEMSim (mem_new_stage\<lparr>mem_WB := Some 4\<rparr>))"
proof -
  have "error_aborts default_config" by (simp add: default_config_def)
  note only = dispatch_only_handlers [OF this]
  have "bm.store_at (mem_new 16) SB 3 7 = Inr ((mem_new 16)\<lparr>mem := (replicate 16 0)[3 := 7]\<rparr>)"
    unfolding bm.store_at_def by code_simp
  then show ?thesis by (auto simp: only [THEN conjunct1] only [THEN conjunct2] is_store_def)
qed

end
