(* ===== verification/Report.thy ===== *)
theory Report
  imports RiscvCPU CString
begin

text \<open>
  What the SoC writes for its user: the register file and the memory dump of \<open>CPU::cleanup\<close>
  (\<open>soc/libs/CPU.cc\<close>) and the trace records of \<open>soc/include/TraceRecord.hh\<close>, as the texts the
  streams produce. The pipeline model prints its register file with the same loop. A JSON object is
  a map from its keys.
\<close>

section \<open>Texts\<close>

abbreviation newline :: string where
  "newline \<equiv> [CHR 0x0A]"

text \<open>\<open>std::setw(w) << std::setfill('0') << std::hex\<close>.\<close>

definition out_hex :: "nat \<Rightarrow> nat \<Rightarrow> string" where
  "out_hex w n = pad_zero w (nat_digits 16 n)"

definition regfile_entry :: "u32 list \<Rightarrow> nat \<Rightarrow> string" where
  "regfile_entry rf i =
     ''x'' @ pad_zero 2 (nat_digits 10 i) @ '':0x'' @ out_hex 8 (unat (rf ! i)) @ '' '' @ (if (i + 1) mod 8 = 0 then newline else [])"

definition printRegfile :: "u32 list \<Rightarrow> string" where
  "printRegfile rf = ''Register File Snapshot:'' @ newline @ newline @ concat (map (regfile_entry rf) [0..<32]) @ newline"

definition rv_printRegfile :: "'p rvcpu \<Rightarrow> string" where
  "rv_printRegfile s = printRegfile (rv_rf s)"

text \<open>One line of \<open>memory_dump.txt\<close> per byte.\<close>

definition dump_text :: "u8 list \<Rightarrow> string" where
  "dump_text bs = concat (map (\<lambda>b. out_hex 2 (unat b) @ newline) bs)"

text \<open>\<open>CPU::cleanup\<close>: the text it logs and the file it writes.\<close>

definition cpu_report :: "base_memory \<Rightarrow> 'r cpu \<Rightarrow> (string \<times> string) result" where
  "cpu_report m s = bindE (cpu_cleanup m s) (\<lambda>bs. Inr (printRegfile (cpu_rf s), dump_text bs))"

section \<open>Trace records\<close>

definition toupper_char :: "char \<Rightarrow> char" where
  "toupper_char c = (let n = of_char c :: nat in if 97 \<le> n \<and> n \<le> 122 then char_of (n - 32) else c)"

definition convertUint32ToHex :: "u32 \<Rightarrow> string" where
  "convertUint32ToHex v = ''0x'' @ pad_zero 8 (map toupper_char (nat_digits 16 (unat v)))"

datatype json = JInt int | JString string

record mem_request_info =
  tr_req_id :: int
  tr_addr :: u32
  tr_size :: u32

record handling_record = mem_request_info +
  tr_time :: nat

definition MemRequestInfo_toJson :: "'z mem_request_info_scheme \<Rightarrow> string \<Rightarrow> json option" where
  "MemRequestInfo_toJson r =
     [''request id'' \<mapsto> JInt (tr_req_id r), ''address'' \<mapsto> JString (convertUint32ToHex (tr_addr r)), ''data size'' \<mapsto> JInt (uint (tr_size r))]"

text \<open>The records of a request and of a response have the same members and the same \<open>toJson\<close>.\<close>

definition Handling_toJson :: "handling_record \<Rightarrow> string \<Rightarrow> json option" where
  "Handling_toJson r = (MemRequestInfo_toJson r)(''time'' \<mapsto> JInt (int (tr_time r)))"

section \<open>Reading the texts back\<close>

text \<open>The value of the hexadecimal digits at a position.\<close>

definition hex_at :: "nat \<Rightarrow> nat \<Rightarrow> string \<Rightarrow> nat" where
  "hex_at p w txt = digits_value 16 0 (take w (drop p txt))"

lemma out_hex_value: "digits_value 16 0 (out_hex w n) = n"
  by (simp add: out_hex_def pad_zero_def digits_value_zeros digits_value_nat_digits)

lemma out_hex_length: "n < 16 ^ w \<Longrightarrow> 0 < w \<Longrightarrow> length (out_hex w n) = w"
  using length_nat_digits [of 16 n w] by (simp add: out_hex_def pad_zero_def)

lemma hex_at_in: "length a = p \<Longrightarrow> n < 16 ^ w \<Longrightarrow> 0 < w \<Longrightarrow> hex_at p w (a @ out_hex w n @ b) = n"
  by (simp add: hex_at_def out_hex_length out_hex_value)

text \<open>Blocks of a fixed length, one after the other.\<close>

lemma concat_split:
  assumes "i < n"
  shows "concat (map f [0..<n]) = concat (map f [0..<i]) @ f i @ concat (map f [Suc i..<n])"
proof -
  have "[0..<n] = [0..<i] @ i # [Suc i..<n]" using assms upt_add_eq_append [of 0 i "n - i"] upt_conv_Cons [of i n] by simp
  then show ?thesis by simp
qed

lemma regfile_entry_length: "i < 32 \<Longrightarrow> length (regfile_entry rf i) = 15 + (if (i + 1) mod 8 = 0 then 1 else 0)"
proof -
  assume "i < 32"
  then have "length (nat_digits 10 i) \<le> 2" by (intro length_nat_digits) auto
  moreover have "length (out_hex 8 (unat (rf ! i))) = 8" using unat_u32_bound [of "rf ! i"] by (intro out_hex_length) auto
  ultimately show ?thesis by (simp add: regfile_entry_def pad_zero_def)
qed

lemma regfile_offset: "i \<le> 32 \<Longrightarrow> length (concat (map (regfile_entry rf) [0..<i])) = 15 * i + i div 8"
proof (induction i)
  case (Suc i)
  have "Suc i div 8 = i div 8 + (if (i + 1) mod 8 = 0 then 1 else 0)" by (simp add: div_Suc)
  with Suc show ?case by (simp add: regfile_entry_length)
qed simp

lemma printRegfile_reads_back:
  assumes "i < 32"
  shows "hex_at (31 + 15 * i + i div 8) 8 (printRegfile rf) = unat (rf ! i)"
proof -
  let ?a = "''Register File Snapshot:'' @ newline @ newline @ concat (map (regfile_entry rf) [0..<i]) @ ''x'' @ pad_zero 2 (nat_digits 10 i) @ '':0x''"
  have "length (nat_digits 10 i) \<le> 2" using assms by (intro length_nat_digits) auto
  then have len: "length ?a = 31 + 15 * i + i div 8" using assms by (simp add: regfile_offset pad_zero_def)
  obtain b where eq: "printRegfile rf = ?a @ out_hex 8 (unat (rf ! i)) @ b"
    using concat_split [OF assms, of "regfile_entry rf"] by (simp add: printRegfile_def regfile_entry_def)
  show ?thesis unfolding eq by (rule hex_at_in [OF len]) (use unat_u32_bound [of "rf ! i"] in simp_all)
qed

lemma dump_text_simps [simp]:
  "dump_text [] = []" "dump_text (b # bs) = out_hex 2 (unat b) @ newline @ dump_text bs" "dump_text (xs @ ys) = dump_text xs @ dump_text ys"
  by (simp_all add: dump_text_def)

lemma out_hex_byte: "length (out_hex 2 (unat (b :: u8))) = 2" "unat b < 16 ^ 2"
proof -
  show "unat b < 16 ^ 2" using unsigned_less [of b, where 'a = nat] by simp
  then show "length (out_hex 2 (unat b)) = 2" by (rule out_hex_length) simp
qed

lemma dump_text_length: "length (dump_text bs) = 3 * length bs"
  by (induction bs) (simp_all add: out_hex_byte)

lemma dump_text_reads_back:
  assumes "i < length bs"
  shows "hex_at (3 * i) 2 (dump_text bs) = unat (bs ! i)"
proof -
  have "dump_text bs = dump_text (take i bs) @ out_hex 2 (unat (bs ! i)) @ newline @ dump_text (drop (Suc i) bs)"
    by (subst (1) id_take_nth_drop [OF assms]) simp
  moreover have "length (dump_text (take i bs)) = 3 * i" using assms by (simp add: dump_text_length)
  ultimately show ?thesis using out_hex_byte(2) by (simp add: hex_at_in)
qed

text \<open>
  C28: when a run has come to rest, \<open>cleanup\<close> succeeds and what it writes determines the final state: the
  text it logs has register \<open>i\<close> in eight hexadecimal digits at a fixed place, and the file has one
  line per byte of the memory from \<open>0x2000\<close> to \<open>0xEFFF\<close>, in order.
\<close>

theorem cleanup_reports_state:
  assumes "cpu_runs ops cfg (boot cfg now r prog) y" "tokens y = 0" "mem_ok m" "0xF000 \<le> msize m" "msize m < 2 ^ 32"
  shows "\<exists>regs dump. cpu_report m (sys_cpu y) = Inr (regs, dump) \<and> length dump = 3 * 0xD000
    \<and> (\<forall>i < 32. hex_at (31 + 15 * i + i div 8) 8 regs = unat (cpu_rf (sys_cpu y) ! i))
    \<and> (\<forall>k < 0xD000. hex_at (3 * k) 2 dump = unat (mem m ! (0x2000 + k)))"
proof -
  let ?bs = "segment (mem m) 0x2000 0xD000"
  have len: "length ?bs = 0xD000" using assms(3,4) by (simp add: segment_def mem_ok_def)
  have "cpu_report m (sys_cpu y) = Inr (printRegfile (cpu_rf (sys_cpu y)), dump_text ?bs)"
    using cpu_halt_cleanup [OF assms] by (simp add: cpu_report_def)
  moreover have "hex_at (3 * k) 2 (dump_text ?bs) = unat (mem m ! (0x2000 + k))" if "k < 0xD000" for k
    using dump_text_reads_back [of k ?bs] that len assms(3,4) by (simp add: segment_def mem_ok_def)
  ultimately show ?thesis using printRegfile_reads_back by (simp add: dump_text_length len)
qed

theorem cleanup_reports_state_witness:
  "\<exists>regs dump. cpu_report (mem_new 65536) ((cpu_init default_config 0 ([] :: sim_packet list))\<lparr>cpu_imem := ex_halt, cpu_inst_cnt := 1,
        cpu_events := [], cpu_pc := 4\<rparr>) = Inr (regs, dump) \<and> length dump = 3 * 0xD000"
  using cleanup_reports_state [OF ex_halt_run, of "mem_new 65536"]
  by (auto simp: tokens_def cpu_init_def mem_new_def mem_ok_def)

section \<open>Trace records read back\<close>

lemma toupper_digit: "d < 16 \<Longrightarrow> digit_value (toupper_char (digit_char d)) = Some d"
  by (simp add: digit_value_def toupper_char_def digit_char_def Let_def of_char_of)

lemma toupper_digits:
  "base \<le> 16 \<Longrightarrow> 2 \<le> base \<Longrightarrow> \<forall>c \<in> set (nat_digits base n). digit_value (toupper_char c) = digit_value c"
proof (induction base n rule: nat_digits.induct)
  case (1 base n)
  have "n mod base < 16" using 1(2,3) by (meson mod_less_divisor order_less_le_trans zero_less_numeral)
  with 1 show ?case by (subst nat_digits.simps) (auto simp: toupper_digit digit_value_char)
qed

lemma digits_value_toupper:
  "\<forall>c \<in> set s. digit_value (toupper_char c) = digit_value c \<Longrightarrow> digits_value base acc (map toupper_char s) = digits_value base acc s"
  by (induction s arbitrary: acc) (simp_all add: is_digit_of_def)

text \<open>\<open>strtol\<close> reads the address of a record back.\<close>

lemma convertUint32ToHex_reads_back: "strtol_auto (convertUint32ToHex v) = (uint v, False)"
proof -
  let ?d = "nat_digits 16 (unat v)" and ?s = "pad_zero 8 (map toupper_char (nat_digits 16 (unat v)))"
  have up: "\<forall>c \<in> set ?d. digit_value (toupper_char c) = digit_value c" by (rule toupper_digits) simp_all
  have "?d \<noteq> []" by (subst nat_digits.simps) simp
  then have "?s \<noteq> []" by (simp add: pad_zero_def)
  moreover have "\<forall>c \<in> set ?s. is_digit_of 16 c"
    using nat_digits_are_digits [of 16 "unat v"] up is_digit_of_zero [of 16] by (auto simp: pad_zero_def is_digit_of_def)
  moreover have "digits_value 16 0 ?s = unat v"
    by (simp add: pad_zero_def digits_value_zeros digits_value_toupper [OF up] digits_value_nat_digits)
  ultimately show ?thesis unfolding convertUint32ToHex_def by (rule strtol_auto_hex)
qed

lemma convertUint32ToHex_inj: "convertUint32ToHex v = convertUint32ToHex w \<longleftrightarrow> v = w"
  using convertUint32ToHex_reads_back [of v] convertUint32ToHex_reads_back [of w] by (metis prod.inject word_uint_eq_iff)

text \<open>No two records have the same JSON.\<close>

lemma toJson_members:
  "MemRequestInfo_toJson r ''request id'' = Some (JInt (tr_req_id r))"
  "MemRequestInfo_toJson r ''address'' = Some (JString (convertUint32ToHex (tr_addr r)))"
  "MemRequestInfo_toJson r ''data size'' = Some (JInt (uint (tr_size r)))"
  "Handling_toJson h ''time'' = Some (JInt (int (tr_time h)))"
  "k \<noteq> ''time'' \<Longrightarrow> Handling_toJson h k = MemRequestInfo_toJson h k"
  by (simp_all add: MemRequestInfo_toJson_def Handling_toJson_def)

lemma Handling_toJson_inj:
  assumes "Handling_toJson r = Handling_toJson r'"
  shows "r = r'"
proof -
  note at = fun_cong [OF assms]
  have "tr_req_id r = tr_req_id r'" "tr_addr r = tr_addr r'" "tr_size r = tr_size r'" "tr_time r = tr_time r'"
    using at [of "''request id''"] at [of "''address''"] at [of "''data size''"] at [of "''time''"]
    by (simp_all add: toJson_members convertUint32ToHex_inj word_uint_eq_iff)
  then show ?thesis by (intro handling_record.equality) simp_all
qed

end
