(* ===== verification/Spec2Isabelle.thy ===== *)
theory Spec2Isabelle
  imports ArrayLoad SocProgress Dispatch Report
begin

text \<open>
  \<^bold>\<open>What is verified.\<close> The repository simulates a small system on chip in C++ on top of the
  event-driven simulation kernel ACALSim. It holds two programs. \<open>src/soc\<close> is the SoC: a
  single-cycle RV32 CPU with a SIMD extension (CFU), a data memory, a DMA controller and a systolic
  array behind a crossbar. \<open>src/src/riscv\<close> is a five-stage pipeline: a functional core that executes
  an instruction at once and timing stages that its packets travel through. Both are started from
  an assembly file that an assembler reads; the pipeline has a copy of it without \<open>MUL\<close> and SIMD.

  \<^bold>\<open>Theories and sources.\<close> A C++ object is a record, its methods are functions from the old state
  to a \<open>result\<close> (an error or the new state), \<open>uint32_t\<close> and its kin are words, and enums are
  datatypes. The state an object shares with ACALSim appears as a list of scheduled events and a
  register state \<open>'r\<close>.
  \<^item> \<open>Prelude\<close>: results, checked arrays, words as bytes, \<open>memcpy\<close>; \<open>SystemConfig.hh\<close>.
  \<^item> \<open>DataStruct\<close>: instructions and operands; \<open>DataStruct.hh\<close>.
  \<^item> \<open>BaseMemory\<close>: the byte array (\<open>BaseMemory.hh/.cc\<close>), and the locale \<open>byte_store\<close>: what a load
    returns after a store, interpreted for this memory (and in \<open>SystolicArray\<close> for the SRAM).
  \<^item> \<open>XBarPacket\<close>, \<open>BurstTracker\<close>: packets, address map, request and response construction
    (\<open>packet/XBarPacket.hh\<close>, \<open>MMIOUtil.hh\<close>), and the locale of a collector of burst beats.
  \<^item> \<open>DataMemory\<close>, \<open>CFU\<close>, \<open>CPU\<close>: the handlers of \<open>DataMemory.cc\<close>, \<open>CFU.cc\<close> and \<open>CPU.cc\<close>.
  \<^item> \<open>MMIO\<close>, \<open>DMA\<close>: the interface of memory-mapped registers as a locale; \<open>DMA.cc\<close>.
  \<^item> \<open>SystolicCore\<close>, \<open>SystolicArray\<close>: processing elements, tiles and the product; then SRAM,
    registers and DMA programming of \<open>SystolicArray.cc\<close>.
  \<^item> \<open>RiscvCPU\<close>, \<open>Pipeline\<close>: the functional core (\<open>riscv/libs/CPU.cc\<close>, \<open>DataMemory.cc\<close>, \<open>SOC.cc\<close>)
    with the abstract machine of RV32I; hazard detection and the five stages (\<open>PipelineUtils.hh\<close>,
    \<open>IFStage.cc\<close> to \<open>WBStage.hh\<close>).
  \<^item> \<open>CString\<close>, \<open>Emulator\<close>, \<open>RvEmulator\<close>: the C string functions, the assembler of the SoC
    (\<open>soc/libs/Emulator.cc\<close>), and what differs in that of the pipeline (\<open>riscv/libs/Emulator.cc\<close>).
    The locale \<open>instr_property\<close> states once what both assemblers keep of every instruction.
  \<^item> \<open>PipelineTop\<close>: the pipeline put together (\<open>SOCTop.hh\<close>, \<open>riscv/libs/SOC.cc\<close>,
    \<open>TopPipeRegisterManager.cc\<close>): start-up, the stages between their registers, the steps of the
    system; the locale \<open>passing_stage\<close> is the contract of a stage with its registers.
  \<^item> \<open>SOC\<close>: construction, wiring and loading of a program (\<open>SOC.hh\<close>), the packets between CPU and CFU
    (\<open>CFUPacket.cc\<close>), and the packets with which the array programs the DMA controller.
  \<^item> \<open>DmaBursts\<close>: read and write bursts served by the data memory, and the words a transfer names.
  \<^item> \<open>SlotBus\<close>, \<open>BusSlaves\<close>, \<open>BusPhases\<close>, \<open>BusTransfer\<close>: transfers of the DMA controller when the registers of the
    crossbar hold one packet and the parts run in any order. \<open>SlotBus\<close> is the controller before such a
    register; \<open>BusSlaves\<close> the data memory and the SRAM as one address space, with the locale \<open>word_bus\<close>,
    the contract of a bus with its master, interpreted for the SoC; \<open>BusPhases\<close> the transition system of
    controller, crossbar and slaves with the phases of a transfer; \<open>BusTransfer\<close> its invariant; \<open>ArrayLoad\<close> the
    transfer the array starts.
  \<^item> \<open>SocRuns\<close>, \<open>SocProgress\<close>: the CPU, its crossbar, the data memory and the CFU as one transition system
    (\<open>soc_act\<close>, \<open>soc_runs\<close>), with one-place registers and any order of actions: its invariant, which relates every
    state to one of the reference machine, with the stores that are still on their way; and the measure
    (\<open>traffic_left\<close>) by which everything under way arrives.
  \<^item> \<open>Report\<close>: what the SoC writes, the register file and memory dump of \<open>CPU::cleanup\<close> and the trace
    records of \<open>TraceRecord.hh\<close>.
  \<^item> \<open>Dispatch\<close>: the packet and event classes of the pipeline (\<open>riscv/libs/MemPacket.cc\<close>,
    \<open>InstPacket.cc\<close>, \<open>libs/event\<close>) and their dispatch by dynamic casts.

  \<^bold>\<open>What the lemmas show.\<close> Per component: the arithmetic and the control flow of the CPU against
  RV32I, one instruction in flight, the cleanup at halt; read and write bursts of the memories,
  store/load round trips and the exact error condition; the CFU lane by lane; a DMA phase that
  copies words, its programming and its completion counting, and, with one-place registers and every order of steps, that no
  step of a transfer fails and all words of a matrix of any size arrive (\<open>bus_transfer_safe\<close>,
  \<open>bus_transfer_completes\<close>); the tile cycles of the array against the
  matrix product, and the product of whole matrices out of the SRAM; hazard flags against
  read-after-write dependences, the interlock of the fetch stage (\<open>if_interlock\<close>),
  bounded waiting of every stage; the pipeline as a whole retires the instruction trace of the
  reference in order and never blocks; the assembler's round trips and resolved labels, and the
  agreement of the two assemblers; that the reports determine the final state, and what each handler of
  the pipeline's packets does. This theory adds what spans components: the SoC, in every order
  of its actions and with several stores on their way, refines the
  reference machine, SIMD operations included (\<open>soc_runs_refine_isa\<close>), and can always go on (\<open>soc_run_completes\<close>), the two
  simulators agree (\<open>simulators_agree\<close>), the array's packets start the right DMA transfer
  (\<open>array_starts_transfer\<close>), which puts matrix A into the SRAM (\<open>array_loads_matrix\<close>), and a loaded program is
  resolved: its labels are those of the lines of the file (\<open>loaded_program_resolved\<close>).

  \<^bold>\<open>Where the comparison with RV32I holds.\<close> The theorems against the reference machine (\<open>isa_step\<close>) are for regular
  instructions and programs (\<open>isa_regular\<close>, \<open>rv_regular\<close>, \<open>soc_regular\<close>): no \<open>SLTU\<close>, which the code computes as
  an addition, registers below 32, no result to \<open>x0\<close>, which the code overwrites, shifts by less than 32, beyond which the code is
  undefined, and no \<open>JALR\<close> whose destination is its base, which the code reads too late; \<open>MUL\<close> and SIMD
  operations only in the SoC. In the SoC every load and store goes to the data memory (a register of the DMA
  controller or the array has its own theorems), no store that a register refused is retried (a retried
  store is committed again, \<open>cpu_retried_store_repeats\<close>), requests of the CPU keep their order in the
  crossbar, the memory pops at most one packet in a tick, and the DMA controller and the array are idle.

  Several theorems state what the code does where it differs from what it means to do:
  \<open>SLTU\<close> adds, a shift by 32 or more is undefined, a retried store is committed again, a transfer
  whose bursts are all taken at once is never continued or reported done (\<open>dma_unqueued_never_done\<close>), a transfer whose bursts are queued is reported done one
  response early (\<open>done_one_response_early\<close>) or, if its last phase is one burst, not at all, a refused packet of the array is lost,
  a repeated memory access at one address is not held in MEM, \<open>x32\<close> is accepted as a register.

  \<^bold>\<open>Parameters.\<close> ACALSim is a git submodule and not part of the repository. A pipe register is a pair
  of functions (\<open>reg_ops\<close>); \<open>reg_contract\<close> says that it accounts for what it took, and \<open>slot_contract\<close>
  that it holds at most one packet: the runs of the SoC, of a transfer and of the array's queues are over such registers.
  \<open>reg_ready\<close>, a register that is never stalled, only occurs as a case in lemmas on what the DMA controller sends. In the pipeline a master port is \<open>port_ops\<close>, the slave port behind it
  \<open>slave_ops\<close> and a pipe register \<open>pipe_ops\<close>; \<open>fifo_port\<close> and \<open>fifo_pipe\<close> say that packets keep their
  order, \<open>live_port\<close> and \<open>live_pipe\<close> that an empty one takes a packet and shows it. Which packet object a pool hands out and
  when an event runs are arguments; in \<open>bus_run\<close> and \<open>soc_runs\<close> every order of the events, packets and callbacks is a run. \<open>error_aborts\<close> says whether an \<open>ERROR\<close> log stops the run.

  \<^bold>\<open>Bounds and fuel.\<close> No function takes fuel: loops are structural or have a measure (the tokens left
  of a line, the words left of a transfer, the rows left of a matrix). The systolic grid is 2 by 2 as in
  the source, matrices live in 64 by 64 arrays; the waiting bounds of the stages are those of the
  counters in the source. The memory model is little-endian, and counters that only grow are
  unbounded integers.

  \<^bold>\<open>Not modelled.\<close> ACALSim and its crossbar, log texts other than the register file, command line and JSON
  configuration, \<open>main\<close>, and the code
  templates: they are glue around the kernel that is not in the repository. \<open>BaseMemory\<close>, \<open>SystemConfig\<close>
  and the shared functions of the assembler in \<open>src/src/riscv\<close> repeat the files of the SoC and are not
  modelled a second time. The Chisel sources are not C++.
\<close>

section \<open>Examples\<close>

definition ex_unit :: cfu_unit where
  "ex_unit = \<lparr>u_instr_type = UNIMPL, u_rs1 = 0, u_rs2 = 0, u_result = 0\<rparr>"

definition ex_soc :: "instr list \<Rightarrow> nat \<Rightarrow> sim_packet list soc" where
  "ex_soc im n = \<lparr>soc_cpu = (cpu_init default_config 0 [])\<lparr>cpu_imem := im\<rparr>, soc_dmem = dm_new n [], soc_dma = ex_dma,
     soc_cfu = \<lparr>ctl_instr_type = UNIMPL, addSubUnit = ex_unit, mulUnit = ex_unit\<rparr>, soc_sa = ex_sa, soc_ctr = 0\<rparr>"

definition ex_sys :: "instr list \<Rightarrow> nat \<Rightarrow> sim_packet list soc_sys" where
  "ex_sys im n = \<lparr>ss_soc = ex_soc im n, ss_now = 0, ss_free = True, ss_req = [], ss_resp = [], ss_cfu = []\<rparr>"

lemma ex_soc_start: "soc_start (ex_soc im n)"
  by (simp add: soc_start_def soc_ok_def cpu_ok_def ex_soc_def cpu_init_def dm_new_def)

lemma ex_soc_abs: "soc_abs (ex_soc im n) = \<lparr>isa_rf = replicate 32 0, isa_pc = 0, isa_mem = mem_new n\<rparr>"
  by (simp add: soc_abs_def ex_soc_def cpu_init_def dm_new_def)

lemma rv_prog_fetch: "array_get ''imem'' rv_prog k = Inr i \<Longrightarrow> i \<in> set rv_prog"
  by (auto simp: array_get_def split: if_splits)

lemma rv_prog_x0: "isa_run rv_prog n (soc_abs (ex_soc im m)) = Inr u \<Longrightarrow> isa_rf u ! 0 = 0"
proof (induction n arbitrary: u)
  case 0
  then show ?case by (auto simp: ex_soc_abs)
next
  case (Suc n)
  then obtain v i where v: "isa_run rv_prog n (soc_abs (ex_soc im m)) = Inr v" "i \<in> set rv_prog" "isa_step i v = Inr u"
    by (auto simp: bindE_eq_Inr dest: rv_prog_fetch)
  from Suc.IH [OF v(1)] v(2,3) show ?case
    by (auto simp: rv_prog_def rv_reg_def rv_imm_def isa_step_def op_class_defs isa_write_def result_simps Let_def)
qed

lemma rv_prog_soc_regular: "soc_regular_program rv_prog (soc_abs (ex_soc im m))"
proof -
  have "\<forall>i \<in> set rv_prog. soc_regular u i" if "isa_rf u ! 0 = 0" for u
    using that by (simp add: soc_regular_def isa_regular_def simd_regular_def rv_prog_def rv_reg_def rv_imm_def reg_ok_def op_class_defs
        reads_rs1_def writes_rd_def blank_instr_def slaveIndex_def address_map_defs)
  then show ?thesis unfolding soc_regular_program_def using rv_prog_fetch rv_prog_x0 by blast
qed

lemma rv_prog_runs:
  "\<exists>u. isa_run rv_prog 1 (soc_abs (ex_soc im 16)) = Inr u" "\<exists>u. isa_run rv_prog 2 (soc_abs (ex_soc im 16)) = Inr u"
proof -
  let ?u = "\<lparr>isa_rf = (replicate 32 0)[5 := 7], isa_pc = 4, isa_mem = mem_new 16\<rparr>"
  have one: "isa_run rv_prog 1 (soc_abs (ex_soc im 16)) = Inr ?u"
    by (simp add: ex_soc_abs rv_prog_def isa_step_def rv_reg_def rv_imm_def op_class_defs isa_write_def rv_alu_def Let_def array_get_def)
  have "\<exists>m. bm.store_at (mem_new 16) SW 8 7 = Inr m"
    by (rule bm.store_total) (simp_all add: mem_new_def mem_ok_def mem_in_range_def)
  then obtain m where "bm.store_at (mem_new 16) SW 8 7 = Inr m" by blast
  then have "isa_step (rv_prog ! 1) ?u = Inr (?u\<lparr>isa_mem := m, isa_pc := 8\<rparr>)"
    by (simp add: rv_prog_def isa_step_def rv_reg_def rv_imm_def op_class_defs Let_def)
  moreover have "array_get ''imem'' rv_prog 1 = Inr (rv_prog ! 1)" by (simp add: rv_prog_def array_get_def)
  ultimately have "isa_run rv_prog (Suc 1) (soc_abs (ex_soc im 16)) = Inr (?u\<lparr>isa_mem := m, isa_pc := 8\<rparr>)"
    using one by simp
  then show "\<exists>u. isa_run rv_prog 2 (soc_abs (ex_soc im 16)) = Inr u" by (simp add: numeral_2_eq_2)
  show "\<exists>u. isa_run rv_prog 1 (soc_abs (ex_soc im 16)) = Inr u" using one by blast
qed

lemma ex_sys_boot: "soc_boot place_held (ex_sys im n)" "ss_soc (ex_sys im n) = ex_soc im n" "ss_cpu (ex_sys im n) = soc_cpu (ex_soc im n)"
  "cpu_imem (soc_cpu (ex_soc im n)) = im" "blocked (ex_sys im n) = []" "begun (ex_sys im n) = 0"
  using ex_soc_start [of im n] by (simp_all add: soc_boot_def ex_sys_def ex_soc_def cpu_init_def dm_new_def place_held_def blocked_def)

lemma ex_sys_on_track: "on_track place_held cfg rv_prog (soc_abs (ex_soc rv_prog 16)) (ex_sys rv_prog 16)"
  using boot_tracks [OF ex_sys_boot(1) [of rv_prog 16], of cfg] ex_sys_boot(2,3,4,6) [of rv_prog 16]
  by (auto simp: on_track_def soc_tracks_def)

lemma rv_prog_no_halt: "j < 2 \<Longrightarrow> last_instr rv_prog (soc_abs (ex_soc im 16)) j i \<Longrightarrow> i_op i \<noteq> HCF"
proof -
  assume j: "j < 2" and l: "last_instr rv_prog (soc_abs (ex_soc im 16)) j i"
  then consider "j = 0" | "j = Suc 0" by linarith
  then show "i_op i \<noteq> HCF"
    by cases (use l in \<open>auto simp: blank_instr_def last_instr_def ex_soc_abs rv_prog_def isa_step_def rv_reg_def rv_imm_def op_class_defs Let_def array_get_def split: if_splits\<close>)
qed

lemma ex_sys_runs:
  assumes "n \<in> {1, 2}"
  obtains s where "soc_runs place_ops place_held place_drain default_config (ex_sys rv_prog 16) s" "begun s = n"
    "pending_stores place_held s = []" "\<not> instr_in_flight place_held s"
proof -
  obtain v where v: "isa_run rv_prog n (soc_abs (ex_soc rv_prog 16)) = Inr v" using assms rv_prog_runs [of rv_prog] by (auto simp del: isa_run.simps)
  have "\<And>j i. Suc j < n \<Longrightarrow> last_instr rv_prog (soc_abs (ex_soc rv_prog 16)) j i \<Longrightarrow> i_op i \<noteq> HCF" using assms rv_prog_no_halt by fastforce
  from reach_count [OF place_contract rv_prog_soc_regular ex_sys_on_track ex_sys_boot(5) v this] obtain s where
    s: "soc_runs place_ops place_held place_drain default_config (ex_sys rv_prog 16) s" "begun s = n" "blocked s = []" "traffic_left place_held s = 0"
    and "on_track place_held default_config rv_prog (soc_abs (ex_soc rv_prog 16)) s"
    using ex_sys_boot(6) by fastforce
  then obtain k u i ph where "tracks_at place_held default_config rv_prog (soc_abs (ex_soc rv_prog 16)) k u i ph s"
    unfolding on_track_def soc_tracks_def by blast
  from quiet_state [OF this s(4,3)] show thesis using s(1,2) that by blast
qed

section \<open>The system executes the instruction set\<close>

text \<open>
  C1: the SoC refines the reference machine. Its CPU, crossbar, data memory and CFU run in any order and take
  any time, with stores on their way while later instructions execute; the registers of the crossbar hold one packet (\<open>slot_contract\<close>),
  requests of the CPU keep their order, and the memory pops at most one in a tick. The DMA controller and the
  array are idle, and no store that a register refused is retried. The program is of RV32I, \<open>MUL\<close> and SIMD instructions and
  regular: no \<open>SLTU\<close>, registers below 32, no destination \<open>x0\<close>, no shift by 32 or more, no \<open>JALR\<close> with equal registers, and every access goes to the data memory
  (\<open>soc_regular_program\<close>). In every reachable state, unless the CPU has committed a store that fails in the
  reference: the registers and the program counter are those of the reference after the instructions
  committed, its memory is the data memory after the stores still under way, in their order; the CPU waits for a load, an
  operation of the CFU or a refused store, has one event scheduled, or has executed \<open>HCF\<close>; and an action
  that fails does so with the error of the reference's next instruction.
\<close>

theorem soc_runs_refine_isa:
  assumes "slot_contract ops held drain" "soc_boot held s0" "soc_regular_program (cpu_imem (ss_cpu s0)) (soc_abs (ss_soc s0))"
    and "soc_runs ops held drain cfg s0 s"
  shows "let im = cpu_imem (ss_cpu s0); t = soc_abs (ss_soc s0); k = committed_count held s
    in (\<exists>j u i e. int j < cpu_inst_cnt (ss_cpu s) \<and> isa_run im j t = Inr u \<and> last_instr im t j i \<and> is_store (i_op i) \<and> isa_step i u = Inl e)
     \<or> (\<exists>u. isa_run im k t = Inr u \<and> cpu_rf (ss_cpu s) = isa_rf u \<and> cpu_pc (ss_cpu s) = isa_pc u
          \<and> dm_apply_writes (dm_base (ss_dm s)) (pending_stores held s) = Inr (isa_mem u)
          \<and> (if instr_in_flight held s
             then cpu_inst_cnt (ss_cpu s) = int k + 1 \<and> cpu_events (ss_cpu s) = []
               \<and> (\<exists>i. last_instr im t k i \<and> (is_load (i_op i) \<or> is_store (i_op i) \<or> is_simd (i_op i)))
             else cpu_inst_cnt (ss_cpu s) = int k \<and> ((\<exists>n. cpu_events (ss_cpu s) = [n])
               \<or> cpu_events (ss_cpu s) = [] \<and> 0 < k \<and> (\<exists>i. last_instr im t (k - 1) i \<and> i_op i = HCF)))
          \<and> (\<forall>a e. soc_act ops held drain cfg a s = Some (Inl e) \<longrightarrow> isa_run im (Suc k) t = Inl e))"
proof -
  let ?im = "cpu_imem (ss_cpu s0)" and ?t = "soc_abs (ss_soc s0)"
  consider "isa_failed ?im ?t s" | k u i ph where "tracks_at held cfg ?im ?t k u i ph s"
    using boot_runs_tracks [OF assms] unfolding soc_tracks_def by blast
  then show ?thesis
  proof cases
    case 1
    then show ?thesis unfolding Let_def isa_failed_def by (rule disjI1)
  next
    case 2
    note tr = tracks_at_D [OF 2] and com = tracks_committed [OF 2]
    have cnt: "cpu_inst_cnt (ss_cpu s) = int k + (if instr_in_flight held s then 1 else 0)" using tr(7) com(1) by simp
    show ?thesis
      using tr(2,4,5) com(3) cnt tracks_status [OF 2] tracks_error [OF assms(1,3) 2]
      unfolding Let_def com(2) by (intro disjI2 exI [of _ u]) (simp del: isa_run.simps)
  qed
qed

theorem soc_runs_refine_isa_witness:
  "\<exists>s. soc_runs place_ops place_held place_drain default_config (ex_sys rv_prog 16) s \<and> cpu_inst_cnt (ss_cpu s) = 2
     \<and> isa_run rv_prog 2 (soc_abs (ex_soc rv_prog 16)) = Inr (soc_abs (ss_soc s))"
proof -
  obtain s where s: "soc_runs place_ops place_held place_drain default_config (ex_sys rv_prog 16) s" "begun s = 2"
    "pending_stores place_held s = []" "\<not> instr_in_flight place_held s" by (rule ex_sys_runs [of 2]) simp
  have ok: "\<not> isa_failed rv_prog (soc_abs (ex_soc rv_prog 16)) s" using rv_prog_runs(2) [of rv_prog] s(2) not_failed by force
  have "committed_count place_held s = 2" using s by (simp add: committed_count_def)
  with soc_runs_refine_isa [OF place_contract ex_sys_boot(1) _ s(1)] rv_prog_soc_regular ok s(3,4) show ?thesis
    using s(1) by (auto simp: ex_sys_boot Let_def isa_failed_def soc_abs_def simp del: isa_run.simps)
qed

text \<open>
  C2: the two simulators of the repository agree. They start from the same regular program of RV32I without
  \<open>MUL\<close> and SIMD instructions, whose accesses all go to the data memory (\<open>soc_regular_program\<close> as in the refinement
  of the reference by the SoC), with the same registers and memory; the SoC
  runs as there, in any order and with stores on their way, the functional core of the
  pipeline model under any backpressure of its stages. When both have executed the same number of instructions and the SoC has none in flight, they have the
  same registers and program counter, and the memory of the core is that of the SoC after the stores still under way.
\<close>

theorem simulators_agree:
  assumes "slot_contract ops held drain" "soc_boot held s0" "soc_regular_program (cpu_imem (ss_cpu s0)) (soc_abs (ss_soc s0))"
    and "soc_runs ops held drain cfg s0 s" "\<not> instr_in_flight held s"
    and "(rv_sys_step pops cfg')\<^sup>*\<^sup>* r0 r" "rv_imem r0 = cpu_imem (ss_cpu s0)" "rv_abs r0 = soc_abs (ss_soc s0)"
    and "rv_inst_cnt r0 = 0" "rv_events r0 = [t]" "rv_pending r0 = None" "rv_inst_cnt r = cpu_inst_cnt (ss_cpu s)"
    and "\<forall>i \<in> set (rv_imem r0). i_op i \<noteq> MUL \<and> \<not> is_simd (i_op i)"
  shows "rv_rf r = cpu_rf (ss_cpu s) \<and> rv_pc r = cpu_pc (ss_cpu s)
    \<and> dm_apply_writes (dm_base (ss_dm s)) (pending_stores held s) = Inr (rv_dmem r)"
proof -
  let ?im = "cpu_imem (ss_cpu s0)" and ?t = "soc_abs (ss_soc s0)"
  have "i \<in> set im" if "array_get ''imem'' im k = Inr i" for im k and i :: instr
    using that by (auto simp: array_get_def split: if_splits)
  then have "regular_program (rv_imem r0) (rv_abs r0)"
    using assms(3,7,8,13) by (auto simp: soc_regular_program_def regular_program_def soc_regular_def rv_regular_def)
  moreover have "length (rv_rf r0) = 32"
    using assms(2,8) by (simp add: soc_boot_def soc_start_def soc_ok_def cpu_ok_def rv_abs_def soc_abs_def)
  ultimately have "rv_tracks (rv_imem r0) (rv_abs r0) r" using rv_runs_track assms(6,9,10,11) by blast
  then have run: "isa_run ?im (begun s) ?t = Inr (rv_abs r)" using assms(7,8,12) by (simp add: rv_tracks_def)
  then obtain k u i ph where "tracks_at held cfg ?im ?t k u i ph s"
    using boot_runs_tracks [OF assms(1-4)] not_failed [OF run, of s] unfolding soc_tracks_def by blast
  note tr = tracks_at_D [OF this] and com = tracks_committed [OF this]
  have "begun s = k" using com(1) tr(7) assms(5) by simp
  then have "rv_abs r = u" using run tr(2) by simp
  then show ?thesis using tr(4,5) com(3) by (auto simp: rv_abs_def)
qed

theorem simulators_agree_witness:
  "\<exists>s r. soc_runs place_ops place_held place_drain default_config (ex_sys rv_prog 16) s \<and> cpu_inst_cnt (ss_cpu s) = 1
    \<and> (rv_sys_step rv_free_ops default_config)\<^sup>*\<^sup>* ex_rv r \<and> rv_inst_cnt r = 1 \<and> rv_rf r = cpu_rf (ss_cpu s)"
proof -
  obtain r where r: "(rv_sys_step rv_free_ops default_config)\<^sup>*\<^sup>* ex_rv r" "rv_inst_cnt r = 1" using ex_rv_step by blast
  obtain s where s: "soc_runs place_ops place_held place_drain default_config (ex_sys rv_prog 16) s" "begun s = 1"
    "\<not> instr_in_flight place_held s" by (rule ex_sys_runs [of 1]) simp
  have rv: "rv_imem ex_rv = rv_prog" "rv_abs ex_rv = soc_abs (ex_soc rv_prog 16)" "rv_inst_cnt ex_rv = 0" "rv_events ex_rv = [1]" "rv_pending ex_rv = None"
    by (simp_all add: ex_rv_def rv_abs_def ex_soc_abs)
  have "\<forall>i \<in> set (rv_imem ex_rv). i_op i \<noteq> MUL \<and> \<not> is_simd (i_op i)" by (simp add: rv rv_prog_def is_simd_def)
  moreover have cnt: "cpu_inst_cnt (ss_cpu s) = 1" using s(2) by simp
  ultimately have "rv_rf r = cpu_rf (ss_cpu s)"
    using simulators_agree [OF place_contract ex_sys_boot(1) _ s(1,3) r(1) _ _ rv(3-5)] rv_prog_soc_regular rv(1,2) r(2)
    by (simp add: ex_sys_boot)
  with s(1) cnt r show ?thesis by blast
qed

text \<open>
  C3: the SoC makes progress. From every state it can reach with a regular program (restrictions as above) and in which no refused
  store waits, whatever is under way, its parts have a schedule on which it commits any number \<open>n\<close> of instructions that the reference
  executes without an error and without an earlier \<open>HCF\<close>, and comes to rest with registers, program counter and memory equal to those of
  the reference, nothing in flight and no packet of the CPU waiting.
\<close>

theorem soc_run_completes:
  assumes "slot_contract ops held drain" "soc_boot held s0" "soc_regular_program (cpu_imem (ss_cpu s0)) (soc_abs (ss_soc s0))"
    and "soc_runs ops held drain cfg s0 s" "\<forall>p \<in> set (cpu_request_queue (ss_cpu s)). is_read_req p" "cpu_inst_cnt (ss_cpu s) \<le> int n"
    and "isa_run (cpu_imem (ss_cpu s0)) n (soc_abs (ss_soc s0)) = Inr u"
    and "\<forall>j i. Suc j < n \<longrightarrow> last_instr (cpu_imem (ss_cpu s0)) (soc_abs (ss_soc s0)) j i \<longrightarrow> i_op i \<noteq> HCF"
  shows "\<exists>s'. soc_runs ops held drain cfg s s' \<and> cpu_inst_cnt (ss_cpu s') = int n \<and> soc_abs (ss_soc s') = u
    \<and> \<not> instr_in_flight held s' \<and> pending_stores held s' = [] \<and> cpu_request_queue (ss_cpu s') = []"
proof -
  let ?im = "cpu_imem (ss_cpu s0)" and ?t = "soc_abs (ss_soc s0)"
  have le: "begun s \<le> n" using assms(6) by linarith
  then have "soc_tracks held cfg ?im ?t s" using boot_runs_tracks [OF assms(1-4)] not_failed [OF assms(7) le] by blast
  then have "on_track held cfg ?im ?t s" using isa_run_prefix [OF assms(7) le] by (simp add: on_track_def)
  moreover have "blocked s = []" using assms(5) by (simp add: blocked_def filter_empty_conv)
  ultimately obtain s' where s': "soc_runs ops held drain cfg s s'" "on_track held cfg ?im ?t s'" "begun s' = n" "blocked s' = []" "traffic_left held s' = 0"
    using reach_count [OF assms(1,3) _ _ assms(7) _ le] assms(8) by blast
  then obtain k u' i ph where t: "tracks_at held cfg ?im ?t k u' i ph s'" unfolding on_track_def soc_tracks_def by blast
  note q = quiet_state [OF t s'(5,4)]
  have "k = n" using q(2) s'(3) by simp
  moreover then have "u' = u" using tracks_at_D(2) [OF t] assms(7) by simp
  ultimately show ?thesis using s'(1) q by blast
qed

theorem soc_run_completes_witness:
  "\<exists>s u. soc_runs place_ops place_held place_drain default_config (ex_sys rv_prog 16) s
     \<and> isa_run rv_prog 2 (soc_abs (ex_soc rv_prog 16)) = Inr u \<and> soc_abs (ss_soc s) = u"
proof -
  obtain v where v: "isa_run rv_prog 2 (soc_abs (ex_soc rv_prog 16)) = Inr v" using rv_prog_runs by blast
  have "\<forall>p \<in> set (cpu_request_queue (ss_cpu (ex_sys rv_prog 16))). is_read_req p" "cpu_inst_cnt (ss_cpu (ex_sys rv_prog 16)) \<le> int 2"
    by (simp_all add: ex_sys_def ex_soc_def cpu_init_def)
  moreover have hcf: "\<forall>j i. Suc j < 2 \<longrightarrow> last_instr rv_prog (soc_abs (ex_soc rv_prog 16)) j i \<longrightarrow> i_op i \<noteq> HCF"
    using rv_prog_no_halt by fastforce
  ultimately show ?thesis
    using soc_run_completes [OF place_contract ex_sys_boot(1) [of rv_prog 16] _ soc_runs_start, where n = 2 and u = v and cfg = default_config]
      rv_prog_soc_regular v by (auto simp: ex_sys_boot simp del: isa_run.simps)
qed

section \<open>The array and the DMA controller\<close>

text \<open>
  Enabling the array (aligned addresses, at most 2048 entries, matrix A of at most 256 rows and
  columns, a stride below 256) queues four packets which, delivered by the crossbar to the DMA
  controller in this order, start the transfer of matrix A: from its address in data memory to its
  place in the SRAM, \<open>K\<close> bytes wide and \<open>M\<close> rows high with the array's stride on both sides.
\<close>

lemma array_starts_transfer:
  assumes "bit data 0" "A_addr s mod 4 = 0" "B_addr s mod 4 = 0" "C_addr s mod 4 = 0"
    and "sint (sa_M s * sa_K s) \<le> 2048" "sint (sa_K s * sa_N s) \<le> 2048"
    and "0 < unat (sa_K s)" "unat (sa_K s) \<le> 256" "0 < unat (sa_M s)" "unat (sa_M s) \<le> 256" "unat (strideA s) < 256"
    and "reg_contract ops sent" "length (bufferMemory (soc_dma x)) = 256"
  shows "\<exists>s' ps x'. sa_reg_write cfg now ctr 0 data s = Inr (s', ctr + 4) \<and> sa_req_Q s' = sa_req_Q s @ ps
    \<and> foldE (\<lambda>y p. soc_request ops cfg later p y) x ps = Inr x'
    \<and> enabled (soc_dma x') \<and> currentState (soc_dma x') = READING \<and> pendingBusReadResponses (soc_dma x') = 1
    \<and> srcAddr (soc_dma x') = A_addr_dm s \<and> dstAddr (soc_dma x') = A_addr s + SA_MEMORY_BASE
    \<and> true_width (soc_dma x') = unat (sa_K s) \<and> true_height (soc_dma x') = unat (sa_M s)
    \<and> Source_stride (soc_dma x') = unat (strideA s) \<and> Dest_stride (soc_dma x') = unat (strideA s)"
proof -
  let ?c = "dma_size_cfg (strideA s) (sa_K s) (sa_M s)"
  let ?ps = "dma_program ctr (A_addr_dm s) (A_addr s + SA_MEMORY_BASE) ?c"
  from sa_enable_packets [OF assms(1-6)]
  obtain s' where s': "sa_reg_write cfg now ctr 0 data s = Inr (s', ctr + 4)" "sa_req_Q s' = sa_req_Q s @ ?ps" by blast
  from dma_program_starts [OF assms(12,13), of cfg later ctr "A_addr_dm s" "A_addr s + SA_MEMORY_BASE" ?c]
  obtain x' where "foldE (\<lambda>y p. soc_request ops cfg later p y) x ?ps = Inr x'" "enabled (soc_dma x')"
    "currentState (soc_dma x') = READING" "pendingBusReadResponses (soc_dma x') = 1"
    "srcAddr (soc_dma x') = A_addr_dm s" "dstAddr (soc_dma x') = A_addr s + SA_MEMORY_BASE"
    "true_width (soc_dma x') = cfg_byte ?c 8 + 1" "true_height (soc_dma x') = cfg_byte ?c 0 + 1"
    "Source_stride (soc_dma x') = cfg_byte ?c 24" "Dest_stride (soc_dma x') = cfg_byte ?c 16"
    by blast
  then show ?thesis
    using s' dma_size_cfg_bytes [OF assms(11,7,8,9,10)] by (intro exI [of _ s'] exI [of _ ?ps] exI [of _ x']) simp
qed

section \<open>Loading a program\<close>

text \<open>
  C33: a newly built system that loads a source file which assembles (with errors stopping the run)
  keeps the sizes of both memories and starts: 32 registers, one trigger event, nothing pending. Below the
  data segment every instruction has its labels replaced, and each branch carries the address, less than
  8 KiB from the branch, that the file gives the first label with its name: \<open>file_labels\<close> reads the labels
  off the lines of the file (each line at most 1023 bytes), each with the offset its line starts at, which is
  the sum of the sizes of the lines before it since the last \<open>.text\<close> or \<open>.data\<close>.
\<close>

theorem loaded_program_resolved:
  assumes "postSimInitSetup cfg file (soc_new cfg now rc rd d a u) = Inr x" "error_aborts cfg"
  shows "\<exists>content. file = Some content \<and> soc_start x \<and> length (mem (dm_base (soc_dmem x))) = memory_size cfg
    \<and> length (cpu_imem (soc_cpu x)) = data_offset cfg div 4
    \<and> (let labels = file_labels cfg (read_lines 1023 content) 0 in length labels \<le> max_label_count cfg
        \<and> (\<forall>k < data_offset cfg div 4. let i = cpu_imem (soc_cpu x) ! k in
             i_op i \<noteq> UNIMPL \<longrightarrow> no_label i \<and> (i_op i \<in> branch_ops \<longrightarrow> branch_resolved labels k i)))"
proof -
  let ?x = "soc_new cfg now rc rd d a u"
  have im: "cpu_imem (soc_cpu ?x) = replicate (data_offset cfg div 4) blank_instr" "length (mem (dm_base (soc_dmem ?x))) = memory_size cfg"
    by (simp_all add: soc_new_def cpu_init_def dm_new_def mem_new_def)
  from assms(1) obtain e where e: "bindE (parse cfg file (emulator_new cfg (mem (dm_base (soc_dmem ?x))) (cpu_imem (soc_cpu ?x))))
      (normalize_labels cfg) = Inr e"
    and x: "x = ?x\<lparr>soc_cpu := (soc_cpu ?x)\<lparr>cpu_imem := em_imem e\<rparr>,
       soc_dmem := (soc_dmem ?x)\<lparr>dm_base := (dm_base (soc_dmem ?x))\<lparr>mem := em_mem e\<rparr>\<rparr>\<rparr>"
    by (auto simp: postSimInitSetup_def bindE_eq_Inr)
  have "\<forall>i \<in> set (cpu_imem (soc_cpu ?x)). i_op i \<notin> branch_ops" unfolding im by (simp add: blank_instr_def branch_ops_def)
  note asm = assembled_resolved [OF e this assms(2)]
  have "soc_start x" using soc_new_start [of cfg now rc rd d a u] by (simp add: x soc_start_def soc_ok_def cpu_ok_def)
  then show ?thesis using asm im by (auto simp: x)
qed

theorem loaded_program_resolved_witness:
  "\<exists>x. postSimInitSetup tiny_config (Some ''x: beqz ra x'') (soc_new tiny_config 0 [] [] ex_dma ex_sa ex_cfu) = Inr x
     \<and> soc_start x \<and> no_label (cpu_imem (soc_cpu x) ! 0)"
proof -
  let ?x = "soc_new tiny_config 0 [] [] ex_dma ex_sa ex_cfu"
  have cfg: "error_aborts tiny_config" "data_offset tiny_config div 4 = 2" "memory_size tiny_config = 16"
    by (simp_all add: tiny_config_def default_config_def)
  have x: "mem (dm_base (soc_dmem ?x)) = replicate 16 0" "cpu_imem (soc_cpu ?x) = replicate 2 blank_instr"
    by (simp_all add: soc_new_def cpu_init_def dm_new_def mem_new_def cfg)
  obtain st where st: "bindE (parse tiny_config (Some ''x: beqz ra x'') (emulator_new tiny_config (replicate 16 0) (replicate 2 blank_instr)))
      (normalize_labels tiny_config) = Inr st" "i_op (em_imem st ! 0) = BEQ"
    using tiny_assembles by blast
  then obtain x' where x': "postSimInitSetup tiny_config (Some ''x: beqz ra x'') ?x = Inr x'" "cpu_imem (soc_cpu x') = em_imem st"
    by (auto simp: postSimInitSetup_def x bindE_eq_Inr)
  from loaded_program_resolved [OF x'(1) cfg(1)] x' st(2) show ?thesis
    by (auto simp: cfg Let_def dest!: spec [where x = "0 :: nat"])
qed

end
